(* ===== verification/Prelude.thy ===== *)
theory Prelude
  imports Main "HOL-Library.Word"
begin

unbundle bit_operations_syntax

text \<open>
  The part of C the programs of the repository share: bytes, the 32-bit \<^verbatim>\<open>int\<close> with its
  conversions, the big-endian field codec that is written out in every sender and receiver,
  the \<^verbatim>\<open>for ... if (cond) break\<close> search loops over fixed-size arrays, and the checked array
  accesses.  A C \<^verbatim>\<open>int\<close> is a HOL \<open>int\<close>; where the code converts a wider value to \<^verbatim>\<open>int\<close> the
  conversion is \<open>to_int32\<close>, and where a value has to be in range the range is \<open>int32\<close>.
  The collections \<open>arr_simps\<close> and \<open>wire_simps\<close> carry the proofs of the components.
\<close>

named_theorems arr_simps
named_theorems wire_simps

type_synonym byte = "8 word"

section \<open>The 32-bit int\<close>

definition int32 :: "int \<Rightarrow> bool" where
  "int32 x \<longleftrightarrow> - (2 ^ 31) \<le> x \<and> x < 2 ^ 31"

definition to_int32 :: "int \<Rightarrow> int" where
  "to_int32 x = sint (word_of_int x :: 32 word)"

lemma to_int32_eq: "to_int32 x = signed_take_bit 31 x"
  by (simp add: to_int32_def sint_sbintrunc')

lemma to_int32_id [wire_simps]: "int32 x \<Longrightarrow> to_int32 x = x"
  by (simp add: to_int32_eq int32_def signed_take_bit_int_eq_self)

lemma int32_to_int32 [simp]: "int32 (to_int32 x)"
  using signed_take_bit_int_greater_eq_minus_exp [of 31 x] signed_take_bit_int_less_exp [of 31 x]
  by (simp add: int32_def to_int32_eq)

section \<open>Four bytes, most significant first\<close>

text \<open>
  \<^verbatim>\<open>converter[0] = (x >> 24) & 0xFF; ...\<close> and
  \<^verbatim>\<open>converter[0] << 24 | converter[1] << 16 | converter[2] << 8 | converter[3]\<close>.
\<close>

definition be32_bytes :: "int \<Rightarrow> byte list" where
  "be32_bytes x =
     [word_of_int (drop_bit 24 x AND 0xFF), word_of_int (drop_bit 16 x AND 0xFF),
      word_of_int (drop_bit 8 x AND 0xFF), word_of_int (x AND 0xFF)]"

definition be32_val :: "byte \<Rightarrow> byte \<Rightarrow> byte \<Rightarrow> byte \<Rightarrow> int" where
  "be32_val c0 c1 c2 c3 =
     to_int32 (push_bit 24 (uint c0) OR push_bit 16 (uint c1) OR push_bit 8 (uint c2) OR uint c3)"

fun be32_read :: "byte list \<Rightarrow> (int \<times> byte list) option" where
  "be32_read (c0 # c1 # c2 # c3 # bs) = Some (be32_val c0 c1 c2 c3, bs)"
| "be32_read _ = None"

lemma length_be32_bytes [simp]: "length (be32_bytes x) = 4"
  by (simp add: be32_bytes_def)

lemma and_255_int: "(x::int) AND 0xFF = take_bit 8 x"
  by (simp add: take_bit_eq_mask mask_eq_exp_minus_1)

lemma uint_low_byte: "uint (word_of_int (x AND 0xFF) :: byte) = take_bit 8 x"
  by (simp add: and_255_int unsigned_of_int take_bit_take_bit)

lemma four_bytes_or:
  "push_bit 24 (take_bit 8 (drop_bit 24 x)) OR push_bit 16 (take_bit 8 (drop_bit 16 x))
     OR push_bit 8 (take_bit 8 (drop_bit 8 x)) OR take_bit 8 x = take_bit 32 (x::int)"
proof (rule bit_eqI)
  fix n :: nat
  consider "n < 8" | "8 \<le> n" "n < 16" | "16 \<le> n" "n < 24" | "24 \<le> n"
    by linarith
  then show "bit (push_bit 24 (take_bit 8 (drop_bit 24 x)) OR push_bit 16 (take_bit 8 (drop_bit 16 x))
     OR push_bit 8 (take_bit 8 (drop_bit 8 x)) OR take_bit 8 x) n = bit (take_bit 32 x) n"
    by cases (auto simp: bit_simps)
qed

lemma be32_read_bytes [wire_simps]: "int32 x \<Longrightarrow> be32_read (be32_bytes x @ bs) = Some (x, bs)"
  by (simp add: be32_bytes_def be32_val_def uint_low_byte four_bytes_or to_int32_eq
      signed_take_bit_take_bit int32_def signed_take_bit_int_eq_self)

lemma be32_read_length: "be32_read bs = Some (x, bs') \<Longrightarrow> length bs = length bs' + 4"
  by (cases bs rule: be32_read.cases) auto

lemma be32_read_int32: "be32_read bs = Some (x, bs') \<Longrightarrow> int32 x"
  by (cases bs rule: be32_read.cases) (auto simp: be32_val_def)

lemma be32_read_Some: "4 \<le> length bs \<Longrightarrow> \<exists>x bs'. be32_read bs = Some (x, bs')"
  by (cases bs rule: be32_read.cases) auto

section \<open>Search loops over arrays\<close>

text \<open>
  \<^verbatim>\<open>for (k = 0; k < N; k++) if (cond) { ...; break; }\<close>: the index of the first element that
  satisfies the condition, if there is one.
\<close>

fun find_index :: "('a \<Rightarrow> bool) \<Rightarrow> 'a list \<Rightarrow> nat option" where
  "find_index P [] = None"
| "find_index P (x # xs) = (if P x then Some 0 else map_option Suc (find_index P xs))"

lemma find_index_None: "find_index P xs = None \<longleftrightarrow> (\<forall>x \<in> set xs. \<not> P x)"
  by (induction xs) auto

lemma find_index_Some:
  "find_index P xs = Some i \<longleftrightarrow> i < length xs \<and> P (xs ! i) \<and> (\<forall>j < i. \<not> P (xs ! j))"
proof (induction xs arbitrary: i)
  case Nil
  then show ?case by simp
next
  case (Cons x xs)
  show ?case
    by (cases i) (auto simp: Cons.IH All_less_Suc2)
qed

lemma find_index_bound: "find_index P xs = Some i \<Longrightarrow> i < length xs"
  by (simp add: find_index_Some)

lemma find_index_hit: "find_index P xs = Some i \<Longrightarrow> P (xs ! i)"
  by (simp add: find_index_Some)

lemma find_index_append:
  "find_index P (xs @ ys) = (case find_index P xs of Some i \<Rightarrow> Some i | None \<Rightarrow> map_option (\<lambda>i. i + length xs) (find_index P ys))"
  by (induction xs) (auto simp: option.map_comp comp_def option.map_ident split: option.splits)

section \<open>Checked array stores\<close>

text \<open>
  A store \<^verbatim>\<open>a[i] = v\<close> past the end of the array is undefined behaviour in C; the model makes
  it the value \<open>None\<close>.
\<close>

definition store :: "'a list \<Rightarrow> nat \<Rightarrow> 'a \<Rightarrow> 'a list option" where
  "store xs i v = (if i < length xs then Some (xs[i := v]) else None)"

definition load :: "'a list \<Rightarrow> nat \<Rightarrow> 'a option" where
  "load xs i = (if i < length xs then Some (xs ! i) else None)"

lemma store_Some [arr_simps]: "store xs i v = Some ys \<longleftrightarrow> i < length xs \<and> ys = xs[i := v]"
  by (auto simp: store_def)

lemma store_None [arr_simps]: "store xs i v = None \<longleftrightarrow> length xs \<le> i"
  by (simp add: store_def not_less)

lemma load_Some [arr_simps]: "load xs i = Some v \<longleftrightarrow> i < length xs \<and> v = xs ! i"
  by (auto simp: load_def)

lemma load_None [arr_simps]: "load xs i = None \<longleftrightarrow> length xs \<le> i"
  by (simp add: load_def not_less)

lemma load_store_same: "store xs i v = Some ys \<Longrightarrow> load ys i = Some v"
  by (auto simp: arr_simps)

lemma load_store_other: "store xs i v = Some ys \<Longrightarrow> i \<noteq> j \<Longrightarrow> load ys j = load xs j"
  by (auto simp: store_def load_def split: if_splits)

end
