(* ===== verification/Wire.thy ===== *)
theory Wire
  imports Prelude
begin

text \<open>
  The contract every message format of the repository meets: a fixed-width encoder and a decoder
  that inverts it on well-formed messages.  The transport protocol (theory \<open>Segment\<close>), the
  routing protocol (theory \<open>Odr_Packet\<close>) and the address resolution protocol (theory \<open>Arp\<close>)
  interpret it with the encoders and decoders of their C sources; the lemmas here are what the
  protocol proofs use of a format.
\<close>

locale wire_codec =
  fixes enc :: "'m \<Rightarrow> byte list"
    and dec :: "byte list \<Rightarrow> 'm option"
    and wf :: "'m \<Rightarrow> bool"
    and width :: nat
  assumes dec_enc: "wf m \<Longrightarrow> dec (enc m) = Some m"
    and enc_length: "wf m \<Longrightarrow> length (enc m) = width"
    and dec_wf: "dec bs = Some m \<Longrightarrow> wf m"
begin

lemma enc_inj: "wf m \<Longrightarrow> wf m' \<Longrightarrow> enc m = enc m' \<Longrightarrow> m = m'"
  by (metis dec_enc option.inject)

text \<open>A receive buffer of the format's width takes the message and cuts off what follows it.\<close>

lemma dec_take_enc: "wf m \<Longrightarrow> dec (take width (enc m @ rest)) = Some m"
  by (simp add: dec_enc enc_length)

text \<open>
  What holds of every message put on a network holds of every message taken off it, whatever the
  network loses, repeats or reorders.
\<close>

definition carries :: "byte list set \<Rightarrow> ('m \<Rightarrow> bool) \<Rightarrow> bool" where
  "carries net P \<longleftrightarrow> (\<forall>b \<in> net. \<exists>m. dec b = Some m \<and> P m)"

lemma carries_empty: "carries {} P"
  by (simp add: carries_def)

lemma carries_insert: "carries net P \<Longrightarrow> dec b = Some m \<Longrightarrow> P m \<Longrightarrow> carries (insert b net) P"
  by (simp add: carries_def)

lemma carries_send: "carries net P \<Longrightarrow> (\<And>m. m \<in> M \<Longrightarrow> wf m \<and> P m) \<Longrightarrow> carries (net \<union> enc ` M) P"
  by (auto simp: carries_def dec_enc)

lemma carries_mono: "carries net P \<Longrightarrow> (\<And>m. P m \<Longrightarrow> Q m) \<Longrightarrow> carries net Q"
  unfolding carries_def by metis

lemma carries_dec: "carries net P \<Longrightarrow> b \<in> net \<Longrightarrow> dec b = Some m \<Longrightarrow> wf m \<and> P m"
  by (auto simp: carries_def dec_wf)

lemma carries_decodes: "carries net P \<Longrightarrow> b \<in> net \<Longrightarrow> \<exists>m. dec b = Some m \<and> wf m \<and> P m"
  unfolding carries_def using dec_wf by metis

end

end
