(* ===== verification/Segment.thy ===== *)
theory Segment
  imports Wire
begin

text \<open>
  The segments of the file transfer protocol (\<^verbatim>\<open>TCP-like-protocal-usingUDPsocket\<close>):
  the structure of \<^verbatim>\<open>unpifiplus.h\<close>, its 512-byte wire form as client and server build it byte by
  byte, the reader of both sides, and the variant the client sends in its TIME_WAIT state.
\<close>

section \<open>The structure and its wire form\<close>

definition UDP_HEADER_SIZE :: nat where "UDP_HEADER_SIZE = 21"
definition UDP_PAYLOAD_SIZE :: nat where "UDP_PAYLOAD_SIZE = 491"
definition UDP_SEGMENT_SIZE :: nat where "UDP_SEGMENT_SIZE = 512"

lemmas udp_sizes = UDP_HEADER_SIZE_def UDP_PAYLOAD_SIZE_def UDP_SEGMENT_SIZE_def

record segment =
  sequence_num :: int
  ack_num :: int
  is_eof :: byte
  is_probe :: byte
  is_complete :: byte
  is_resent :: byte
  rwnd :: int
  timestamp :: int
  is_last_in_iter :: byte
  payload :: "byte list"

text \<open>\<^verbatim>\<open>memset(&seg, 0, sizeof seg)\<close>\<close>

definition zero_segment :: segment where
  "zero_segment = \<lparr>sequence_num = 0, ack_num = 0, is_eof = 0, is_probe = 0, is_complete = 0,
     is_resent = 0, rwnd = 0, timestamp = 0, is_last_in_iter = 0,
     payload = replicate UDP_PAYLOAD_SIZE 0\<rparr>"

text \<open>\<^verbatim>\<open>seg.is_eof > 0\<close> on a signed \<^verbatim>\<open>char\<close>.\<close>

definition flag_set :: "byte \<Rightarrow> bool" where
  "flag_set c \<longleftrightarrow> 0 < sint c"

definition wf_segment :: "segment \<Rightarrow> bool" where
  "wf_segment s \<longleftrightarrow> int32 (sequence_num s) \<and> int32 (ack_num s) \<and> int32 (rwnd s) \<and>
     int32 (timestamp s) \<and> length (payload s) = UDP_PAYLOAD_SIZE"

definition encode_segment :: "segment \<Rightarrow> byte list" where
  "encode_segment s =
     be32_bytes (sequence_num s) @ be32_bytes (ack_num s) @
     [is_eof s, is_probe s, is_complete s, is_resent s] @
     be32_bytes (rwnd s) @ be32_bytes (timestamp s) @ [is_last_in_iter s] @
     take UDP_PAYLOAD_SIZE (payload s)"

text \<open>The reader: \<^verbatim>\<open>byteRead\<close> walks over the buffer; a buffer shorter than a segment is \<open>None\<close>.\<close>

fun read_flags :: "byte list \<Rightarrow> (byte \<times> byte \<times> byte \<times> byte \<times> byte list) option" where
  "read_flags (a # b # c # d # bs) = Some (a, b, c, d, bs)"
| "read_flags _ = None"

definition decode_segment :: "byte list \<Rightarrow> segment option" where
  "decode_segment buf =
     (case be32_read buf of None \<Rightarrow> None | Some (sq, b1) \<Rightarrow>
     (case be32_read b1 of None \<Rightarrow> None | Some (ak, b2) \<Rightarrow>
     (case read_flags b2 of None \<Rightarrow> None | Some (eof, probe, complete, resent, b3) \<Rightarrow>
     (case be32_read b3 of None \<Rightarrow> None | Some (rw, b4) \<Rightarrow>
     (case be32_read b4 of None \<Rightarrow> None | Some (ts, b5) \<Rightarrow>
     (case b5 of [] \<Rightarrow> None | lst # b6 \<Rightarrow>
        if length b6 < UDP_PAYLOAD_SIZE then None
        else Some \<lparr>sequence_num = sq, ack_num = ak, is_eof = eof, is_probe = probe,
               is_complete = complete, is_resent = resent, rwnd = rw, timestamp = ts,
               is_last_in_iter = lst, payload = take UDP_PAYLOAD_SIZE b6\<rparr>))))))"

text \<open>
  The acknowledgement of the TIME_WAIT state: the same conversion, but the line that copies
  \<^verbatim>\<open>is_last_in_iter\<close> is missing, so 511 bytes are written and the last byte of \<^verbatim>\<open>segBuf\<close> stays
  whatever it was (\<open>junk\<close>).
\<close>

definition encode_time_wait :: "segment \<Rightarrow> byte \<Rightarrow> byte list" where
  "encode_time_wait s junk =
     be32_bytes (sequence_num s) @ be32_bytes (ack_num s) @
     [is_eof s, is_probe s, is_complete s, is_resent s] @
     be32_bytes (rwnd s) @ be32_bytes (timestamp s) @
     take UDP_PAYLOAD_SIZE (payload s) @ [junk]"

section \<open>Facts\<close>

lemma flag_set_simps [simp]: "\<not> flag_set 0" "flag_set 1"
  by (simp_all add: flag_set_def)

lemma read_flags_append [wire_simps]: "read_flags ([a, b, c, d] @ bs) = Some (a, b, c, d, bs)"
  by simp

lemma decode_encode: "wf_segment s \<Longrightarrow> decode_segment (encode_segment s) = Some s"
  by (simp add: decode_segment_def encode_segment_def wf_segment_def wire_simps)

lemma encode_length: "wf_segment s \<Longrightarrow> length (encode_segment s) = UDP_SEGMENT_SIZE"
  by (simp add: encode_segment_def wf_segment_def udp_sizes)

lemma decode_wf: "decode_segment bs = Some s \<Longrightarrow> wf_segment s"
  by (auto simp: decode_segment_def wf_segment_def be32_read_int32
      split: option.splits prod.splits list.splits if_splits)

interpretation seg: wire_codec encode_segment decode_segment wf_segment UDP_SEGMENT_SIZE
  by unfold_locales (auto simp: decode_encode encode_length decode_wf)

lemma zero_segment_wf [simp]: "wf_segment zero_segment"
  by (simp add: wf_segment_def zero_segment_def int32_def)

lemma read_flags_Some: "4 \<le> length bs \<Longrightarrow> \<exists>a b c d bs'. read_flags bs = Some (a, b, c, d, bs')
    \<and> length bs = length bs' + 4"
  by (cases bs rule: read_flags.cases) auto

lemma decode_total: "UDP_SEGMENT_SIZE \<le> length bs \<Longrightarrow> \<exists>s. decode_segment bs = Some s"
proof -
  assume len: "UDP_SEGMENT_SIZE \<le> length bs"
  obtain sq b1 where 1: "be32_read bs = Some (sq, b1)" and l1: "length bs = length b1 + 4"
    using len be32_read_Some [of bs] be32_read_length by (fastforce simp: udp_sizes)
  obtain ak b2 where 2: "be32_read b1 = Some (ak, b2)" and l2: "length b1 = length b2 + 4"
    using len l1 be32_read_Some [of b1] be32_read_length by (fastforce simp: udp_sizes)
  obtain a b c d b3 where 3: "read_flags b2 = Some (a, b, c, d, b3)" and l3: "length b2 = length b3 + 4"
    using len l1 l2 read_flags_Some [of b2] by (fastforce simp: udp_sizes)
  obtain rw b4 where 4: "be32_read b3 = Some (rw, b4)" and l4: "length b3 = length b4 + 4"
    using len l1 l2 l3 be32_read_Some [of b3] be32_read_length by (fastforce simp: udp_sizes)
  obtain ts b5 where 5: "be32_read b4 = Some (ts, b5)" and l5: "length b4 = length b5 + 4"
    using len l1 l2 l3 l4 be32_read_Some [of b4] be32_read_length by (fastforce simp: udp_sizes)
  have "length b5 \<ge> 492" using len l1 l2 l3 l4 l5 by (simp add: udp_sizes)
  then obtain lst b6 where "b5 = lst # b6" and "UDP_PAYLOAD_SIZE \<le> length b6"
    by (cases b5) (auto simp: udp_sizes)
  then show ?thesis using 1 2 3 4 5 by (simp add: decode_segment_def)
qed

lemma decode_time_wait:
  assumes "wf_segment s" and "payload s = p # ps"
  shows "decode_segment (encode_time_wait s junk) =
    Some (s\<lparr>is_last_in_iter := p, payload := ps @ [junk]\<rparr>)"
proof -
  have "length ps = 490" using assms by (simp add: wf_segment_def udp_sizes)
  then show ?thesis using assms
    by (simp add: decode_segment_def encode_time_wait_def wf_segment_def wire_simps udp_sizes)
qed

section \<open>Properties\<close>

text \<open>
  C20 (round trip).  Whatever one side writes into the 512-byte buffer the other side reads back:
  the reader inverts the writer on every segment whose integer fields fit an \<^verbatim>\<open>int\<close> and whose
  payload fills the array, and every 512-byte datagram at all is read as a well-formed segment.
\<close>

theorem segment_roundtrip:
  "(wf_segment s \<longrightarrow> decode_segment (encode_segment s) = Some s
      \<and> length (encode_segment s) = UDP_SEGMENT_SIZE)
   \<and> (length bs = UDP_SEGMENT_SIZE \<longrightarrow> (\<exists>s'. decode_segment bs = Some s' \<and> wf_segment s'))"
  using seg.dec_enc seg.enc_length decode_total [of bs] seg.dec_wf by auto

theorem segment_roundtrip_witness:
  "wf_segment (zero_segment\<lparr>sequence_num := -1, rwnd := 5\<rparr>)
   \<and> decode_segment (encode_segment (zero_segment\<lparr>sequence_num := -1, rwnd := 5\<rparr>))
       = Some (zero_segment\<lparr>sequence_num := -1, rwnd := 5\<rparr>)
   \<and> (\<exists>s'. decode_segment (replicate UDP_SEGMENT_SIZE 255) = Some s' \<and> wf_segment s')"
proof -
  have "wf_segment (zero_segment\<lparr>sequence_num := -1, rwnd := 5\<rparr>)"
    by (simp add: wf_segment_def zero_segment_def int32_def)
  then show ?thesis
    using segment_roundtrip [of "zero_segment\<lparr>sequence_num := -1, rwnd := 5\<rparr>"
        "replicate UDP_SEGMENT_SIZE 255"] by simp
qed

text \<open>
  Divergence of the two encoders.  The TIME_WAIT encoder is one byte short: the server reads
  every header field up to the timestamp back, but takes the first payload byte for
  \<^verbatim>\<open>is_last_in_iter\<close> and shifts the payload by one byte, ending in an uninitialised one.
\<close>

theorem time_wait_decode:
  assumes "wf_segment s" and "payload s = p # ps"
  shows "decode_segment (encode_time_wait s junk) =
    Some (s\<lparr>is_last_in_iter := p, payload := ps @ [junk]\<rparr>)"
  using assms by (rule decode_time_wait)

theorem time_wait_decode_witness:
  "decode_segment (encode_time_wait (zero_segment\<lparr>is_complete := 1\<rparr>) 7) =
     Some (zero_segment\<lparr>is_complete := 1, is_last_in_iter := 0, payload := replicate 490 0 @ [7]\<rparr>)"
proof -
  have p: "payload (zero_segment\<lparr>is_complete := 1\<rparr>) = 0 # replicate 490 0"
    by (simp add: zero_segment_def udp_sizes numeral_eq_Suc)
  have w: "wf_segment (zero_segment\<lparr>is_complete := 1\<rparr>)"
    by (simp add: wf_segment_def zero_segment_def int32_def)
  show ?thesis using time_wait_decode [OF w p, of 7] by simp
qed

end
