(* ===== verification/Congestion.thy ===== *)
theory Congestion
  imports Prelude
begin

text \<open>
  Congestion control of the file server (\<^verbatim>\<open>udpserv.c\<close>): the six variables the code passes to
  \<^verbatim>\<open>get_cwnd\<close>, that function, the reset in the branch "timer went off", the abstract window
  machine the README describes (slow start, congestion avoidance, fast retransmit) as a step
  relation, and the proof that the code implements it.
\<close>

section \<open>The code\<close>

record cong =
  congestion_state :: int
  cwnd :: int
  ssthresh :: int
  prev_ack_seg_num :: int
  num_dup_count :: int

definition cong_init :: cong where
  "cong_init = \<lparr>congestion_state = 1, cwnd = 1, ssthresh = 8, prev_ack_seg_num = 0,
     num_dup_count = 0\<rparr>"

text \<open>
  The lines both of the first two states end with: on the third duplicate the threshold becomes
  half the window, at least 1, and the window the threshold.  Windows are positive, so C's
  truncating division is \<open>div\<close>.
\<close>

definition third_duplicate :: "cong \<Rightarrow> cong" where
  "third_duplicate c =
     (if num_dup_count c = 3
      then let t = cwnd c div 2; t' = (if t = 0 then t + 1 else t);
               w' = (if t' = 0 then t' + 1 else t')
           in c\<lparr>congestion_state := 3, ssthresh := t', cwnd := w'\<rparr>
      else c)"

definition get_cwnd :: "cong \<Rightarrow> int \<Rightarrow> cong" where
  "get_cwnd c arrive_ack_seg =
     (if congestion_state c = 1 then
        third_duplicate
          (if prev_ack_seg_num c = arrive_ack_seg then c\<lparr>num_dup_count := num_dup_count c + 1\<rparr>
           else let c' = c\<lparr>cwnd := cwnd c * 2, num_dup_count := 0\<rparr>
                in if cwnd c' \<ge> ssthresh c' then c'\<lparr>cwnd := ssthresh c', congestion_state := 2\<rparr>
                   else c')
      else if congestion_state c = 2 then
        third_duplicate
          (if prev_ack_seg_num c = arrive_ack_seg then c\<lparr>num_dup_count := num_dup_count c + 1\<rparr>
           else c\<lparr>cwnd := cwnd c + 1, num_dup_count := 0\<rparr>)
      else if congestion_state c = 3 then
        (if prev_ack_seg_num c = arrive_ack_seg then c\<lparr>cwnd := cwnd c + 1\<rparr>
         else c\<lparr>congestion_state := 2, cwnd := ssthresh c, num_dup_count := 0\<rparr>)
      else c)"

text \<open>The assignments of the branch \<^verbatim>\<open>if (nready == 0)\<close>.\<close>

definition cong_timeout :: "cong \<Rightarrow> cong" where
  "cong_timeout c =
     (let t = cwnd c div 2; t' = (if t \<le> 0 then 1 else t)
      in c\<lparr>ssthresh := t', cwnd := 1, num_dup_count := 0, congestion_state := 1\<rparr>)"

text \<open>
  The request handler calls \<^verbatim>\<open>get_cwnd\<close> and then records the acknowledged number
  (\<^verbatim>\<open>prev_ack_seg_num = request_seg.ack_num\<close>).
\<close>

definition cong_ack :: "cong \<Rightarrow> int \<Rightarrow> cong" where
  "cong_ack c a = (get_cwnd c a)\<lparr>prev_ack_seg_num := a\<rparr>"

datatype cong_event = Acked int | TimedOut

fun cong_step :: "cong \<Rightarrow> cong_event \<Rightarrow> cong" where
  "cong_step c (Acked a) = cong_ack c a"
| "cong_step c TimedOut = cong_timeout c"

definition cong_run :: "cong \<Rightarrow> cong_event list \<Rightarrow> cong" where
  "cong_run = foldl cong_step"

section \<open>The window machine\<close>

datatype reno = SlowStart nat nat nat | CongAvoid nat nat nat | FastRetransmit nat nat

datatype reno_event = NewAck | DupAck | Timeout

inductive reno_step :: "reno \<Rightarrow> reno_event \<Rightarrow> reno \<Rightarrow> bool" where
  ss_grow: "2 * w < t \<Longrightarrow> reno_step (SlowStart w t d) NewAck (SlowStart (2 * w) t 0)"
| ss_end: "t \<le> 2 * w \<Longrightarrow> reno_step (SlowStart w t d) NewAck (CongAvoid t t 0)"
| ss_dup: "d < 2 \<Longrightarrow> reno_step (SlowStart w t d) DupAck (SlowStart w t (Suc d))"
| ss_third: "h = max 1 (w div 2) \<Longrightarrow> reno_step (SlowStart w t 2) DupAck (FastRetransmit h h)"
| ca_grow: "reno_step (CongAvoid w t d) NewAck (CongAvoid (Suc w) t 0)"
| ca_dup: "d < 2 \<Longrightarrow> reno_step (CongAvoid w t d) DupAck (CongAvoid w t (Suc d))"
| ca_third: "h = max 1 (w div 2) \<Longrightarrow> reno_step (CongAvoid w t 2) DupAck (FastRetransmit h h)"
| fr_inflate: "reno_step (FastRetransmit w t) DupAck (FastRetransmit (Suc w) t)"
| fr_exit: "reno_step (FastRetransmit w t) NewAck (CongAvoid t t 0)"
| ss_timeout: "reno_step (SlowStart w t d) Timeout (SlowStart 1 (max 1 (w div 2)) 0)"
| ca_timeout: "reno_step (CongAvoid w t d) Timeout (SlowStart 1 (max 1 (w div 2)) 0)"
| fr_timeout: "reno_step (FastRetransmit w t) Timeout (SlowStart 1 (max 1 (w div 2)) 0)"

inductive_cases reno_ssE: "reno_step (SlowStart w t d) e r"
inductive_cases reno_caE: "reno_step (CongAvoid w t d) e r"
inductive_cases reno_frE: "reno_step (FastRetransmit w t) e r"

definition reno_of :: "cong \<Rightarrow> reno" where
  "reno_of c =
     (if congestion_state c = 1 then SlowStart (nat (cwnd c)) (nat (ssthresh c)) (nat (num_dup_count c))
      else if congestion_state c = 2 then CongAvoid (nat (cwnd c)) (nat (ssthresh c)) (nat (num_dup_count c))
      else FastRetransmit (nat (cwnd c)) (nat (ssthresh c)))"

fun reno_event_of :: "cong \<Rightarrow> cong_event \<Rightarrow> reno_event" where
  "reno_event_of c (Acked a) = (if prev_ack_seg_num c = a then DupAck else NewAck)"
| "reno_event_of c TimedOut = Timeout"

section \<open>Invariant\<close>

definition cong_inv :: "cong \<Rightarrow> bool" where
  "cong_inv c \<longleftrightarrow> congestion_state c \<in> {1, 2, 3} \<and> 1 \<le> cwnd c \<and> 1 \<le> ssthresh c
     \<and> 0 \<le> num_dup_count c \<and> num_dup_count c \<le> 3
     \<and> (congestion_state c \<noteq> 3 \<longrightarrow> num_dup_count c < 3)
     \<and> (congestion_state c = 1 \<longrightarrow> cwnd c \<le> ssthresh c)
     \<and> (congestion_state c = 3 \<longrightarrow> ssthresh c \<le> cwnd c)"

lemmas cong_defs = cong_ack_def get_cwnd_def cong_timeout_def third_duplicate_def Let_def

lemma cong_inv_init [simp]: "cong_inv cong_init"
  by (simp add: cong_inv_def cong_init_def)

lemma cong_ack_inv: "cong_inv c \<Longrightarrow> cong_inv (cong_ack c a)"
  by (auto simp: cong_inv_def cong_defs)

lemma cong_timeout_inv: "cong_inv c \<Longrightarrow> cong_inv (cong_timeout c)"
  by (auto simp: cong_inv_def cong_defs)

lemma cong_step_inv: "cong_inv c \<Longrightarrow> cong_inv (cong_step c e)"
  by (cases e) (simp_all add: cong_ack_inv cong_timeout_inv)

lemma cong_run_inv: "cong_inv c \<Longrightarrow> cong_inv (cong_run c es)"
  by (induction es arbitrary: c) (auto simp: cong_run_def cong_step_inv)

lemma cong_inv_pos: "cong_inv c \<Longrightarrow> 1 \<le> cwnd c \<and> 1 \<le> ssthresh c \<and> 0 \<le> num_dup_count c"
  by (simp add: cong_inv_def)

lemma cong_nat_succ: "cong_inv c \<Longrightarrow> nat (cwnd c + 1) = Suc (nat (cwnd c))"
  using cong_inv_pos [of c] by arith

lemma reno_deterministic: "reno_step r e r1 \<Longrightarrow> reno_step r e r2 \<Longrightarrow> r1 = r2"
  by (cases r) (auto elim!: reno_ssE reno_caE reno_frE)

lemma nat_half: "1 \<le> w \<Longrightarrow> nat (if w div 2 = 0 then 1 else w div 2) = max 1 (nat w div 2)" for w :: int
  by (auto simp: nat_div_distrib max_def)

lemma reno_timeout: "cong_inv c \<Longrightarrow> reno_step (reno_of c) Timeout (reno_of (cong_timeout c))"
proof -
  assume inv: "cong_inv c"
  have "nat (if cwnd c div 2 \<le> 0 then 1 else cwnd c div 2) = max 1 (nat (cwnd c) div 2)"
    using inv by (auto simp: cong_inv_def nat_div_distrib max_def)
  then have eq: "reno_of (cong_timeout c) = SlowStart 1 (max 1 (nat (cwnd c) div 2)) 0"
    by (simp add: reno_of_def cong_timeout_def Let_def)
  have "reno_step (reno_of c) Timeout (SlowStart 1 (max 1 (nat (cwnd c) div 2)) 0)"
    by (simp add: reno_of_def ss_timeout ca_timeout fr_timeout del: One_nat_def)
  then show ?thesis by (simp only: eq)
qed

lemma reno_new_ack:
  assumes "cong_inv c" and "prev_ack_seg_num c \<noteq> a"
  shows "reno_step (reno_of c) NewAck (reno_of (cong_ack c a))"
proof -
  consider "congestion_state c = 1" "cwnd c * 2 < ssthresh c"
    | "congestion_state c = 1" "ssthresh c \<le> cwnd c * 2"
    | "congestion_state c = 2" | "congestion_state c = 3"
    using assms by (fastforce simp: cong_inv_def)
  then show ?thesis
  proof cases
    case 1
    have "nat (cwnd c * 2) = 2 * nat (cwnd c)" by (simp add: nat_mult_distrib)
    moreover have "2 * nat (cwnd c) < nat (ssthresh c)" using 1 cong_inv_pos [OF assms(1)] by linarith
    ultimately show ?thesis using 1 assms
      by (simp add: cong_defs reno_of_def ss_grow)
  next
    case 2
    have "nat (ssthresh c) \<le> 2 * nat (cwnd c)" using 2 cong_inv_pos [OF assms(1)] by linarith
    with 2 assms show ?thesis by (simp add: cong_defs reno_of_def ss_end)
  next
    case 3
    with assms show ?thesis by (simp add: cong_defs reno_of_def cong_nat_succ ca_grow)
  next
    case 4
    with assms show ?thesis by (simp add: cong_defs reno_of_def fr_exit)
  qed
qed

lemma third_duplicate_reno:
  assumes "1 \<le> cwnd c" and "num_dup_count c = 3"
  shows "reno_of ((third_duplicate c)\<lparr>prev_ack_seg_num := a\<rparr>)
    = FastRetransmit (max 1 (nat (cwnd c) div 2)) (max 1 (nat (cwnd c) div 2))"
proof -
  let ?t = "if cwnd c div 2 = 0 then 1 else cwnd c div 2"
  have "third_duplicate c = c\<lparr>congestion_state := 3, ssthresh := ?t, cwnd := ?t\<rparr>"
    using assms by (simp add: third_duplicate_def Let_def)
  then show ?thesis using nat_half [OF assms(1)] by (simp add: reno_of_def split del: if_split)
qed

lemma reno_dup_ack:
  assumes "cong_inv c" and "prev_ack_seg_num c = a"
  shows "reno_step (reno_of c) DupAck (reno_of (cong_ack c a))"
proof -
  let ?c = "c\<lparr>num_dup_count := num_dup_count c + 1\<rparr>"
  consider "congestion_state c = 3" | "congestion_state c \<noteq> 3" "num_dup_count c = 2"
    | "congestion_state c \<noteq> 3" "num_dup_count c < 2"
    using assms by (fastforce simp: cong_inv_def)
  then show ?thesis
  proof cases
    case 1
    with assms show ?thesis by (simp add: cong_defs reno_of_def cong_nat_succ fr_inflate)
  next
    case 2
    then have s: "congestion_state c = 1 \<or> congestion_state c = 2"
      using assms by (auto simp: cong_inv_def)
    have "cong_ack c a = (third_duplicate ?c)\<lparr>prev_ack_seg_num := a\<rparr>"
      using s assms by (auto simp: cong_ack_def get_cwnd_def)
    moreover have "1 \<le> cwnd ?c" "num_dup_count ?c = 3" using 2 assms by (auto simp: cong_inv_def)
    ultimately have "reno_of (cong_ack c a)
      = FastRetransmit (max 1 (nat (cwnd c) div 2)) (max 1 (nat (cwnd c) div 2))"
      using third_duplicate_reno [of ?c a] by simp
    then show ?thesis using s 2 by (auto simp: reno_of_def ss_third ca_third)
  next
    case 3
    then have s: "congestion_state c = 1 \<or> congestion_state c = 2" and d: "0 \<le> num_dup_count c"
      using assms by (auto simp: cong_inv_def)
    have "nat (num_dup_count c + 1) = Suc (nat (num_dup_count c))" "nat (num_dup_count c) < 2"
      using 3 d by auto
    then show ?thesis using s 3 assms by (auto simp: cong_defs reno_of_def ss_dup ca_dup)
  qed
qed

section \<open>Properties\<close>

text \<open>
  C4 (refinement).  From any state the invariant admits, and the initial one is admitted, every
  acknowledgement and every timeout moves the code's variables exactly as the window machine of the
  README moves: slow start doubles up to the threshold, congestion avoidance adds one, the third
  duplicate halves, a timeout restarts slow start; the invariant is kept, and the machine allows no
  other step.
\<close>

theorem cong_refines_reno:
  assumes "cong_inv c"
  shows "cong_inv (cong_step c e)
    \<and> reno_step (reno_of c) (reno_event_of c e) r = (r = reno_of (cong_step c e))"
proof -
  have "reno_step (reno_of c) (reno_event_of c e) (reno_of (cong_step c e))"
    using assms by (cases e) (simp_all add: reno_new_ack reno_dup_ack reno_timeout)
  then show ?thesis
    using cong_step_inv [OF assms] reno_deterministic by blast
qed

theorem cong_refines_reno_witness:
  "cong_inv cong_init \<and> reno_of cong_init = SlowStart 1 8 0
   \<and> cong_inv (cong_step cong_init (Acked 1))
   \<and> reno_step (SlowStart 1 8 0) NewAck (reno_of (cong_step cong_init (Acked 1)))"
proof -
  have r: "reno_of cong_init = SlowStart 1 8 0" by (simp add: reno_of_def cong_init_def)
  have e: "reno_event_of cong_init (Acked 1) = NewAck" by (simp add: cong_init_def)
  show ?thesis
    using cong_refines_reno [of cong_init "Acked 1" "reno_of (cong_step cong_init (Acked 1))"] r e by simp
qed

lemma cong_ack_slow:
  assumes "cong_inv c" "congestion_state c = 1" "prev_ack_seg_num c \<noteq> a" "2 * cwnd c < ssthresh c"
  shows "cong_ack c a = c\<lparr>cwnd := 2 * cwnd c, num_dup_count := 0, prev_ack_seg_num := a\<rparr>"
  using assms by (simp add: cong_defs mult.commute)

lemma slow_start_run:
  assumes "cong_inv c" "congestion_state c = 1"
    and "distinct (prev_ack_seg_num c # as)" "2 ^ length as * cwnd c < ssthresh c"
  shows "cwnd (cong_run c (map Acked as)) = 2 ^ length as * cwnd c
    \<and> congestion_state (cong_run c (map Acked as)) = 1"
  using assms
proof (induction as arbitrary: c)
  case Nil
  then show ?case by (simp add: cong_run_def)
next
  case (Cons a as)
  let ?d = "cong_ack c a"
  have le: "2 * cwnd c \<le> 2 ^ length (a # as) * cwnd c"
    using Cons.prems(1) by (simp add: cong_inv_def)
  then have d: "?d = c\<lparr>cwnd := 2 * cwnd c, num_dup_count := 0, prev_ack_seg_num := a\<rparr>"
    using Cons.prems by (intro cong_ack_slow) auto
  have "cwnd (cong_run ?d (map Acked as)) = 2 ^ length as * cwnd ?d
    \<and> congestion_state (cong_run ?d (map Acked as)) = 1"
    using Cons.prems cong_ack_inv [OF Cons.prems(1), of a]
    by (intro Cons.IH) (auto simp: d)
  then show ?case by (simp add: cong_run_def d)
qed

text \<open>
  Slow start is exponential.  After a timeout, \<open>n\<close> acknowledgements, each different from
  the one before it and all different, put the window at \<open>2 ^ n\<close> and keep the code in slow start, as
  long as that stays below the halved threshold.
\<close>

theorem slow_start_doubles:
  assumes "cong_inv c" and "distinct (prev_ack_seg_num c # as)"
    and "2 ^ length as < max 1 (cwnd c div 2)"
  shows "cwnd (cong_run c (TimedOut # map Acked as)) = 2 ^ length as
    \<and> congestion_state (cong_run c (TimedOut # map Acked as)) = 1"
proof -
  have t: "cwnd (cong_timeout c) = 1" "congestion_state (cong_timeout c) = 1"
    "prev_ack_seg_num (cong_timeout c) = prev_ack_seg_num c"
    "ssthresh (cong_timeout c) = max 1 (cwnd c div 2)"
    using assms(1) by (auto simp: cong_defs cong_inv_def)
  show ?thesis
    using slow_start_run [OF cong_timeout_inv [OF assms(1)], of as] assms(2,3)
    by (simp add: t cong_run_def)
qed

theorem slow_start_doubles_witness:
  "cwnd (cong_run (cong_init\<lparr>congestion_state := 2, cwnd := 20\<rparr>) (TimedOut # map Acked [4, 5, 7])) = 8"
  using slow_start_doubles [of "cong_init\<lparr>congestion_state := 2, cwnd := 20\<rparr>" "[4, 5, 7]"]
  by (simp add: cong_inv_def cong_init_def)

end
