(* ===== verification/Rtt_Timer.thy ===== *)
theory Rtt_Timer
  imports Prelude
begin

text \<open>
  The retransmission timer of the file server (\<^verbatim>\<open>udpserv.c\<close>): the integer estimator in the style
  of Jacobson and Karels, Karn's rule (a retransmission gives no sample), the exponential back-off
  \<^verbatim>\<open>RTO * pow(2, conse_packet_drop)\<close> with its conversion to \<^verbatim>\<open>int\<close>, and the microsecond clock cut
  down to 32 bits.
\<close>

section \<open>The code\<close>

definition RTT_MAXNREXMT :: int where "RTT_MAXNREXMT = 12"
definition RTTMIN :: int where "RTTMIN = 1000"
definition RTTMAX :: int where "RTTMAX = 3000"

lemmas rtt_consts = RTT_MAXNREXMT_def RTTMIN_def RTTMAX_def

record rtt =
  measuredRTT :: int
  srtt :: int
  rttvar :: int
  RTO :: int
  last_packet_drop :: int
  conse_packet_drop :: int
  update_rtt :: int

text \<open>\<^verbatim>\<open>RTO\<close> has no initialiser; \<open>garbage\<close> is what the variable holds.\<close>

definition rtt_init :: "int \<Rightarrow> rtt" where
  "rtt_init garbage = \<lparr>measuredRTT = 0, srtt = 1500000, rttvar = 1500000, RTO = garbage,
     last_packet_drop = 0, conse_packet_drop = 0, update_rtt = 1\<rparr>"

definition clamp_rto :: "int \<Rightarrow> int" where
  "clamp_rto x = (if x < RTTMIN * 1000 then RTTMIN * 1000
     else if x > RTTMAX * 1000 then RTTMAX * 1000 else x)"

definition rtt_estimate :: "rtt \<Rightarrow> rtt" where
  "rtt_estimate r =
     (let m1 = measuredRTT r - drop_bit 3 (srtt r);
          s = srtt r + m1;
          m2 = (if m1 < 0 then - m1 else m1);
          m3 = m2 - drop_bit 2 (rttvar r);
          v = rttvar r + m3
      in r\<lparr>measuredRTT := m3, srtt := s, rttvar := v, RTO := clamp_rto (drop_bit 3 s + v)\<rparr>)"

text \<open>The head of the sender's loop.\<close>

definition rtt_begin :: "rtt \<Rightarrow> rtt" where
  "rtt_begin r =
     (if last_packet_drop r = 0
      then (if update_rtt r = 1 then rtt_estimate r else r\<lparr>update_rtt := 1\<rparr>)
      else r)"

text \<open>
  \<^verbatim>\<open>int trans_time = (RTO * pow(2, conse_packet_drop))\<close>: the product is computed in floating point,
  exactly for these magnitudes, and converted to \<^verbatim>\<open>int\<close>; a product out of the range of \<^verbatim>\<open>int\<close> is
  undefined behaviour, here \<open>None\<close>.  The cap at three seconds comes after the conversion.
\<close>

definition trans_time :: "int \<Rightarrow> nat \<Rightarrow> int option" where
  "trans_time rto n =
     (let p = rto * 2 ^ n
      in if int32 p then Some (if p > RTTMAX * 1000 then RTTMAX * 1000 else p) else None)"

definition tv_of :: "int \<Rightarrow> int \<times> int" where
  "tv_of t = (t div 1000000, t mod 1000000)"

text \<open>The timer bookkeeping of the two outcomes of \<^verbatim>\<open>select\<close>.\<close>

definition rtt_timeout :: "rtt \<Rightarrow> rtt" where
  "rtt_timeout r = r\<lparr>last_packet_drop := 1, update_rtt := 0, conse_packet_drop := conse_packet_drop r + 1\<rparr>"

definition clock_us :: "int \<Rightarrow> int \<Rightarrow> int" where
  "clock_us sec usec = to_int32 (sec * 1000000 + usec)"

text \<open>The difference of two \<^verbatim>\<open>int\<close>s wraps around, as the compiled subtraction does.\<close>

definition rtt_reply :: "rtt \<Rightarrow> int \<Rightarrow> int \<Rightarrow> rtt" where
  "rtt_reply r time_back last_out_time =
     r\<lparr>last_packet_drop := 0, conse_packet_drop := 0, measuredRTT := to_int32 (time_back - last_out_time)\<rparr>"

section \<open>Facts\<close>

lemmas rtt_defs = rtt_begin_def rtt_estimate_def Let_def

lemma clamp_rto_range: "1000000 \<le> clamp_rto x \<and> clamp_rto x \<le> 3000000"
  by (simp add: clamp_rto_def rtt_consts)

lemma trans_time_Some: "trans_time rto n = Some t \<longleftrightarrow> int32 (rto * 2 ^ n) \<and> t = min (rto * 2 ^ n) 3000000"
  by (auto simp: trans_time_def Let_def rtt_consts min_def)

lemma to_int32_diff: "to_int32 (to_int32 x - to_int32 y) = to_int32 (x - y)"
  by (simp add: to_int32_eq signed_take_bit_diff)

definition rtt_bounded :: "int \<Rightarrow> rtt \<Rightarrow> bool" where
  "rtt_bounded M r \<longleftrightarrow> 0 \<le> srtt r \<and> srtt r \<le> 8 * M \<and> 0 \<le> rttvar r \<and> rttvar r \<le> 4 * M"

lemma scaled_mean:
  fixes s m M :: int
  assumes "0 \<le> s" "s \<le> 8 * M" "0 \<le> m" "m \<le> M"
  shows "0 \<le> s + (m - s div 8) \<and> s + (m - s div 8) \<le> 8 * M \<and> \<bar>m - s div 8\<bar> \<le> M"
proof -
  obtain q where q: "s div 8 = q" "8 * q \<le> s" "s \<le> 8 * q + 7" by simp
  then have "0 \<le> q" "q \<le> M" using assms by linarith+
  moreover have "s - q \<le> 7 * M"
    using q assms \<open>q \<le> M\<close> by (cases "q = M") linarith+
  ultimately show ?thesis using q assms by (simp add: abs_if; linarith?)
qed

lemma scaled_deviation:
  fixes v e M :: int
  assumes "0 \<le> v" "v \<le> 4 * M" "0 \<le> e" "e \<le> M"
  shows "0 \<le> v + (e - v div 4) \<and> v + (e - v div 4) \<le> 4 * M \<and> - M \<le> e - v div 4 \<and> e - v div 4 \<le> M"
proof -
  obtain q where q: "v div 4 = q" "4 * q \<le> v" "v \<le> 4 * q + 3" by simp
  then have "0 \<le> q" "q \<le> M" using assms by linarith+
  moreover have "v - q \<le> 3 * M"
    using q assms \<open>q \<le> M\<close> by (cases "q = M") linarith+
  ultimately show ?thesis using q assms by simp
qed

lemma rtt_estimate_fields:
  "srtt (rtt_estimate r) = srtt r + (measuredRTT r - srtt r div 8)"
  "measuredRTT (rtt_estimate r) = \<bar>measuredRTT r - srtt r div 8\<bar> - rttvar r div 4"
  "rttvar (rtt_estimate r) = rttvar r + (\<bar>measuredRTT r - srtt r div 8\<bar> - rttvar r div 4)"
  "RTO (rtt_estimate r) = clamp_rto (drop_bit 3 (srtt (rtt_estimate r)) + rttvar (rtt_estimate r))"
  by (simp_all add: rtt_estimate_def Let_def drop_bit_int_def abs_if)

lemma rtt_estimate_bounded:
  assumes "rtt_bounded M r" and "0 \<le> measuredRTT r" and "measuredRTT r \<le> M"
  shows "rtt_bounded M (rtt_estimate r)
    \<and> - M \<le> measuredRTT (rtt_estimate r) \<and> measuredRTT (rtt_estimate r) \<le> M"
proof -
  have s: "0 \<le> srtt r + (measuredRTT r - srtt r div 8) \<and> srtt r + (measuredRTT r - srtt r div 8) \<le> 8 * M
    \<and> \<bar>measuredRTT r - srtt r div 8\<bar> \<le> M"
    using assms by (intro scaled_mean) (auto simp: rtt_bounded_def)
  then show ?thesis
    using assms scaled_deviation [of "rttvar r" M "\<bar>measuredRTT r - srtt r div 8\<bar>"]
    by (simp add: rtt_bounded_def rtt_estimate_fields)
qed

section \<open>Properties\<close>

text \<open>
  C30 (bounds).  Whatever the round trips, \<^verbatim>\<open>RTO\<close> is between one and three seconds as soon as the
  estimator has run; a sample between 0 and \<open>M\<close> keeps the scaled mean within \<open>8 M\<close> and the scaled
  deviation within \<open>4 M\<close>, so with \<open>M\<close> at most two minutes no variable of the estimator leaves \<^verbatim>\<open>int\<close>.
\<close>

theorem rtt_estimate_safe:
  assumes "rtt_bounded M r" and "0 \<le> measuredRTT r" and "measuredRTT r \<le> M" and "M \<le> 120000000"
  shows "1000000 \<le> RTO (rtt_estimate r) \<and> RTO (rtt_estimate r) \<le> 3000000
    \<and> rtt_bounded M (rtt_estimate r)
    \<and> int32 (srtt (rtt_estimate r)) \<and> int32 (rttvar (rtt_estimate r))
    \<and> int32 (measuredRTT (rtt_estimate r))
    \<and> int32 (drop_bit 3 (srtt (rtt_estimate r)) + rttvar (rtt_estimate r))"
proof -
  have b: "rtt_bounded M (rtt_estimate r)
    \<and> - M \<le> measuredRTT (rtt_estimate r) \<and> measuredRTT (rtt_estimate r) \<le> M"
    using rtt_estimate_bounded assms by blast
  obtain q where q: "drop_bit 3 (srtt (rtt_estimate r)) = q" by simp
  then have "0 \<le> q \<and> q \<le> M"
    using b by (auto simp: rtt_bounded_def drop_bit_int_def)
  then show ?thesis using b assms(4) clamp_rto_range
    by (simp add: int32_def rtt_bounded_def rtt_estimate_fields(4) q)
qed

theorem rtt_estimate_safe_witness:
  "rtt_bounded 1500000 (rtt_init 0) \<and> RTO (rtt_estimate (rtt_init 0)) = 1476562
   \<and> 1000000 \<le> RTO (rtt_estimate (rtt_init 0)) \<and> RTO (rtt_estimate (rtt_init 0)) \<le> 3000000"
proof -
  have b: "rtt_bounded 1500000 (rtt_init 0)" by (simp add: rtt_bounded_def rtt_init_def)
  have v: "RTO (rtt_estimate (rtt_init 0)) = 1476562"
    by (simp add: rtt_estimate_def rtt_init_def Let_def drop_bit_int_def clamp_rto_def rtt_consts)
  show ?thesis using b v rtt_estimate_safe [OF b] by (simp add: rtt_init_def)
qed

text \<open>
  Karn's rule.  After any number \<open>k > 0\<close> of consecutive timeouts, the reply that ends them and
  the next pass of the loop leave the mean, the deviation and \<^verbatim>\<open>RTO\<close> as they were, whatever round
  trip time was measured; the pass after that uses its sample again.
\<close>

theorem karn_rule:
  assumes "last_packet_drop r = 0" and "update_rtt r = 1"
  shows "let r1 = ((\<lambda>x. rtt_begin (rtt_timeout x)) ^^ Suc k) r; r2 = rtt_begin (rtt_reply r1 t0 t1)
    in srtt r2 = srtt r \<and> rttvar r2 = rttvar r \<and> RTO r2 = RTO r
       \<and> conse_packet_drop r1 = conse_packet_drop r + int k + 1 \<and> conse_packet_drop r2 = 0
       \<and> rtt_begin (rtt_reply r2 u0 u1) = rtt_estimate (rtt_reply r2 u0 u1)"
proof -
  have r1: "((\<lambda>x. rtt_begin (rtt_timeout x)) ^^ Suc k) r =
    r\<lparr>last_packet_drop := 1, update_rtt := 0, conse_packet_drop := conse_packet_drop r + int k + 1\<rparr>" for k
    by (induction k) (auto simp: rtt_begin_def rtt_timeout_def)
  show ?thesis
    unfolding Let_def r1 by (simp add: rtt_begin_def rtt_reply_def)
qed

theorem karn_rule_witness:
  "let r1 = ((\<lambda>x. rtt_begin (rtt_timeout x)) ^^ Suc 2) (rtt_estimate (rtt_init 0));
       r2 = rtt_begin (rtt_reply r1 900000 100000)
   in RTO r2 = 1476562 \<and> conse_packet_drop r1 = 3"
proof -
  have i: "last_packet_drop (rtt_estimate (rtt_init 0)) = 0" "update_rtt (rtt_estimate (rtt_init 0)) = 1"
    by (simp_all add: rtt_estimate_def rtt_init_def Let_def)
  have v: "RTO (rtt_estimate (rtt_init 0)) = 1476562" "conse_packet_drop (rtt_estimate (rtt_init 0)) = 0"
    by (simp_all add: rtt_estimate_def rtt_init_def Let_def drop_bit_int_def clamp_rto_def rtt_consts)
  show ?thesis
    using karn_rule [OF i, of 2 900000 100000 0 0] by (simp add: Let_def v del: funpow.simps)
qed

text \<open>
  Wrap-around of the clock.  The microsecond clock does not fit an \<^verbatim>\<open>int\<close> and is cut down to 32
  bits at both readings; the measured round trip time is still the true one as long as it is below
  \<open>2 ^ 31\<close> microseconds (about 35 minutes).
\<close>

theorem measured_rtt_exact:
  assumes "int32 ((s1 * 1000000 + u1) - (s0 * 1000000 + u0))"
  shows "measuredRTT (rtt_reply r (clock_us s1 u1) (clock_us s0 u0))
    = (s1 * 1000000 + u1) - (s0 * 1000000 + u0)"
  using assms by (simp add: rtt_reply_def clock_us_def to_int32_diff to_int32_id)

theorem measured_rtt_exact_witness:
  "measuredRTT (rtt_reply (rtt_init 0) (clock_us 1446000001 250000) (clock_us 1446000000 0)) = 1250000"
  using measured_rtt_exact [of 1446000001 250000 1446000000 0 "rtt_init 0"] by (simp add: int32_def)

end
