(* ===== verification/Udp_Server.thy ===== *)
theory Udp_Server
  imports Segment Congestion Rtt_Timer
begin

text \<open>
  The sending side of the file transfer: the loop \<^verbatim>\<open>while (sent_complete == 0)\<close> of the child process in
  \<^verbatim>\<open>mydg_echo\<close> (\<^verbatim>\<open>udpserv.c\<close>).  One pass is \<open>srv_iter\<close>; its parts are the timer (theory
  \<open>Rtt_Timer\<close>), the branch "timer went off" (\<open>srv_timeout\<close>), and the request handler
  (\<open>srv_request\<close>) with the pruning of the sending window and the loop that cuts segments out of
  the file.  The linked list behind \<^verbatim>\<open>send_base\<close> is a list of segments; a read outside the file
  buffer, or an offset or segment number outside \<^verbatim>\<open>int\<close> on the way to it, makes the pass \<open>Undefined OutsideFile\<close>.  Each \<^verbatim>\<open>gettimeofday\<close> of a pass is one value of \<open>clk\<close>.
\<close>

section \<open>State\<close>

record server =
  send_base :: "segment list"
  num_seg_in_buf :: int
  last_seg_acked :: int
  last_out_time :: int
  srv_rtt :: rtt
  srv_cong :: cong

definition srv_init :: "int \<Rightarrow> int \<Rightarrow> server" where
  "srv_init garbage init_time = \<lparr>send_base = [], num_seg_in_buf = 0, last_seg_acked = 0,
     last_out_time = init_time, srv_rtt = rtt_init garbage, srv_cong = cong_init\<rparr>"

text \<open>What makes a pass undefined behaviour.\<close>

datatype srv_fault = WaitOverflow | OutsideFile | AckOverflow | ShortDatagram

datatype srv_result = Running server "segment list" | Completed server | Aborted | Undefined srv_fault

datatype srv_event = Interrupted | TimerOff int | RequestIn int "nat \<Rightarrow> int" "byte list"

section \<open>Cutting a segment out of the file\<close>

text \<open>
  \<^verbatim>\<open>for (j = 0; j < UDP_PAYLOAD_SIZE; j++)\<close>: the bytes copied from position \<^verbatim>\<open>copyByte\<close> on, and whether
  the end of the file was reached; \<open>None\<close> for a read outside \<^verbatim>\<open>dataToSend\<close> and for a \<^verbatim>\<open>copyByte++\<close>
  that leaves the range of \<^verbatim>\<open>int\<close>.
\<close>

fun copy_payload :: "nat \<Rightarrow> byte list \<Rightarrow> int \<Rightarrow> (byte list \<times> bool) option" where
  "copy_payload 0 file copyByte = Some ([], False)"
| "copy_payload (Suc j) file copyByte =
     (if 0 \<le> copyByte \<and> copyByte < int (length file) \<and> int32 (copyByte + 1)
      then (if copyByte + 1 = int (length file) then Some ([file ! nat copyByte], True)
            else map_option (\<lambda>(bs, e). (file ! nat copyByte # bs, e))
                   (copy_payload j file (copyByte + 1)))
      else None)"

definition pad_payload :: "byte list \<Rightarrow> byte list" where
  "pad_payload bs = bs @ replicate (UDP_PAYLOAD_SIZE - length bs) 0"

text \<open>
  The segment of one turn of the sending loop; \<open>n\<close> is \<^verbatim>\<open>++last_seg_acked\<close>, a missing file
  (\<^verbatim>\<open>file_exists == 0\<close>) is \<open>None\<close>.  There is no segment where \<open>n\<close> or the offset
  \<^verbatim>\<open>copyByte = (last_seg_acked - 1) * UDP_PAYLOAD_SIZE\<close> is not an \<^verbatim>\<open>int\<close>, and where the copying fails.
\<close>

definition build_segment :: "byte list option \<Rightarrow> int \<Rightarrow> int \<Rightarrow> int \<Rightarrow> int \<Rightarrow> segment option" where
  "build_segment file recv_rwnd seg_to_send now n =
     (let seg = zero_segment\<lparr>
            sequence_num := (if file = None then -1 else n),
            ack_num := (if file = None then -1 else 0),
            is_probe := (if recv_rwnd = 0 then 1 else 0),
            is_last_in_iter := (if seg_to_send = 0 then 1 else 0),
            timestamp := now\<rparr>
      in if \<not> int32 n then None else
         case file of
           None \<Rightarrow> Some seg
         | Some dat \<Rightarrow>
             if \<not> int32 ((n - 1) * int UDP_PAYLOAD_SIZE) then None else
             (case copy_payload UDP_PAYLOAD_SIZE dat ((n - 1) * int UDP_PAYLOAD_SIZE) of
                None \<Rightarrow> None
              | Some (bs, e) \<Rightarrow>
                  Some (seg\<lparr>payload := pad_payload bs, is_eof := (if e then 1 else 0)\<rparr>)))"

section \<open>The sending window\<close>

text \<open>Shift: drop the acknowledged segments at the front of the list.\<close>

fun prune_window :: "int \<Rightarrow> segment list \<Rightarrow> int \<Rightarrow> segment list \<times> int" where
  "prune_window acked [] num = ([], num)"
| "prune_window acked (x # xs) num =
     (if sequence_num x \<le> acked then prune_window acked xs (num - 1) else (x # xs, num))"

text \<open>Append the segment unless one with its number is already buffered.\<close>

definition buffer_segment :: "segment \<Rightarrow> segment list \<times> int \<Rightarrow> segment list \<times> int" where
  "buffer_segment seg wn =
     (if \<exists>x \<in> set (fst wn). sequence_num x = sequence_num seg then wn
      else (fst wn @ [seg], snd wn + 1))"

text \<open>
  \<^verbatim>\<open>while (seg_to_send >= 0)\<close>: the counter is the \<open>nat\<close> argument, \<open>k\<close> counts the turns for the clock.
\<close>

fun send_loop :: "byte list option \<Rightarrow> int \<Rightarrow> int \<Rightarrow> (nat \<Rightarrow> int) \<Rightarrow> nat \<Rightarrow> nat \<Rightarrow> server
    \<Rightarrow> (server \<times> segment list) option" where
  "send_loop file recv_rwnd window_space clk 0 k s = Some (s, [])"
| "send_loop file recv_rwnd window_space clk (Suc n) k s =
     (if window_space = 0 then Some (s, [])
      else case build_segment file recv_rwnd (int (Suc n)) (clk k) (last_seg_acked s + 1) of
        None \<Rightarrow> None
      | Some seg \<Rightarrow>
          let (w, m) = buffer_segment seg (send_base s, num_seg_in_buf s);
              s' = s\<lparr>last_seg_acked := last_seg_acked s + 1, send_base := w, num_seg_in_buf := m,
                     last_out_time := timestamp seg\<rparr>
          in if flag_set (is_eof seg) then Some (s', [seg])
             else if is_probe seg = 1 then Some (s', [seg])
             else map_option (\<lambda>(s'', out). (s'', seg # out))
                    (send_loop file recv_rwnd window_space clk n (Suc k) s'))"

section \<open>One pass of the loop\<close>

definition srv_timeout :: "server \<Rightarrow> int \<Rightarrow> server \<times> segment" where
  "srv_timeout s now =
     (let seg = (case send_base s of x # _ \<Rightarrow> x
                 | [] \<Rightarrow> zero_segment\<lparr>sequence_num := last_seg_acked s\<rparr>)
      in (s\<lparr>srv_rtt := rtt_timeout (srv_rtt s), srv_cong := cong_timeout (srv_cong s)\<rparr>,
          seg\<lparr>is_resent := 1, timestamp := now\<rparr>))"

definition segments_to_send :: "int \<Rightarrow> int \<Rightarrow> int \<Rightarrow> int" where
  "segments_to_send recv_rwnd cw window_space =
     (let a = (if recv_rwnd < cw then recv_rwnd else cw)
      in if a < window_space then a else window_space)"

definition srv_request :: "byte list option \<Rightarrow> int \<Rightarrow> server \<Rightarrow> int \<Rightarrow> (nat \<Rightarrow> int) \<Rightarrow> segment \<Rightarrow> srv_result" where
  "srv_request file maxBufferSize s time_back clk req =
     (let r = rtt_reply (srv_rtt s) time_back (last_out_time s);
          c = get_cwnd (srv_cong s) (ack_num req)
      in if flag_set (is_complete req)
         then Completed (s\<lparr>srv_rtt := r, srv_cong := c\<rparr>)
         else if \<not> int32 (ack_num req - 1) then Undefined AckOverflow
         else
           let acked = ack_num req - 1;
               (w, m) = prune_window acked (send_base s) (num_seg_in_buf s);
               s' = s\<lparr>srv_rtt := r, srv_cong := c\<lparr>prev_ack_seg_num := ack_num req\<rparr>,
                      last_seg_acked := acked, send_base := w, num_seg_in_buf := m\<rparr>;
               window_space = maxBufferSize - m;
               seg_to_send = segments_to_send (rwnd req) (cwnd c) window_space
           in case send_loop file (rwnd req) window_space clk (nat seg_to_send) 0 s' of
                None \<Rightarrow> Undefined OutsideFile
              | Some (s'', out) \<Rightarrow> Running s'' out)"

text \<open>The head of the loop: the estimator.\<close>

definition srv_begin :: "server \<Rightarrow> server" where
  "srv_begin s = s\<lparr>srv_rtt := rtt_begin (srv_rtt s)\<rparr>"

definition srv_iter :: "byte list option \<Rightarrow> int \<Rightarrow> server \<Rightarrow> srv_event \<Rightarrow> srv_result" where
  "srv_iter file maxBufferSize s ev =
     (if conse_packet_drop (srv_rtt s) = RTT_MAXNREXMT then Aborted
      else
        let s = srv_begin s
        in case trans_time (RTO (srv_rtt s)) (nat (conse_packet_drop (srv_rtt s))) of
             None \<Rightarrow> Undefined WaitOverflow
           | Some t \<Rightarrow>
               (case ev of
                  Interrupted \<Rightarrow> Running s []
                | TimerOff now \<Rightarrow> (let (s', seg) = srv_timeout s now in Running s' [seg])
                | RequestIn time_back clk bytes \<Rightarrow>
                    (case decode_segment bytes of
                       None \<Rightarrow> Undefined ShortDatagram
                     | Some req \<Rightarrow> srv_request file maxBufferSize s time_back clk req)))"

text \<open>Passes in a row, until the child ends.\<close>

fun srv_run :: "byte list option \<Rightarrow> int \<Rightarrow> server \<Rightarrow> srv_event list \<Rightarrow> srv_result" where
  "srv_run file maxBufferSize s [] = Running s []"
| "srv_run file maxBufferSize s (ev # evs) =
     (case srv_iter file maxBufferSize s ev of
        Running s' out \<Rightarrow> srv_run file maxBufferSize s' evs
      | res \<Rightarrow> res)"

section \<open>What a segment of the file is\<close>

definition num_segments :: "byte list \<Rightarrow> int" where
  "num_segments dat = int ((length dat + UDP_PAYLOAD_SIZE - 1) div UDP_PAYLOAD_SIZE)"

definition chunk :: "byte list \<Rightarrow> int \<Rightarrow> byte list" where
  "chunk dat n = take UDP_PAYLOAD_SIZE (drop (nat (n - 1) * UDP_PAYLOAD_SIZE) dat)"

definition data_segment :: "byte list \<Rightarrow> int \<Rightarrow> int \<Rightarrow> segment" where
  "data_segment dat n now = zero_segment\<lparr>sequence_num := n, timestamp := now,
     payload := pad_payload (chunk dat n), is_eof := (if n = num_segments dat then 1 else 0)\<rparr>"

text \<open>A segment carries the chunk of the file its number says, and the flag of the last one.\<close>

definition carries_chunk :: "byte list \<Rightarrow> segment \<Rightarrow> bool" where
  "carries_chunk dat seg \<longleftrightarrow> 1 \<le> sequence_num seg \<and> sequence_num seg \<le> num_segments dat
     \<and> payload seg = pad_payload (chunk dat (sequence_num seg))
     \<and> (flag_set (is_eof seg) \<longleftrightarrow> sequence_num seg = num_segments dat)
     \<and> ack_num seg = 0 \<and> rwnd seg = 0 \<and> is_probe seg = 0 \<and> is_complete seg = 0 \<and> is_last_in_iter seg = 0"

definition srv_inv :: "byte list \<Rightarrow> int \<Rightarrow> server \<Rightarrow> bool" where
  "srv_inv dat maxBuf s \<longleftrightarrow> num_seg_in_buf s = int (length (send_base s))
     \<and> num_seg_in_buf s \<le> maxBuf
     \<and> (\<forall>x \<in> set (send_base s). carries_chunk dat x)
     \<and> distinct (map sequence_num (send_base s))
     \<and> cong_inv (srv_cong s)"

section \<open>Facts\<close>

lemma UDP_PAYLOAD_SIZE_pos [simp]: "0 < UDP_PAYLOAD_SIZE"
  by (simp add: udp_sizes)

lemma copy_payload_eq:
  "k < length dat \<Longrightarrow> length dat < 2 ^ 31 \<Longrightarrow>
     copy_payload j dat (int k) = Some (take j (drop k dat), 0 < j \<and> length dat \<le> k + j)"
proof (induction j arbitrary: k)
  case 0
  then show ?case by simp
next
  case (Suc j)
  show ?case
  proof (cases "Suc k = length dat")
    case True
    then have "drop k dat = [dat ! k]" by (simp add: Cons_nth_drop_Suc [symmetric])
    moreover have "int32 (int k + 1)" using Suc.prems by (simp add: int32_def)
    ultimately show ?thesis using True by (auto simp: of_nat_less_iff)
  next
    case False
    with Suc.prems have lt: "Suc k < length dat" by simp
    have d: "drop k dat = dat ! k # drop (Suc k) dat" using Suc.prems by (simp add: Cons_nth_drop_Suc)
    have i: "int32 (int k + 1)" using Suc.prems by (simp add: int32_def)
    show ?thesis using Suc.IH [OF lt Suc.prems(2)] Suc.prems False lt i by (auto simp: d add.commute)
  qed
qed

lemma copy_payload_outside: "int (length dat) \<le> k \<Longrightarrow> 0 < j \<Longrightarrow> copy_payload j dat k = None"
  by (cases j) auto

lemma chunk_index: "1 \<le> n \<Longrightarrow> (n - 1) * int UDP_PAYLOAD_SIZE = int (nat (n - 1) * UDP_PAYLOAD_SIZE)"
  by simp

lemma pos_int_Suc: "1 \<le> n \<Longrightarrow> \<exists>m. n = int (Suc m)"
  by (rule exI [of _ "nat (n - 1)"]) simp

lemma ceil_div_491: "Suc m \<le> (l + 490) div 491 \<longleftrightarrow> m * 491 < l" for m l :: nat
  by (subst less_eq_div_iff_mult_less_eq) auto

lemma num_segments_bound:
  assumes "1 \<le> n"
  shows "n \<le> num_segments dat \<longleftrightarrow> nat (n - 1) * UDP_PAYLOAD_SIZE < length dat"
proof -
  obtain m where n: "n = int (Suc m)" using pos_int_Suc [OF assms] by blast
  have "n \<le> num_segments dat \<longleftrightarrow> Suc m \<le> (length dat + 490) div 491"
    unfolding n num_segments_def udp_sizes of_nat_le_iff by (simp add: add.commute)
  then show ?thesis by (simp add: ceil_div_491 n udp_sizes)
qed

lemma num_segments_last:
  assumes "1 \<le> n" and "n \<le> num_segments dat"
  shows "length dat \<le> nat (n - 1) * UDP_PAYLOAD_SIZE + UDP_PAYLOAD_SIZE \<longleftrightarrow> n = num_segments dat"
proof -
  obtain m where n: "n = int (Suc m)" using pos_int_Suc [OF assms(1)] by blast
  have "n + 1 \<le> num_segments dat \<longleftrightarrow> nat n * UDP_PAYLOAD_SIZE < length dat"
    using assms num_segments_bound [of "n + 1" dat] by simp
  then show ?thesis using assms(2) by (auto simp: n udp_sizes)
qed

text \<open>In a file below \<open>2 ^ 31\<close> bytes every number and every offset is an \<^verbatim>\<open>int\<close>.\<close>

lemma num_segments_int: "length dat < 2 ^ 31 \<Longrightarrow> num_segments dat < 2 ^ 31"
  by (simp add: num_segments_def udp_sizes)

lemma segment_number_int: "1 \<le> n \<Longrightarrow> n \<le> num_segments dat \<Longrightarrow> length dat < 2 ^ 31 \<Longrightarrow> int32 n \<and> int32 (n - 1)"
  using num_segments_int [of dat] by (simp add: int32_def)

lemma segment_offset_int:
  assumes "1 \<le> n" "n \<le> num_segments dat" "length dat < 2 ^ 31"
  shows "int32 ((n - 1) * int UDP_PAYLOAD_SIZE)"
proof -
  have "nat (n - 1) * UDP_PAYLOAD_SIZE < 2 ^ 31" using assms num_segments_bound by fastforce
  then show ?thesis using assms(1) by (simp add: int32_def udp_sizes)
qed

lemma build_segment_data:
  assumes "1 \<le> n" "n \<le> num_segments dat" "rw \<noteq> 0" "k \<noteq> 0" "length dat < 2 ^ 31"
  shows "build_segment (Some dat) rw k now n = Some (data_segment dat n now)"
proof -
  have lt: "nat (n - 1) * UDP_PAYLOAD_SIZE < length dat" using assms num_segments_bound by blast
  show ?thesis
    using assms num_segments_last [OF assms(1,2)] segment_number_int [OF assms(1,2,5)]
      segment_offset_int [OF assms(1,2,5)]
    by (simp add: build_segment_def data_segment_def chunk_index copy_payload_eq [OF lt assms(5)] chunk_def Let_def
        zero_segment_def del: of_nat_mult)
qed

lemma length_pad_payload [simp]: "length bs \<le> UDP_PAYLOAD_SIZE \<Longrightarrow> length (pad_payload bs) = UDP_PAYLOAD_SIZE"
  by (simp add: pad_payload_def)

lemma length_chunk [simp]: "length (chunk dat n) \<le> UDP_PAYLOAD_SIZE"
  by (simp add: chunk_def)

lemma data_segment_sel [simp]:
  "sequence_num (data_segment dat n now) = n" "timestamp (data_segment dat n now) = now"
  "is_probe (data_segment dat n now) = 0" "is_last_in_iter (data_segment dat n now) = 0"
  "is_eof (data_segment dat n now) = (if n = num_segments dat then 1 else 0)"
  by (simp_all add: data_segment_def zero_segment_def)

lemma data_segment_carries: "1 \<le> n \<Longrightarrow> n \<le> num_segments dat \<Longrightarrow> carries_chunk dat (data_segment dat n now)"
  by (simp add: carries_chunk_def data_segment_def zero_segment_def)

lemma carries_resent: "carries_chunk dat x \<Longrightarrow> carries_chunk dat (x\<lparr>is_resent := r, timestamp := t\<rparr>)"
  by (simp add: carries_chunk_def)

lemma carries_wf:
  "carries_chunk dat x \<Longrightarrow> length dat < 2 ^ 31 \<Longrightarrow> int32 (timestamp x) \<Longrightarrow> wf_segment x"
  using num_segments_int [of dat] by (auto simp: carries_chunk_def wf_segment_def int32_def)

lemma prune_window_eq:
  "prune_window a xs m =
     (dropWhile (\<lambda>x. sequence_num x \<le> a) xs,
      m - int (length (takeWhile (\<lambda>x. sequence_num x \<le> a) xs)))"
  by (induction xs arbitrary: m) auto

lemma prune_window_inv:
  assumes "srv_inv dat maxBuf s" and "prune_window a (send_base s) (num_seg_in_buf s) = (w, m)"
  shows "srv_inv dat maxBuf (s\<lparr>send_base := w, num_seg_in_buf := m\<rparr>)"
proof -
  let ?P = "\<lambda>x. sequence_num x \<le> a"
  have w: "w = dropWhile ?P (send_base s)" and m: "m = num_seg_in_buf s - int (length (takeWhile ?P (send_base s)))"
    using assms(2) by (simp_all add: prune_window_eq)
  have "length (send_base s) = length (takeWhile ?P (send_base s)) + length w"
    by (metis w length_append takeWhile_dropWhile_id)
  then have "m = int (length w)" using assms(1) m by (simp add: srv_inv_def)
  moreover have "set w \<subseteq> set (send_base s)" "distinct (map sequence_num w)"
    using assms(1) by (auto simp: w srv_inv_def dropWhile_map [symmetric, unfolded o_def] dest: set_dropWhileD)
      (metis distinct_append map_append takeWhile_dropWhile_id)
  moreover have "int (length w) \<le> maxBuf"
    using assms(1) \<open>length (send_base s) = _\<close> by (simp add: srv_inv_def)
  ultimately show ?thesis using assms(1) by (auto simp: srv_inv_def)
qed

lemma buffer_segment_inv:
  assumes "srv_inv dat maxBuf s" and "num_seg_in_buf s < maxBuf" and "carries_chunk dat seg"
    and "buffer_segment seg (send_base s, num_seg_in_buf s) = (w, m)"
  shows "srv_inv dat maxBuf (s\<lparr>send_base := w, num_seg_in_buf := m\<rparr>)"
    and "w \<noteq> []" and "m \<le> num_seg_in_buf s + 1"
    and "\<exists>x \<in> set w. sequence_num x = sequence_num seg" and "set (send_base s) \<subseteq> set w"
  using assms by (auto simp: srv_inv_def buffer_segment_def split: if_splits) blast

text \<open>
  The sending loop over a file that is there: it sends the next consecutive segments of the file, as
  many as asked for and left, and keeps the window invariant.
\<close>

definition sent_by_loop :: "byte list \<Rightarrow> (nat \<Rightarrow> int) \<Rightarrow> int \<Rightarrow> nat \<Rightarrow> nat \<Rightarrow> segment list" where
  "sent_by_loop dat clk n k m = map (\<lambda>i. data_segment dat (n + int i) (clk (k + i))) [0..<m]"

lemma sent_by_loop_Suc:
  "sent_by_loop dat clk n k (Suc m) = data_segment dat n (clk k) # sent_by_loop dat clk (n + 1) (Suc k) m"
  by (simp add: sent_by_loop_def upt_conv_Cons map_Suc_upt [symmetric] add.assoc del: upt_Suc)

definition same_estimators :: "server \<Rightarrow> server \<Rightarrow> bool" where
  "same_estimators s s' \<longleftrightarrow> srv_rtt s' = srv_rtt s \<and> srv_cong s' = srv_cong s"

lemma send_loop_ok:
  assumes "srv_inv dat maxBuf s" "0 \<le> last_seg_acked s" "last_seg_acked s < num_segments dat"
    and "rw \<noteq> 0" "ws \<noteq> 0" "int n \<le> maxBuf - num_seg_in_buf s"
    and "m = min n (nat (num_segments dat - last_seg_acked s))" "length dat < 2 ^ 31"
  shows "\<exists>s'. send_loop (Some dat) rw ws clk n k s = Some (s', sent_by_loop dat clk (last_seg_acked s + 1) k m)
    \<and> srv_inv dat maxBuf s' \<and> last_seg_acked s' = last_seg_acked s + int m \<and> same_estimators s s'
    \<and> (send_base s' = [] \<longrightarrow> m = 0 \<and> send_base s = [])"
  using assms
proof (induction n arbitrary: s k m)
  case 0
  then show ?case by (simp add: sent_by_loop_def same_estimators_def)
next
  case (Suc n)
  let ?l = "last_seg_acked s" and ?N = "num_segments dat"
  let ?seg = "data_segment dat (?l + 1) (clk k)"
  have b: "build_segment (Some dat) rw (int (Suc n)) (clk k) (?l + 1) = Some ?seg"
    using Suc.prems by (intro build_segment_data) auto
  obtain w m' where wm: "buffer_segment ?seg (send_base s, num_seg_in_buf s) = (w, m')"
    by fastforce
  have c: "carries_chunk dat ?seg" using Suc.prems by (intro data_segment_carries) auto
  have lt: "num_seg_in_buf s < maxBuf" using Suc.prems(6) by simp
  note buf = buffer_segment_inv [OF Suc.prems(1) lt c wm]
  let ?s = "s\<lparr>last_seg_acked := ?l + 1, send_base := w, num_seg_in_buf := m', last_out_time := clk k\<rparr>"
  have inv: "srv_inv dat maxBuf ?s" using buf(1) by (simp add: srv_inv_def)
  show ?case
  proof (cases "?l + 1 = ?N")
    case True
    then have "m = 1" using Suc.prems(7) by simp
    then show ?thesis using True b wm inv buf(2) Suc.prems(5)
      by (simp add: sent_by_loop_def same_estimators_def)
  next
    case False
    obtain m2 where m2: "m = Suc m2" "m2 = min n (nat (?N - (?l + 1)))"
      using Suc.prems(3,7) False by (cases m) auto
    have "\<exists>s'. send_loop (Some dat) rw ws clk n (Suc k) ?s
        = Some (s', sent_by_loop dat clk (last_seg_acked ?s + 1) (Suc k) m2)
      \<and> srv_inv dat maxBuf s' \<and> last_seg_acked s' = last_seg_acked ?s + int m2 \<and> same_estimators ?s s'
      \<and> (send_base s' = [] \<longrightarrow> m2 = 0 \<and> send_base ?s = [])"
      using Suc.prems False buf(3) m2 inv by (intro Suc.IH) auto
    then show ?thesis
      using b wm Suc.prems(5) False buf(2) m2(1)
      by (auto simp: sent_by_loop_Suc same_estimators_def algebra_simps)
  qed
qed

text \<open>How many segments one request allows: the least of the three windows, never negative.\<close>

definition quota :: "int \<Rightarrow> server \<Rightarrow> segment \<Rightarrow> nat" where
  "quota maxBuf s req =
     nat (min (min (rwnd req) (cwnd (get_cwnd (srv_cong s) (ack_num req))))
       (maxBuf - int (length (dropWhile (\<lambda>x. sequence_num x \<le> ack_num req - 1) (send_base s)))))"

lemma segments_to_send_min: "segments_to_send a b c = min (min a b) c"
  by (auto simp: segments_to_send_def Let_def min_def)

lemma cong_inv_prev [simp]: "cong_inv (c\<lparr>prev_ack_seg_num := a\<rparr>) = cong_inv c"
  by (simp add: cong_inv_def)

lemma srv_request_ok:
  assumes inv: "srv_inv dat maxBuf s" and nc: "\<not> flag_set (is_complete req)"
    and ack: "1 \<le> ack_num req" "ack_num req \<le> num_segments dat"
    and m: "m = min (quota maxBuf s req) (nat (num_segments dat - ack_num req + 1))"
    and len: "length dat < 2 ^ 31"
  shows "\<exists>s'. srv_request (Some dat) maxBuf s t clk req = Running s' (sent_by_loop dat clk (ack_num req) 0 m)
    \<and> srv_inv dat maxBuf s' \<and> last_seg_acked s' = ack_num req - 1 + int m
    \<and> srv_cong s' = cong_ack (srv_cong s) (ack_num req)
    \<and> srv_rtt s' = rtt_reply (srv_rtt s) t (last_out_time s)
    \<and> (send_base s' = [] \<longrightarrow> last_seg_acked s' = ack_num req - 1)"
proof -
  let ?a = "ack_num req" and ?c = "cong_ack (srv_cong s) (ack_num req)"
  obtain w n where wn: "prune_window (?a - 1) (send_base s) (num_seg_in_buf s) = (w, n)"
    by fastforce
  let ?s = "s\<lparr>srv_rtt := rtt_reply (srv_rtt s) t (last_out_time s), srv_cong := ?c,
      last_seg_acked := ?a - 1, send_base := w, num_seg_in_buf := n\<rparr>"
  have pr: "srv_inv dat maxBuf (s\<lparr>send_base := w, num_seg_in_buf := n\<rparr>)"
    using prune_window_inv [OF inv wn] .
  then have is0: "srv_inv dat maxBuf ?s"
    using cong_ack_inv inv by (auto simp: srv_inv_def)
  have "n = int (length w)" "w = dropWhile (\<lambda>x. sequence_num x \<le> ?a - 1) (send_base s)"
    using pr wn by (simp_all add: srv_inv_def prune_window_eq)
  then have q: "quota maxBuf s req = nat (segments_to_send (rwnd req) (cwnd (get_cwnd (srv_cong s) ?a)) (maxBuf - n))"
    by (simp add: quota_def segments_to_send_min)
  have step: "srv_request (Some dat) maxBuf s t clk req =
    (case send_loop (Some dat) (rwnd req) (maxBuf - n) clk (quota maxBuf s req) 0 ?s of
       None \<Rightarrow> Undefined OutsideFile | Some (s'', out) \<Rightarrow> Running s'' out)"
    using nc segment_number_int [OF ack len] by (simp add: srv_request_def Let_def wn q cong_ack_def)
  show ?thesis
  proof (cases "quota maxBuf s req")
    case 0
    then show ?thesis using step is0 m by (simp add: sent_by_loop_def)
  next
    case (Suc k)
    then have "rwnd req \<noteq> 0" "maxBuf - n \<noteq> 0" "int (quota maxBuf s req) \<le> maxBuf - num_seg_in_buf ?s"
      using q by (auto simp: segments_to_send_min)
    moreover have "m = min (quota maxBuf s req) (nat (num_segments dat - last_seg_acked ?s))"
      using m by (simp add: algebra_simps)
    ultimately obtain s' where "send_loop (Some dat) (rwnd req) (maxBuf - n) clk (quota maxBuf s req) 0 ?s
        = Some (s', sent_by_loop dat clk (last_seg_acked ?s + 1) 0 m)
      \<and> srv_inv dat maxBuf s' \<and> last_seg_acked s' = last_seg_acked ?s + int m \<and> same_estimators ?s s'
      \<and> (send_base s' = [] \<longrightarrow> m = 0 \<and> send_base ?s = [])"
      using send_loop_ok [OF is0, of "rwnd req" "maxBuf - n" "quota maxBuf s req" m clk 0] ack len
      by (auto simp del: of_nat_min)
    then show ?thesis using step by (auto simp: same_estimators_def)
  qed
qed

lemma srv_timeout_ok:
  assumes "srv_inv dat maxBuf s"
  shows "srv_inv dat maxBuf (fst (srv_timeout s now))
    \<and> (send_base s = [] \<longrightarrow> sequence_num (snd (srv_timeout s now)) = last_seg_acked s)
    \<and> (send_base s \<noteq> [] \<longrightarrow> carries_chunk dat (snd (srv_timeout s now)))
    \<and> send_base (fst (srv_timeout s now)) = send_base s
    \<and> last_seg_acked (fst (srv_timeout s now)) = last_seg_acked s"
  using assms cong_timeout_inv
  by (auto simp: srv_timeout_def srv_inv_def Let_def carries_resent split: list.splits)

section \<open>Properties\<close>

text \<open>
  C7 (functional behaviour of the request handler).  A request for segment \<open>n\<close> of a file that has it is
  answered, in a file below \<open>2 ^ 31\<close> bytes, with the consecutive segments \<open>n, n + 1, \<dots>\<close> of the file, exactly as many as the advertised
  window, the congestion window and the free places of the sending window allow and the file still has;
  no byte outside the file is read, the sending window never holds more than its size, and the congestion
  and timer variables are those of one acknowledgement.
\<close>

theorem srv_request_sends:
  assumes "srv_inv dat maxBuf s" and "\<not> flag_set (is_complete req)"
    and "1 \<le> ack_num req" and "ack_num req \<le> num_segments dat" and "length dat < 2 ^ 31"
  shows "\<exists>s'. srv_request (Some dat) maxBuf s t clk req =
      Running s' (sent_by_loop dat clk (ack_num req) 0
        (min (quota maxBuf s req) (nat (num_segments dat - ack_num req + 1))))
    \<and> srv_inv dat maxBuf s' \<and> srv_cong s' = cong_ack (srv_cong s) (ack_num req)
    \<and> srv_rtt s' = rtt_reply (srv_rtt s) t (last_out_time s)"
  using srv_request_ok [OF assms(1-4) refl assms(5), of t clk] by blast

theorem srv_request_sends_witness:
  "\<exists>s'. srv_request (Some [104, 105]) 6 (srv_init 0 0) 5 (\<lambda>k. 9) (zero_segment\<lparr>ack_num := 1, rwnd := 5\<rparr>)
     = Running s' [data_segment [104, 105] 1 9] \<and> srv_inv [104, 105] 6 s'"
proof -
  let ?q = "zero_segment\<lparr>ack_num := 1, rwnd := 5\<rparr>"
  have N: "num_segments [104, 105] = 1" by (simp add: num_segments_def udp_sizes)
  have i: "srv_inv [104, 105] 6 (srv_init 0 0)" by (simp add: srv_inv_def srv_init_def)
  have q: "quota 6 (srv_init 0 0) ?q = 2"
    by (simp add: quota_def srv_init_def cong_init_def get_cwnd_def third_duplicate_def)
  have "\<not> flag_set (is_complete ?q)" "1 \<le> ack_num ?q" "ack_num ?q \<le> num_segments [104, 105]"
    "length [104::byte, 105] < 2 ^ 31"
    by (simp_all add: zero_segment_def N)
  from srv_request_sends [OF i this, of 5 "\<lambda>k. 9"] show ?thesis
    by (auto simp: q N sent_by_loop_def)
qed

lemma build_segment_flags:
  "build_segment file rw k now n = Some seg \<Longrightarrow> rw \<noteq> 0 \<Longrightarrow> k \<noteq> 0 \<Longrightarrow> is_probe seg = 0 \<and> is_last_in_iter seg = 0"
  by (auto simp: build_segment_def Let_def split: option.splits if_splits)

lemma send_loop_flags:
  "send_loop file rw ws clk n k s = Some (s', out) \<Longrightarrow> rw \<noteq> 0 \<Longrightarrow> seg \<in> set out \<Longrightarrow>
     is_probe seg = 0 \<and> is_last_in_iter seg = 0"
proof (induction n arbitrary: k s s' out)
  case 0
  then show ?case by simp
next
  case (Suc n)
  show ?case
  proof (cases "ws = 0")
    case True
    with Suc.prems show ?thesis by simp
  next
    case False
    then obtain sg where sg: "build_segment file rw (int (Suc n)) (clk k) (last_seg_acked s + 1) = Some sg"
      using Suc.prems(1) by (auto split: option.splits)
    obtain w m where wm: "buffer_segment sg (send_base s, num_seg_in_buf s) = (w, m)" by fastforce
    have "is_probe sg = 0 \<and> is_last_in_iter sg = 0"
      using build_segment_flags [OF sg Suc.prems(2)] by simp
    then show ?thesis
      using Suc.prems Suc.IH False sg wm by (auto simp: Let_def split: if_splits)
  qed
qed

lemma srv_request_out:
  assumes "srv_request file maxBuf s t clk req = Running s' out"
  shows "rwnd req \<le> 0 \<Longrightarrow> out = []"
    and "seg \<in> set out \<Longrightarrow> is_probe seg = 0 \<and> is_last_in_iter seg = 0"
proof -
  obtain w m where wm: "prune_window (ack_num req - 1) (send_base s) (num_seg_in_buf s) = (w, m)"
    by fastforce
  have ex: "\<exists>s0. send_loop file (rwnd req) (maxBuf - m) clk
      (nat (segments_to_send (rwnd req) (cwnd (get_cwnd (srv_cong s) (ack_num req))) (maxBuf - m))) 0 s0
      = Some (s', out)"
    using assms wm by (auto simp: srv_request_def Let_def split: if_splits option.splits)
  show e: "out = []" if "rwnd req \<le> 0"
    using ex that by (auto simp: segments_to_send_min)
  show "seg \<in> set out \<Longrightarrow> is_probe seg = 0 \<and> is_last_in_iter seg = 0"
    using ex send_loop_flags e by (cases "rwnd req = 0") auto
qed

lemma srv_begin_inv: "srv_inv dat maxBuf s \<Longrightarrow> srv_inv dat maxBuf (srv_begin s)"
  by (simp add: srv_inv_def srv_begin_def)

lemma srv_begin_sel [simp]: "send_base (srv_begin s) = send_base s" "last_seg_acked (srv_begin s) = last_seg_acked s"
  by (simp_all add: srv_begin_def)

lemma srv_iter_RunningE [consumes 1, case_names interrupted timer request]:
  assumes "srv_iter file maxBuf s ev = Running s' out"
  obtains "ev = Interrupted" "s' = srv_begin s" "out = []"
  | now where "ev = TimerOff now" "s' = fst (srv_timeout (srv_begin s) now)"
      "out = [snd (srv_timeout (srv_begin s) now)]"
  | t clk bytes req where "ev = RequestIn t clk bytes" "decode_segment bytes = Some req"
      "srv_request file maxBuf (srv_begin s) t clk req = Running s' out"
proof -
  have "(case ev of Interrupted \<Rightarrow> Running (srv_begin s) []
      | TimerOff now \<Rightarrow> (let (s', seg) = srv_timeout (srv_begin s) now in Running s' [seg])
      | RequestIn t clk bytes \<Rightarrow> (case decode_segment bytes of None \<Rightarrow> Undefined ShortDatagram
          | Some req \<Rightarrow> srv_request file maxBuf (srv_begin s) t clk req)) = Running s' out"
    using assms by (simp add: srv_iter_def Let_def split: if_splits option.splits)
  then show thesis
    using that by (cases ev) (auto split: option.splits simp: case_prod_unfold Let_def)
qed

text \<open>
  Dead flags.  The flags the client waits for are never set: no pass of the server's loop, over any
  file and on any event, sends a segment with \<^verbatim>\<open>is_probe\<close> or \<^verbatim>\<open>is_last_in_iter\<close>, and a request that
  advertises a closed window is answered with nothing at all, not with a probe.
\<close>

theorem no_probe_no_last:
  assumes "srv_inv dat maxBuf s" and "srv_iter (Some dat) maxBuf s ev = Running s' out"
  shows "(\<forall>seg \<in> set out. is_probe seg = 0 \<and> is_last_in_iter seg = 0)
    \<and> (\<forall>t clk req. wf_segment req \<and> rwnd req = 0 \<and> ev = RequestIn t clk (encode_segment req) \<longrightarrow> out = [])"
  using assms(2)
proof (cases rule: srv_iter_RunningE)
  case (timer now)
  moreover have "is_probe (snd (srv_timeout (srv_begin s) now)) = 0
      \<and> is_last_in_iter (snd (srv_timeout (srv_begin s) now)) = 0"
  proof (cases "send_base (srv_begin s)")
    case Nil
    then show ?thesis by (simp add: srv_timeout_def zero_segment_def)
  next
    case (Cons x xs)
    then have "carries_chunk dat (snd (srv_timeout (srv_begin s) now))"
      using srv_timeout_ok [OF srv_begin_inv [OF assms(1)]] by simp
    then show ?thesis by (simp add: carries_chunk_def)
  qed
  ultimately show ?thesis by simp
next
  case (request t clk bytes req)
  have "out = []" if "wf_segment q" "rwnd q = 0" "ev = RequestIn t' clk' (encode_segment q)" for t' clk' q
  proof -
    have "q = req" using that(1,3) request(1,2) by (simp add: decode_encode)
    then show ?thesis using srv_request_out(1) [OF request(3)] that(2) by simp
  qed
  moreover have "is_probe seg = 0 \<and> is_last_in_iter seg = 0" if "seg \<in> set out" for seg
    using srv_request_out(2) [OF request(3) that] .
  ultimately show ?thesis by metis
next
  case interrupted
  then show ?thesis by simp
qed

lemma rtt_first:
  "RTO (rtt_begin (rtt_init g)) = 1476562" "conse_packet_drop (rtt_begin (rtt_init g)) = 0"
  "conse_packet_drop (rtt_init g) = 0" "trans_time 1476562 0 = Some 1476562"
  by (simp_all add: rtt_begin_def rtt_init_def rtt_estimate_def Let_def drop_bit_int_def clamp_rto_def
      rtt_consts trans_time_def int32_def)

theorem no_probe_no_last_witness:
  "\<exists>s'. srv_iter (Some [104]) 6 (srv_init 0 0) (TimerOff 7)
     = Running s' [zero_segment\<lparr>is_resent := 1, timestamp := 7\<rparr>]
   \<and> (\<forall>seg \<in> set [zero_segment\<lparr>is_resent := 1, timestamp := 7\<rparr>]. is_probe seg = 0)"
proof -
  have i: "srv_inv [104] 6 (srv_init 0 0)" by (simp add: srv_inv_def srv_init_def)
  have "\<exists>s'. srv_iter (Some [104]) 6 (srv_init 0 0) (TimerOff 7)
     = Running s' [zero_segment\<lparr>is_resent := 1, timestamp := 7\<rparr>]"
    by (simp add: srv_iter_def srv_begin_def srv_init_def rtt_first Let_def srv_timeout_def zero_segment_def RTT_MAXNREXMT_def)
  then obtain s' where s': "srv_iter (Some [104]) 6 (srv_init 0 0) (TimerOff 7)
     = Running s' [zero_segment\<lparr>is_resent := 1, timestamp := 7\<rparr>]" by blast
  with no_probe_no_last [OF i s'] show ?thesis by blast
qed

text \<open>A request that allows a segment is undefined behaviour where that segment cannot be built.\<close>

lemma srv_request_cannot_build:
  assumes "\<not> flag_set (is_complete req)" and "0 < quota maxBuf s req" and "1 \<le> ack_num req" and "ack_num req < 2 ^ 31"
    and "num_seg_in_buf s = int (length (send_base s))"
    and none: "\<And>k. build_segment file (rwnd req) k (clk 0) (ack_num req) = None"
  shows "srv_request file maxBuf s t clk req = Undefined OutsideFile"
proof -
  obtain w m where wm: "prune_window (ack_num req - 1) (send_base s) (num_seg_in_buf s) = (w, m)"
    by fastforce
  then have w: "w = dropWhile (\<lambda>x. sequence_num x \<le> ack_num req - 1) (send_base s)"
    and m: "m = int (length (send_base s)) - int (length (takeWhile (\<lambda>x. sequence_num x \<le> ack_num req - 1) (send_base s)))"
    using assms(5) by (simp_all add: prune_window_eq)
  have "length (send_base s) = length (takeWhile (\<lambda>x. sequence_num x \<le> ack_num req - 1) (send_base s)) + length w"
    by (metis w length_append takeWhile_dropWhile_id)
  then have ml: "m = int (length w)" by (simp add: m)
  have "nat (segments_to_send (rwnd req) (cwnd (get_cwnd (srv_cong s) (ack_num req))) (maxBuf - m)) = quota maxBuf s req"
    by (simp add: quota_def segments_to_send_min ml w)
  then obtain n where n: "nat (segments_to_send (rwnd req) (cwnd (get_cwnd (srv_cong s) (ack_num req))) (maxBuf - m)) = Suc n"
    using assms(2) gr0_implies_Suc by auto
  then have "maxBuf - m \<noteq> 0" by (auto simp: segments_to_send_min)
  then show ?thesis
    using assms(1,3,4) wm n none by (simp add: srv_request_def Let_def int32_def)
qed

text \<open>
  Error path: the empty file.  A file of length 0 is opened and served like any other, and the first
  request that allows a segment makes the server read outside its buffer: \<^verbatim>\<open>copyByte\<close> passes the length
  before it is compared with it.
\<close>

theorem empty_file_undefined:
  assumes "\<not> flag_set (is_complete req)" and "0 < quota maxBuf s req" and "1 \<le> ack_num req" and "ack_num req < 2 ^ 31"
    and "num_seg_in_buf s = int (length (send_base s))"
  shows "srv_request (Some []) maxBuf s t clk req = Undefined OutsideFile"
proof (rule srv_request_cannot_build [OF assms])
  have "copy_payload UDP_PAYLOAD_SIZE [] ((ack_num req - 1) * int UDP_PAYLOAD_SIZE) = None"
    using assms(3) by (intro copy_payload_outside) auto
  then show "build_segment (Some []) (rwnd req) k (clk 0) (ack_num req) = None" for k
    by (simp add: build_segment_def Let_def)
qed

lemma copy_payload_large:
  "0 \<le> k \<Longrightarrow> k < 2 ^ 31 \<Longrightarrow> 2 ^ 31 \<le> k + int j \<Longrightarrow> 2 ^ 31 \<le> length dat \<Longrightarrow> copy_payload j dat k = None"
proof (induction j arbitrary: k)
  case 0
  then show ?case by simp
next
  case (Suc j)
  show ?case
  proof (cases "k + 1 < 2 ^ 31")
    case True
    then have "copy_payload j dat (k + 1) = None" using Suc.prems by (intro Suc.IH) auto
    moreover have "2 ^ 31 \<le> int (length dat)" using Suc.prems(4) by simp
    then have "k + 1 \<noteq> int (length dat)" using True by linarith
    ultimately show ?thesis by simp
  next
    case False
    then show ?thesis by (simp add: int32_def)
  qed
qed

text \<open>
  C31 (large files).  In a file of \<open>2 ^ 31\<close> bytes and more the segment that crosses that
  offset, and every segment behind it, cannot be cut out, because \<^verbatim>\<open>copyByte\<close> is an \<^verbatim>\<open>int\<close>: the request for one of them that
  allows a segment ends in undefined behaviour, whatever the file holds and whatever has been sent before.
\<close>

theorem large_file_undefined:
  assumes "\<not> flag_set (is_complete req)" and "0 < quota maxBuf s req" and "1 \<le> ack_num req" and "ack_num req < 2 ^ 31"
    and "num_seg_in_buf s = int (length (send_base s))"
    and "2 ^ 31 \<le> length dat" and "2 ^ 31 \<le> ack_num req * int UDP_PAYLOAD_SIZE"
  shows "srv_request (Some dat) maxBuf s t clk req = Undefined OutsideFile"
proof (rule srv_request_cannot_build [OF assms(1-5)])
  let ?o = "(ack_num req - 1) * int UDP_PAYLOAD_SIZE"
  have "copy_payload UDP_PAYLOAD_SIZE dat ?o = None" if "int32 ?o"
    using that assms(3,6,7) by (intro copy_payload_large) (auto simp: int32_def udp_sizes)
  then show "build_segment (Some dat) (rwnd req) k (clk 0) (ack_num req) = None" for k
    by (simp add: build_segment_def Let_def)
qed

theorem large_file_undefined_witness:
  "srv_request (Some (replicate (2 ^ 31) 7)) 6 (srv_init 0 0) 5 (\<lambda>k. 9) (zero_segment\<lparr>ack_num := 4373694, rwnd := 5\<rparr>)
     = Undefined OutsideFile"
proof -
  let ?q = "zero_segment\<lparr>ack_num := 4373694, rwnd := 5\<rparr>"
  have "0 < quota 6 (srv_init 0 0) ?q"
    by (simp add: quota_def srv_init_def cong_init_def get_cwnd_def third_duplicate_def)
  moreover have "2 ^ 31 \<le> length (replicate (2 ^ 31) (7::byte))" by (simp only: length_replicate)
  ultimately show ?thesis
    by (intro large_file_undefined) (simp_all add: zero_segment_def srv_init_def udp_sizes del: replicate.simps length_replicate)
qed

theorem empty_file_undefined_witness:
  "srv_request (Some []) 6 (srv_init 0 0) 5 (\<lambda>k. 9) (zero_segment\<lparr>ack_num := 1, rwnd := 5\<rparr>) = Undefined OutsideFile"
  by (rule empty_file_undefined)
    (simp_all add: quota_def srv_init_def cong_init_def get_cwnd_def third_duplicate_def zero_segment_def)

text \<open>Consecutive timeouts: the timer keeps its \<^verbatim>\<open>RTO\<close> and counts.\<close>

definition timeouts :: "rtt \<Rightarrow> nat \<Rightarrow> rtt" where
  "timeouts r n = (if n = 0 then r
     else (rtt_begin r)\<lparr>last_packet_drop := 1, update_rtt := 0, conse_packet_drop := int n\<rparr>)"

lemma srv_run_append:
  "srv_run file maxBuf s xs = Running s' out \<Longrightarrow> srv_run file maxBuf s (xs @ ys) = srv_run file maxBuf s' ys"
  by (induction xs arbitrary: s) (auto split: srv_result.splits)

lemma rtt_begin_conse [simp]: "conse_packet_drop (rtt_begin r) = conse_packet_drop r"
  by (simp add: rtt_begin_def rtt_estimate_def Let_def)

lemma timeouts_begin:
  assumes "conse_packet_drop r = 0"
  shows "RTO (rtt_begin (timeouts r n)) = RTO (rtt_begin r)"
    and "conse_packet_drop (timeouts r n) = int n"
    and "rtt_timeout (rtt_begin (timeouts r n)) = timeouts r (Suc n)"
  using assms by (auto simp: timeouts_def rtt_begin_def [of "_\<lparr>last_packet_drop := 1, update_rtt := _, conse_packet_drop := _\<rparr>"]
      rtt_timeout_def)

lemma srv_iter_timer:
  assumes "conse_packet_drop r = 0" "srv_rtt s = timeouts r n" "n < 12" "int32 (RTO (rtt_begin r) * 2 ^ n)"
  shows "\<exists>s' seg. srv_iter file maxBuf s (TimerOff now) = Running s' [seg] \<and> srv_rtt s' = timeouts r (Suc n)"
proof -
  have "int n \<noteq> RTT_MAXNREXMT" using assms(3) by (simp add: rtt_consts)
  moreover obtain t where "trans_time (RTO (rtt_begin r)) n = Some t"
    using assms(4) by (simp add: trans_time_Some)
  ultimately show ?thesis
    using assms timeouts_begin [OF assms(1), of n]
    by (simp add: srv_iter_def srv_begin_def srv_timeout_def Let_def)
qed

lemma srv_run_timeouts:
  assumes "conse_packet_drop (srv_rtt s) = 0" and "length ts \<le> 12"
    and "\<And>i. i < length ts \<Longrightarrow> int32 (RTO (rtt_begin (srv_rtt s)) * 2 ^ i)"
  shows "\<exists>s'. srv_run file maxBuf s (map TimerOff ts) = Running s' [] \<and> srv_rtt s' = timeouts (srv_rtt s) (length ts)"
  using assms(2,3)
proof (induction ts rule: rev_induct)
  case Nil
  then show ?case by (simp add: timeouts_def)
next
  case (snoc x xs)
  then obtain s1 where s1: "srv_run file maxBuf s (map TimerOff xs) = Running s1 []"
    "srv_rtt s1 = timeouts (srv_rtt s) (length xs)" by auto
  obtain s2 seg where "srv_iter file maxBuf s1 (TimerOff x) = Running s2 [seg]"
    "srv_rtt s2 = timeouts (srv_rtt s) (Suc (length xs))"
    using srv_iter_timer [OF assms(1) s1(2)] snoc.prems by fastforce
  then show ?case using srv_run_append [OF s1(1)] by simp
qed

text \<open>
  C36 (giving up on a silent client).  The documented limit of twelve retransmissions holds only for a
  small \<^verbatim>\<open>RTO\<close>: below \<open>2 ^ 20\<close> microseconds the thirteenth pass aborts the transfer; with a larger one
  the computation of the wait leaves the range of \<^verbatim>\<open>int\<close> at the first \<open>n < 12\<close> with
  \<open>2 ^ 31 \<le> RTO * 2 ^ n\<close>, before the limit is reached.
\<close>

theorem silent_client:
  assumes "conse_packet_drop (srv_rtt s) = 0" and "rto = RTO (rtt_begin (srv_rtt s))" and "1000000 \<le> rto"
  shows "(rto < 2 ^ 20 \<longrightarrow> length ts = 12 \<longrightarrow> srv_run file maxBuf s (map TimerOff ts @ [ev]) = Aborted)
    \<and> (length ts < 12 \<longrightarrow> 2 ^ 31 \<le> rto * 2 ^ length ts \<longrightarrow> (\<forall>i < length ts. rto * 2 ^ i < 2 ^ 31) \<longrightarrow>
        srv_run file maxBuf s (map TimerOff ts @ [ev]) = Undefined WaitOverflow)"
proof -
  have small: "int32 (rto * 2 ^ i)" if "rto * 2 ^ i < 2 ^ 31" for i
  proof -
    have "0 \<le> rto * 2 ^ i" using assms(3) by simp
    with that show ?thesis unfolding int32_def by linarith
  qed
  have "rto * 2 ^ i < 2 ^ 31" if "rto < 2 ^ 20" "i \<le> 11" for i
  proof -
    have "rto * 2 ^ i \<le> rto * 2 ^ 11" using that assms(3) by (intro mult_left_mono power_increasing) auto
    also have "\<dots> < 2 ^ 20 * 2 ^ 11" using that by simp
    finally show ?thesis by simp
  qed
  then have run: "\<exists>s'. srv_run file maxBuf s (map TimerOff ts) = Running s' []
      \<and> srv_rtt s' = timeouts (srv_rtt s) (length ts)"
    if "length ts \<le> 12" "rto < 2 ^ 20 \<or> (\<forall>i < length ts. rto * 2 ^ i < 2 ^ 31)"
    using srv_run_timeouts [OF assms(1) that(1)] that small assms(2) by fastforce
  show ?thesis
  proof (intro conjI impI)
    assume "rto < 2 ^ 20" "length ts = 12"
    with run obtain s' where "srv_run file maxBuf s (map TimerOff ts) = Running s' []"
      "srv_rtt s' = timeouts (srv_rtt s) 12" by auto
    then show "srv_run file maxBuf s (map TimerOff ts @ [ev]) = Aborted"
      using srv_run_append timeouts_begin(2) [OF assms(1), of 12] by (simp add: srv_iter_def rtt_consts)
  next
    assume lt: "length ts < 12" and big: "2 ^ 31 \<le> rto * 2 ^ length ts"
      and "\<forall>i < length ts. rto * 2 ^ i < 2 ^ 31"
    with run obtain s' where s': "srv_run file maxBuf s (map TimerOff ts) = Running s' []"
      "srv_rtt s' = timeouts (srv_rtt s) (length ts)" by auto
    have "trans_time rto (length ts) = None"
      using big by (simp add: trans_time_def Let_def int32_def)
    then have "srv_iter file maxBuf s' ev = Undefined WaitOverflow"
      using lt s'(2) timeouts_begin [OF assms(1), of "length ts"] assms(2)
      by (simp add: srv_iter_def srv_begin_def rtt_consts)
    then show "srv_run file maxBuf s (map TimerOff ts @ [ev]) = Undefined WaitOverflow"
      using srv_run_append [OF s'(1)] by simp
  qed
qed

theorem silent_client_witness:
  "srv_run None 6 (srv_init 0 0) (map TimerOff (replicate 11 0) @ [Interrupted]) = Undefined WaitOverflow"
proof -
  have i: "conse_packet_drop (srv_rtt (srv_init 0 0)) = 0"
    "1476562 = RTO (rtt_begin (srv_rtt (srv_init 0 0)))" "(1000000::int) \<le> 1476562"
    by (simp_all add: srv_init_def rtt_first)
  have "1476562 * 2 ^ i < (2::int) ^ 31" if "i < 11" for i
  proof -
    have "(1476562::int) * 2 ^ i \<le> 1476562 * 2 ^ 10" using that by (intro mult_left_mono power_increasing) auto
    then show ?thesis by simp
  qed
  then show ?thesis
    using silent_client [OF i, of "replicate 11 0" None 6 Interrupted] by (simp del: replicate.simps)
qed

end
