(* ===== verification/Udp_Client.thy ===== *)
theory Udp_Client
  imports Segment
begin

text \<open>
  The receiving side of the file transfer (\<^verbatim>\<open>dg_cli1\<close> and \<^verbatim>\<open>print_data2\<close> of \<^verbatim>\<open>udpcli.c\<close>): the main
  thread, which requests, reads, classifies and buffers segments, and the consumer thread, which
  takes the segments that are next in order out of the window and prints them.  The two threads share the
  window, its counter and the two sequence numbers; the window is under the mutex, the tests outside
  the critical section are not, so a step of either thread ends where the mutex is taken or
  released: \<open>cl_pc\<close> and \<open>consumer_pc\<close> are the program counters and \<open>cl_step\<close> the steps.  The few
  reads that make one request are one step.
\<close>

section \<open>The window\<close>

text \<open>The walk along the linked list: the new window and whether the segment was put in.\<close>

fun insert_segment :: "segment \<Rightarrow> segment list \<Rightarrow> segment list \<times> bool" where
  "insert_segment seg [] = ([seg], True)"
| "insert_segment seg (x # xs) =
     (if sequence_num x = sequence_num seg then (x # xs, False)
      else if sequence_num x > sequence_num seg then (seg # x # xs, True)
      else (let (ys, b) = insert_segment seg xs in (x # ys, b)))"

text \<open>
  The consumer's loop: segments that continue the acknowledged prefix are removed and printed.
  The result is the window, the counter, the last acknowledged number and what was printed.
\<close>

fun consume :: "segment list \<Rightarrow> int \<Rightarrow> int \<Rightarrow> segment list \<times> int \<times> int \<times> segment list" where
  "consume [] num acked = ([], num, acked, [])"
| "consume (x # xs) num acked =
     (if sequence_num x = acked + 1
      then (let (w, n, a, out) = consume xs (num - 1) (if acked < sequence_num x then sequence_num x else acked)
            in (w, n, a, x # out))
      else (x # xs, num, acked, []))"

text \<open>\<^verbatim>\<open>print_data\<close>, the earlier consumer (no longer called): empties the window whatever its order.\<close>

fun print_data :: "segment list \<Rightarrow> int \<Rightarrow> int \<Rightarrow> segment list \<times> int \<times> int \<times> segment list" where
  "print_data [] num acked = ([], num, acked, [])"
| "print_data (x # xs) num acked =
     (let (w, n, a, out) = print_data xs (num - 1) (if acked < sequence_num x then sequence_num x else acked)
      in (w, n, a, x # out))"

text \<open>\<^verbatim>\<open>printf("%.*s", UDP_PAYLOAD_SIZE, seg.payload)\<close>: up to the first zero byte.\<close>

definition printed_text :: "segment \<Rightarrow> byte list" where
  "printed_text seg = takeWhile (\<lambda>b. b \<noteq> 0) (take UDP_PAYLOAD_SIZE (payload seg))"

section \<open>The client\<close>

datatype cl_pc =
    Requesting
  | Requested int
  | Looping int bool
  | Blocked int bool
  | Inserting segment int bool
  | Classifying segment int bool
  | TimeWait
  | Exited

datatype consumer_pc = Sleeping | Testing | Ended

record client =
  recv_base :: "segment list"
  c_num_seg_in_buf :: int
  c_last_seg_acked :: int
  last_seg_in_transfer :: int
  pc :: cl_pc
  consumer :: consumer_pc
  printed :: "segment list"
  used_after_free :: bool

definition cl_init :: client where
  "cl_init = \<lparr>recv_base = [], c_num_seg_in_buf = 0, c_last_seg_acked = 0, last_seg_in_transfer = -1,
     pc = Requesting, consumer = Sleeping, printed = [], used_after_free = False\<rparr>"

text \<open>The request segment, and whether it announces the end of the transfer.\<close>

definition make_request :: "int \<Rightarrow> client \<Rightarrow> segment" where
  "make_request max_window_size c =
     (let seg = zero_segment\<lparr>ack_num := c_last_seg_acked c + 1, rwnd := max_window_size - c_num_seg_in_buf c\<rparr>
      in if last_seg_in_transfer c = c_last_seg_acked c
         then seg\<lparr>is_complete := 1, ack_num := last_seg_in_transfer c\<rparr> else seg)"

text \<open>The critical section of the main thread.\<close>

definition accept_segment :: "int \<Rightarrow> segment \<Rightarrow> client \<Rightarrow> client" where
  "accept_segment max_window_size seg c =
     (if c_num_seg_in_buf c < max_window_size
      then let (w, b) = insert_segment seg (recv_base c)
           in c\<lparr>recv_base := w, c_num_seg_in_buf := (if b then c_num_seg_in_buf c + 1 else c_num_seg_in_buf c)\<rparr>
      else c)"

text \<open>
  The consumer thread: one round with the mutex held, then the two tests without it.  The main thread
  frees \<^verbatim>\<open>recv_base\<close> when it leaves its loop, before it joins the consumer; a round after that uses
  the freed head of the list, and the model goes no further with that thread.
\<close>

definition consumer_round :: "client \<Rightarrow> client" where
  "consumer_round c =
     (if pc c = TimeWait then c\<lparr>used_after_free := True, consumer := Ended\<rparr>
      else let (w, n, a, out) = consume (recv_base c) (c_num_seg_in_buf c) (c_last_seg_acked c)
           in c\<lparr>recv_base := w, c_num_seg_in_buf := n, c_last_seg_acked := a, printed := printed c @ out,
                consumer := Testing\<rparr>)"

definition consumer_test :: "client \<Rightarrow> client" where
  "consumer_test c =
     (if last_seg_in_transfer c = c_last_seg_acked c \<or> c_last_seg_acked c = -1
      then c\<lparr>consumer := Ended\<rparr> else c\<lparr>consumer := Sleeping\<rparr>)"

text \<open>What the main thread does with a segment it has read and not simulated as lost.\<close>

definition classify_read :: "segment \<Rightarrow> int \<Rightarrow> bool \<Rightarrow> client \<Rightarrow> client" where
  "classify_read seg init_rwnd probe c =
     (if sequence_num seg = -1 \<and> ack_num seg = -1 then c\<lparr>c_last_seg_acked := -1, pc := Exited, consumer := Ended\<rparr>
      else if flag_set (is_probe seg) then c\<lparr>pc := Requesting\<rparr>
      else if sequence_num seg > c_last_seg_acked c then c\<lparr>pc := Inserting seg init_rwnd probe\<rparr>
      else c\<lparr>pc := Classifying seg init_rwnd probe\<rparr>)"

definition classify_done :: "segment \<Rightarrow> int \<Rightarrow> bool \<Rightarrow> client \<Rightarrow> client" where
  "classify_done seg init_rwnd probe c =
     (if flag_set (is_eof seg) then c\<lparr>last_seg_in_transfer := sequence_num seg, pc := Requesting\<rparr>
      else if flag_set (is_resent seg) then c\<lparr>pc := Requesting\<rparr>
      else if flag_set (is_last_in_iter seg) then c\<lparr>pc := Requesting\<rparr>
      else c\<lparr>pc := Looping (init_rwnd - 1) probe\<rparr>)"

text \<open>
  The events: the main thread goes on (\<open>MainStep\<close>, with the outcome of the simulated loss for what it
  sends and the byte of \<^verbatim>\<open>segBuf\<close> the TIME_WAIT encoder leaves unset), a datagram is read (with the
  outcome of the simulated loss), the consumer goes on, the TIME_WAIT alarm rings.  A step that is not
  possible in the current program counter is \<open>None\<close>; a step returns the datagram it sends, if any.
\<close>

datatype cl_event = MainStep bool | ReadDatagram "byte list" bool byte | ConsumerStep | AlarmRings

fun cl_step :: "int \<Rightarrow> client \<Rightarrow> cl_event \<Rightarrow> (client \<times> byte list option) option" where
  "cl_step maxw c (MainStep sent) =
     (case pc c of
        Requesting \<Rightarrow>
          (let req = make_request maxw c; out = (if sent then Some (encode_segment req) else None)
           in if flag_set (is_complete req) then Some (c\<lparr>pc := TimeWait\<rparr>, out)
              else Some (c\<lparr>pc := Requested (rwnd req)\<rparr>, out))
      | Requested rw \<Rightarrow>
          (if last_seg_in_transfer c = c_last_seg_acked c then Some (c\<lparr>pc := Requesting\<rparr>, None)
           else Some (c\<lparr>pc := Looping rw (rw = 0)\<rparr>, None))
      | Looping rw probe \<Rightarrow>
          (if (rw > 0 \<or> (rw = 0 \<and> probe)) \<and> last_seg_in_transfer c \<noteq> c_last_seg_acked c
           then Some (c\<lparr>pc := Blocked rw probe\<rparr>, None)
           else Some (c\<lparr>pc := Requesting\<rparr>, None))
      | Inserting seg rw probe \<Rightarrow>
          Some ((accept_segment maxw seg c)\<lparr>pc := Classifying seg rw probe\<rparr>, None)
      | Classifying seg rw probe \<Rightarrow> Some (classify_done seg rw probe c, None)
      | _ \<Rightarrow> None)"
| "cl_step maxw c (ReadDatagram bytes kept junk) =
     (case pc c of
        Blocked rw probe \<Rightarrow>
          (case decode_segment bytes of
             None \<Rightarrow> None
           | Some seg \<Rightarrow>
               if kept then Some (classify_read seg rw probe c, None)
               else Some (c\<lparr>pc := Looping (rw - 1) probe\<rparr>, None))
      | TimeWait \<Rightarrow>
          (if consumer c \<noteq> Ended then None
           else Some (c, if kept then Some (encode_time_wait (make_request maxw c) junk) else None))
      | _ \<Rightarrow> None)"
| "cl_step maxw c ConsumerStep =
     (case consumer c of
        Sleeping \<Rightarrow> Some (consumer_round c, None)
      | Testing \<Rightarrow> Some (consumer_test c, None)
      | Ended \<Rightarrow> None)"
| "cl_step maxw c AlarmRings =
     (if pc c = TimeWait \<and> consumer c = Ended then Some (c\<lparr>pc := Exited\<rparr>, None) else None)"

text \<open>A sequence of steps, each of which has to be possible.\<close>

fun cl_run :: "int \<Rightarrow> client \<Rightarrow> cl_event list \<Rightarrow> client option" where
  "cl_run maxw c [] = Some c"
| "cl_run maxw c (ev # evs) =
     (case cl_step maxw c ev of None \<Rightarrow> None | Some (c', out) \<Rightarrow> cl_run maxw c' evs)"

section \<open>The window as a reorder buffer\<close>

text \<open>
  What a receiver needs of its window: it keeps the first segment inserted under each number, and
  delivery hands out the longest run that continues the acknowledged prefix, and only that.
\<close>

locale reorder_buffer =
  fixes empty :: 'w
    and ins :: "'s \<Rightarrow> 'w \<Rightarrow> 'w"
    and deliver :: "'w \<Rightarrow> int \<Rightarrow> 'w \<times> 's list"
    and key :: "'s \<Rightarrow> int"
    and content :: "'w \<Rightarrow> int \<Rightarrow> 's option"
    and inv :: "'w \<Rightarrow> bool"
  assumes inv_empty: "inv empty"
    and content_empty: "content empty k = None"
    and inv_ins: "inv w \<Longrightarrow> inv (ins x w)"
    and content_ins: "inv w \<Longrightarrow>
      content (ins x w) k = (if k = key x \<and> content w k = None then Some x else content w k)"
    and content_key: "inv w \<Longrightarrow> content w k = Some x \<Longrightarrow> key x = k"
    and inv_deliver: "inv w \<Longrightarrow> deliver w a = (w', out) \<Longrightarrow> inv w'"
    and deliver_run: "inv w \<Longrightarrow> deliver w a = (w', out) \<Longrightarrow> map key out = [a + 1..a + int (length out)]"
    and deliver_sub: "inv w \<Longrightarrow> deliver w a = (w', out) \<Longrightarrow> content w' k = Some x \<Longrightarrow> content w k = Some x"
    and deliver_content: "inv w \<Longrightarrow> deliver w a = (w', out) \<Longrightarrow>
      (content w k = None \<or> a < k) \<Longrightarrow>
      content w' k = (if a < k \<and> k \<le> a + int (length out) then None else content w k)"
    and deliver_max: "inv w \<Longrightarrow> deliver w a = (w', out) \<Longrightarrow> (\<And>k. content w k \<noteq> None \<Longrightarrow> a < k) \<Longrightarrow>
      content w (a + int (length out) + 1) = None"
    and deliver_from: "inv w \<Longrightarrow> deliver w a = (w', out) \<Longrightarrow> x \<in> set out \<Longrightarrow> content w (key x) = Some x"
begin

text \<open>What was delivered is an initial run, without gaps or repetitions, of what was put in.\<close>

definition in_order :: "('s \<Rightarrow> bool) \<Rightarrow> 'w \<Rightarrow> int \<Rightarrow> 's list \<Rightarrow> bool" where
  "in_order P w a out \<longleftrightarrow> inv w \<and> map key out = [1..a] \<and> a = int (length out) \<and> (\<forall>x \<in> set out. P x)
     \<and> (\<forall>k x. content w k = Some x \<longrightarrow> P x)"

lemma in_order_empty: "in_order P empty 0 []"
  by (simp add: in_order_def inv_empty content_empty)

lemma in_order_ins: "in_order P w a out \<Longrightarrow> P x \<Longrightarrow> in_order P (ins x w) a out"
  by (auto simp: in_order_def inv_ins content_ins split: if_splits)

lemma in_order_deliver:
  assumes "in_order P w a out" and d: "deliver w a = (w', d)"
  shows "in_order P w' (a + int (length d)) (out @ d)"
proof -
  have w: "inv w" and a: "map key out = [1..a]" "a = int (length out)"
    and cont: "\<And>k x. content w k = Some x \<Longrightarrow> P x"
    using assms(1) by (auto simp: in_order_def)
  have "[1..a + int (length d)] = [1..a] @ [a + 1..a + int (length d)]"
    using a(2) upto_split2 [of 1 a "a + int (length d)"] by (cases "a = 0") auto
  then have "map key (out @ d) = [1..a + int (length d)]"
    using a(1) deliver_run [OF w d] by simp
  moreover have "\<forall>x \<in> set d. P x" using deliver_from [OF w d] cont by blast
  moreover have "\<forall>k x. content w' k = Some x \<longrightarrow> P x" using deliver_sub [OF w d] cont by blast
  ultimately show ?thesis
    using assms(1) inv_deliver [OF w d] by (auto simp: in_order_def)
qed

text \<open>Nothing in the window is already acknowledged.\<close>

definition fresh :: "'w \<Rightarrow> int \<Rightarrow> bool" where
  "fresh w a \<longleftrightarrow> (\<forall>k. content w k \<noteq> None \<longrightarrow> a < k)"

lemma fresh_ins: "inv w \<Longrightarrow> fresh w a \<Longrightarrow> a < key x \<Longrightarrow> fresh (ins x w) a"
  by (auto simp: fresh_def content_ins)

lemma fresh_deliver:
  assumes w: "inv w" and "fresh w a" and d: "deliver w a = (w', d)"
  shows "fresh w' (a + int (length d))"
  unfolding fresh_def
proof (intro allI impI)
  fix k assume k: "content w' k \<noteq> None"
  have "content w k = None \<or> a < k" using assms(2) by (auto simp: fresh_def)
  from deliver_content [OF w d this] k assms(2) show "a + int (length d) < k"
    by (auto simp: fresh_def split: if_splits)
qed

text \<open>Everything that continues the acknowledged prefix is delivered at once.\<close>

lemma deliver_all:
  assumes "inv w" "fresh w a" "deliver w a = (w', d)" and "\<And>k. a < k \<Longrightarrow> k \<le> n \<Longrightarrow> content w k \<noteq> None"
  shows "n \<le> a + int (length d)"
proof (rule ccontr)
  assume "\<not> n \<le> a + int (length d)"
  then show False
    using deliver_max [OF assms(1,3)] assms(4) [of "a + int (length d) + 1"] assms(2) by (auto simp: fresh_def)
qed

end

section \<open>The linked list is such a buffer\<close>

definition by_number :: "segment list \<Rightarrow> int \<Rightarrow> segment option" where
  "by_number w = map_of (map (\<lambda>x. (sequence_num x, x)) w)"

definition sorted_window :: "segment list \<Rightarrow> bool" where
  "sorted_window w \<longleftrightarrow> sorted_wrt (\<lambda>x y. sequence_num x < sequence_num y) w"

definition consume_window :: "segment list \<Rightarrow> int \<Rightarrow> segment list \<times> segment list" where
  "consume_window w a = (case consume w (int (length w)) a of (w', n, a', out) \<Rightarrow> (w', out))"

lemma by_number_simps [simp]:
  "by_number [] k = None"
  "by_number (x # xs) k = (if sequence_num x = k then Some x else by_number xs k)"
  by (simp_all add: by_number_def)

lemma by_number_Some: "by_number w k = Some x \<Longrightarrow> x \<in> set w \<and> sequence_num x = k"
  by (induction w) (auto split: if_splits)

lemma by_number_None: "by_number w k = None \<longleftrightarrow> k \<notin> sequence_num ` set w"
  by (induction w) auto

lemma sorted_window_simps [simp]:
  "sorted_window []"
  "sorted_window (x # xs) \<longleftrightarrow> (\<forall>y \<in> set xs. sequence_num x < sequence_num y) \<and> sorted_window xs"
  by (simp_all add: sorted_window_def)

lemma by_number_mem: "sorted_window w \<Longrightarrow> x \<in> set w \<Longrightarrow> by_number w (sequence_num x) = Some x"
  by (induction w) (auto dest: less_imp_neq)

lemma insert_segment_length:
  "insert_segment seg w = (w', b) \<Longrightarrow> length w' = length w + (if b then 1 else 0)"
  by (induction seg w arbitrary: w' b rule: insert_segment.induct)
    (auto simp: Let_def split: if_splits prod.splits)

lemma insert_segment_set:
  "set (fst (insert_segment seg w)) = (if snd (insert_segment seg w) then insert seg (set w) else set w)"
  by (induction seg w rule: insert_segment.induct) (auto simp: Let_def case_prod_unfold)

lemma insert_segment_sorted: "sorted_window w \<Longrightarrow> sorted_window (fst (insert_segment seg w))"
proof (induction seg w rule: insert_segment.induct)
  case (2 seg x xs)
  then show ?case
    using insert_segment_set [of seg xs] by (auto simp: Let_def case_prod_unfold split: if_splits)
qed simp

lemma insert_segment_flag:
  "sorted_window w \<Longrightarrow> snd (insert_segment seg w) \<longleftrightarrow> sequence_num seg \<notin> sequence_num ` set w"
proof (induction seg w rule: insert_segment.induct)
  case (2 seg x xs)
  then show ?case by (auto simp: Let_def case_prod_unfold)
qed simp

lemma insert_segment_by_number:
  assumes "sorted_window w"
  shows "by_number (fst (insert_segment seg w)) k =
    (if k = sequence_num seg \<and> by_number w k = None then Some seg else by_number w k)"
  using assms
proof (induction seg w rule: insert_segment.induct)
  case (2 seg x xs)
  show ?case
  proof (cases "sequence_num x > sequence_num seg")
    case True
    then have "by_number xs (sequence_num seg) = None"
      using 2(2) by (force simp: by_number_None)
    with True show ?thesis by auto
  next
    case False
    then show ?thesis using 2 by (auto simp: Let_def case_prod_unfold)
  qed
qed simp

lemma consume_spec:
  "consume w n a = (w', n', a', out) \<Longrightarrow>
     w = out @ w' \<and> n' = n - int (length out) \<and> a' = a + int (length out) \<and>
     map sequence_num out = [a + 1..a + int (length out)] \<and>
     (w' = [] \<or> sequence_num (hd w') \<noteq> a' + 1)"
proof (induction w n a arbitrary: w' n' a' out rule: consume.induct)
  case (2 x xs num acked)
  show ?case
  proof (cases "sequence_num x = acked + 1")
    case True
    then obtain out1 where c: "consume xs (num - 1) (acked + 1) = (w', n', a', out1)" and out: "out = x # out1"
      using 2(2) by (auto simp: Let_def split: prod.splits)
    have "consume xs (num - 1) (if acked < sequence_num x then sequence_num x else acked) = (w', n', a', out1)"
      using c True by simp
    from 2(1) [OF True this] True show ?thesis
      by (auto simp: out upto.simps [of "1 + acked"] algebra_simps)
  next
    case False
    then show ?thesis using 2(2) by auto
  qed
qed simp

lemma consume_window_spec:
  assumes "consume_window w a = (w', out)"
  shows "w = out @ w'" and "map sequence_num out = [a + 1..a + int (length out)]"
    and "w' = [] \<or> sequence_num (hd w') \<noteq> a + int (length out) + 1"
  using assms consume_spec [of w "int (length w)" a] by (auto simp: consume_window_def split: prod.splits)

lemma sorted_window_append:
  "sorted_window (xs @ ys) \<longleftrightarrow> sorted_window xs \<and> sorted_window ys \<and>
     (\<forall>x \<in> set xs. \<forall>y \<in> set ys. sequence_num x < sequence_num y)"
  by (auto simp: sorted_window_def sorted_wrt_append)

lemma by_number_append:
  "by_number (xs @ ys) k = (case by_number xs k of None \<Rightarrow> by_number ys k | Some x \<Rightarrow> Some x)"
  by (induction xs) auto

lemma run_numbers: "map sequence_num out = [a + 1..b] \<Longrightarrow> by_number out k = None \<longleftrightarrow> \<not> (a < k \<and> k \<le> b)"
  by (metis (no_types, lifting) atLeastAtMost_iff by_number_None list.set_map set_upto zless_imp_add1_zle zle_add1_eq_le
      add1_zle_eq)

interpretation window: reorder_buffer "[]" "\<lambda>x w. fst (insert_segment x w)" consume_window sequence_num
    by_number sorted_window
proof
  fix w a w' out k
  assume w: "sorted_window w" and d: "consume_window w a = (w', out)"
  note spec = consume_window_spec [OF d]
  have srt: "sorted_window out" "sorted_window w'"
    "\<And>x y. x \<in> set out \<Longrightarrow> y \<in> set w' \<Longrightarrow> sequence_num x < sequence_num y"
    using w by (auto simp: spec(1) sorted_window_append)
  show "sorted_window w'" by (rule srt)
  show "map sequence_num out = [a + 1..a + int (length out)]" by (rule spec)
  have none: "by_number out k = None \<longleftrightarrow> \<not> (a < k \<and> k \<le> a + int (length out))" for k
    by (rule run_numbers [OF spec(2)])
  have over: "by_number w' k = None" if hit: "by_number out k \<noteq> None" for k
  proof -
    obtain x where "x \<in> set out" "sequence_num x = k" using hit unfolding by_number_None by auto
    then show ?thesis using srt(3) [of x] by (force simp: by_number_None)
  qed
  show "by_number w' k = Some x \<Longrightarrow> by_number w k = Some x" for x
    using over [of k] by (auto simp: spec(1) by_number_append split: option.splits)
  show "by_number w' k = (if a < k \<and> k \<le> a + int (length out) then None else by_number w k)"
    using none [of k] over [of k] by (auto simp: spec(1) by_number_append split: option.splits)
  show "by_number w (a + int (length out) + 1) = None" if lo: "\<And>k. by_number w k \<noteq> None \<Longrightarrow> a < k"
  proof (cases w')
    case Nil
    then show ?thesis using none by (simp add: spec(1) by_number_append)
  next
    case (Cons y ys)
    have "by_number w (sequence_num y) = Some y"
      using w by (simp add: by_number_mem spec(1) Cons)
    then have "a < sequence_num y" using lo by auto
    moreover have "by_number out (sequence_num y) = None"
      using over [of "sequence_num y"] by (cases "by_number out (sequence_num y)") (auto simp: Cons)
    ultimately have "a + int (length out) + 1 < sequence_num y"
      using none [of "sequence_num y"] spec(3) Cons by auto
    then have "by_number w' (a + int (length out) + 1) = None"
      using srt(2) by (force simp: Cons by_number_None)
    then show ?thesis using none [of "a + int (length out) + 1"] by (simp add: spec(1) by_number_append)
  qed
  show "by_number w (sequence_num x) = Some x" if "x \<in> set out" for x
    using that w by (simp add: by_number_mem spec(1))
next
  show "by_number w k = Some x \<Longrightarrow> sequence_num x = k" for w k x by (simp add: by_number_Some)
qed (simp_all add: insert_segment_sorted insert_segment_by_number)

section \<open>The client's invariant\<close>

text \<open>
  For a property \<open>P\<close> of the segments read: the counter counts the window, the window holds at most
  \<open>maxw\<close> segments in ascending order, what was printed are the segments \<open>1..c_last_seg_acked\<close>, and all
  of them satisfy \<open>P\<close>.  After "file not found" the process is gone.
\<close>

definition cl_inv :: "int \<Rightarrow> (segment \<Rightarrow> bool) \<Rightarrow> client \<Rightarrow> bool" where
  "cl_inv maxw P c \<longleftrightarrow> c_num_seg_in_buf c = int (length (recv_base c)) \<and> c_num_seg_in_buf c \<le> maxw
     \<and> (\<forall>seg rw pr. pc c = Inserting seg rw pr \<longrightarrow> P seg)
     \<and> (if c_last_seg_acked c = -1
        then pc c = Exited \<and> consumer c = Ended \<and> (\<exists>a. map sequence_num (printed c) = [1..a])
        else window.in_order P (recv_base c) (c_last_seg_acked c) (printed c))"

lemma cl_init_inv: "0 \<le> maxw \<Longrightarrow> cl_inv maxw P cl_init"
  by (simp add: cl_inv_def cl_init_def window.in_order_empty)

lemma in_order_nonneg: "window.in_order P w a out \<Longrightarrow> 0 \<le> a"
  by (simp add: window.in_order_def)

lemma accept_segment_inv:
  assumes "cl_inv maxw P c" and "P seg" and "pc c \<noteq> Exited"
  shows "cl_inv maxw P ((accept_segment maxw seg c)\<lparr>pc := Classifying seg rw pr\<rparr>)"
proof -
  obtain w b where w: "insert_segment seg (recv_base c) = (w, b)" by fastforce
  have "window.in_order P w (c_last_seg_acked c) (printed c)"
    using assms window.in_order_ins [of P "recv_base c" _ _ seg] w by (auto simp: cl_inv_def split: if_splits)
  with insert_segment_length [OF w] assms in_order_nonneg [OF this] show ?thesis
    by (auto simp: cl_inv_def accept_segment_def w Let_def split: if_splits)
qed

lemma consumer_round_inv:
  assumes "cl_inv maxw P c" and "consumer c \<noteq> Ended"
  shows "cl_inv maxw P (consumer_round c)"
proof (cases "pc c = TimeWait")
  case True
  then show ?thesis using assms by (auto simp: cl_inv_def consumer_round_def split: if_splits)
next
  case False
  obtain w n a out where r: "consume (recv_base c) (c_num_seg_in_buf c) (c_last_seg_acked c) = (w, n, a, out)"
    by (metis prod_cases4)
  then have "consume_window (recv_base c) (c_last_seg_acked c) = (w, out)"
    using assms(1) by (simp add: consume_window_def cl_inv_def)
  then have "window.in_order P w (c_last_seg_acked c + int (length out)) (printed c @ out)"
    using assms window.in_order_deliver by (auto simp: cl_inv_def split: if_splits)
  moreover have "consumer_round c = c\<lparr>recv_base := w, c_num_seg_in_buf := n, c_last_seg_acked := a,
      printed := printed c @ out, consumer := Testing\<rparr>"
    using False by (simp add: consumer_round_def r)
  ultimately show ?thesis
    using consume_spec [OF r] assms in_order_nonneg by (fastforce simp: cl_inv_def split: if_splits)
qed

lemma cl_inv_inserting: "cl_inv maxw P c \<Longrightarrow> pc c = Inserting seg rw pr \<Longrightarrow> P seg"
  by (simp add: cl_inv_def)

lemma cl_inv_pc:
  assumes "cl_inv maxw P c" and "pc c \<noteq> Exited" and "\<And>seg rw pr. q = Inserting seg rw pr \<Longrightarrow> P seg"
  shows "cl_inv maxw P (c\<lparr>pc := q\<rparr>)"
  using assms by (auto simp: cl_inv_def)

lemma classify_done_inv: "cl_inv maxw P c \<Longrightarrow> pc c \<noteq> Exited \<Longrightarrow> cl_inv maxw P (classify_done seg rw pr c)"
  by (auto simp: cl_inv_def classify_done_def)

lemma classify_read_inv:
  "cl_inv maxw P c \<Longrightarrow> pc c \<noteq> Exited \<Longrightarrow> (c_last_seg_acked c < sequence_num seg \<Longrightarrow> P seg) \<Longrightarrow>
     cl_inv maxw P (classify_read seg rw pr c)"
  by (auto simp: cl_inv_def classify_read_def window.in_order_def split: if_splits)

lemma consumer_test_inv: "cl_inv maxw P c \<Longrightarrow> cl_inv maxw P (consumer_test c)"
  by (auto simp: cl_inv_def consumer_test_def)

lemma cl_step_inv:
  assumes "cl_inv maxw P c" and "cl_step maxw c ev = Some (c', out)"
    and "\<And>bytes kept junk seg. ev = ReadDatagram bytes kept junk \<Longrightarrow> decode_segment bytes = Some seg \<Longrightarrow>
      c_last_seg_acked c < sequence_num seg \<Longrightarrow> P seg"
  shows "cl_inv maxw P c'"
proof (cases ev)
  case (MainStep sent)
  then show ?thesis
    using assms(1,2) accept_segment_inv [OF assms(1)] cl_inv_inserting [OF assms(1)]
    by (cases "pc c") (auto simp: Let_def classify_done_inv intro: cl_inv_pc split: if_splits)
next
  case (ReadDatagram bytes kept junk)
  then show ?thesis
    using assms
    by (cases "pc c") (auto intro: cl_inv_pc classify_read_inv split: option.splits if_splits)
next
  case ConsumerStep
  then show ?thesis
    using assms(1,2) consumer_round_inv [OF assms(1)]
    by (cases "consumer c") (auto simp: consumer_test_inv)
next
  case AlarmRings
  then show ?thesis using assms(1,2) by (auto simp: cl_inv_def split: if_splits)
qed

lemma cl_run_inv:
  assumes "cl_inv maxw P c" and "cl_run maxw c evs = Some c'"
    and "\<And>bytes kept junk seg. ReadDatagram bytes kept junk \<in> set evs \<Longrightarrow> decode_segment bytes = Some seg \<Longrightarrow> P seg"
  shows "cl_inv maxw P c'"
  using assms
proof (induction evs arbitrary: c)
  case Nil
  then show ?case by simp
next
  case (Cons ev evs)
  then obtain c1 out where s: "cl_step maxw c ev = Some (c1, out)" and r: "cl_run maxw c1 evs = Some c'"
    by (auto split: option.splits)
  have "cl_inv maxw P c1" using cl_step_inv [OF Cons.prems(1) s] Cons.prems(3) by auto
  from Cons.IH [OF this r] Cons.prems(3) show ?case by auto
qed

lemma cl_reach_inv: "cl_run maxw cl_init evs = Some c \<Longrightarrow> 0 \<le> maxw \<Longrightarrow> cl_inv maxw (\<lambda>_. True) c"
  by (rule cl_run_inv [OF cl_init_inv]) simp_all

lemma cl_inv_printed:
  assumes "cl_inv maxw P c"
  shows "\<exists>a. map sequence_num (printed c) = [1..a] \<and> (c_last_seg_acked c = a \<or> c_last_seg_acked c = -1 \<and> pc c = Exited)"
    and "c_last_seg_acked c \<noteq> -1 \<Longrightarrow> x \<in> set (printed c) \<Longrightarrow> P x"
    and "c_num_seg_in_buf c = int (length (recv_base c))" and "c_num_seg_in_buf c \<le> maxw"
  using assms by (auto simp: cl_inv_def window.in_order_def split: if_splits)

lemma cl_inv_order:
  "cl_inv maxw P c \<Longrightarrow> c_last_seg_acked c \<noteq> -1 \<Longrightarrow>
     window.in_order P (recv_base c) (c_last_seg_acked c) (printed c)"
  by (simp add: cl_inv_def)

section \<open>What the client guarantees\<close>

text \<open>
  C3 (in-order delivery).  Whatever datagrams arrive, in whatever order, repeated or lost, and however the
  two threads interleave: the client prints segments with the numbers \<open>1, 2, 3, \<dots>\<close> without gap or
  repetition, each of them read from the socket, up to the number it acknowledges; and the window never
  holds more than \<open>maxw\<close> segments, so that the advertised window is never negative.
\<close>

theorem client_in_order:
  assumes "cl_run maxw cl_init evs = Some c" and "0 \<le> maxw"
  shows "(\<exists>a. map sequence_num (printed c) = [1..a] \<and> (c_last_seg_acked c = a \<or> c_last_seg_acked c = -1 \<and> pc c = Exited))
    \<and> (c_last_seg_acked c \<noteq> -1 \<longrightarrow>
        (\<forall>x \<in> set (printed c). \<exists>bytes kept junk. ReadDatagram bytes kept junk \<in> set evs \<and> decode_segment bytes = Some x))
    \<and> c_num_seg_in_buf c = int (length (recv_base c)) \<and> 0 \<le> rwnd (make_request maxw c)"
proof -
  let ?P = "\<lambda>x. \<exists>bytes kept junk. ReadDatagram bytes kept junk \<in> set evs \<and> decode_segment bytes = Some x"
  have i: "cl_inv maxw ?P c"
    by (rule cl_run_inv [OF cl_init_inv [OF assms(2)] assms(1)]) (intro exI conjI)
  have "rwnd (make_request maxw c) = maxw - c_num_seg_in_buf c"
    by (simp add: make_request_def Let_def)
  then have "0 \<le> rwnd (make_request maxw c)" using cl_inv_printed(4) [OF i] by linarith
  with cl_inv_printed(1-3) [OF i] show ?thesis by blast
qed

text \<open>Two segments that arrive in the wrong order and one of them twice.\<close>

definition seg_n :: "int \<Rightarrow> segment" where
  "seg_n n = zero_segment\<lparr>sequence_num := n\<rparr>"

definition read_seg :: "segment \<Rightarrow> cl_event list" where
  "read_seg s = [MainStep True, ReadDatagram (encode_segment s) True 0, MainStep True, MainStep True]"

lemma seg_n_simps [simp]:
  "sequence_num (seg_n n) = n" "ack_num (seg_n n) = 0" "is_probe (seg_n n) = 0" "is_eof (seg_n n) = 0"
  "is_resent (seg_n n) = 0" "is_last_in_iter (seg_n n) = 0"
  by (simp_all add: seg_n_def zero_segment_def)

lemma decode_seg_n [simp]: "int32 n \<Longrightarrow> decode_segment (encode_segment (seg_n n)) = Some (seg_n n)"
  by (rule decode_encode) (simp add: wf_segment_def seg_n_def zero_segment_def int32_def)

lemma int32_small [simp]: "int32 0" "int32 1" "int32 2" "int32 (-1)" "int32 (numeral k) \<longleftrightarrow> numeral k < (2 ^ 31 :: int)"
  by (simp_all add: int32_def)

lemma make_request_sel [simp]:
  "rwnd (make_request maxw c) = maxw - c_num_seg_in_buf c"
  "flag_set (is_complete (make_request maxw c)) \<longleftrightarrow> last_seg_in_transfer c = c_last_seg_acked c"
  by (simp_all add: make_request_def Let_def zero_segment_def)

lemmas cl_run_simps = cl_init_def Let_def classify_read_def classify_done_def accept_segment_def
  consumer_round_def consumer_test_def read_seg_def

theorem client_in_order_witness:
  "\<exists>c. cl_run 4 cl_init ([MainStep True, MainStep True] @ read_seg (seg_n 2) @ read_seg (seg_n 1) @ read_seg (seg_n 2)
       @ [ConsumerStep]) = Some c \<and> map sequence_num (printed c) = [1..2] \<and> printed c = [seg_n 1, seg_n 2]"
proof -
  let ?evs = "[MainStep True, MainStep True] @ read_seg (seg_n 2) @ read_seg (seg_n 1) @ read_seg (seg_n 2) @ [ConsumerStep]"
  have "\<exists>c. cl_run 4 cl_init ?evs = Some c \<and> printed c = [seg_n 1, seg_n 2] \<and> c_last_seg_acked c = 2"
    by (simp add: cl_run_simps)
  then obtain c where c: "cl_run 4 cl_init ?evs = Some c" "printed c = [seg_n 1, seg_n 2]" "c_last_seg_acked c = 2"
    by blast
  with client_in_order [OF c(1)] show ?thesis by auto
qed

text \<open>
  Progress of the consumer.  When nothing in the window is stale, one round of the consumer prints
  every segment up to the first missing one: if all numbers up to \<open>n\<close> are buffered, it acknowledges \<open>n\<close>.
\<close>

theorem consumer_delivers_run:
  assumes "cl_run maxw cl_init evs = Some c" and "0 \<le> maxw"
    and "consumer c = Sleeping" and "pc c \<noteq> TimeWait" and "\<forall>x \<in> set (recv_base c). c_last_seg_acked c < sequence_num x"
    and "\<forall>k. c_last_seg_acked c < k \<and> k \<le> n \<longrightarrow> k \<in> sequence_num ` set (recv_base c)"
  shows "\<exists>c'. cl_step maxw c ConsumerStep = Some (c', None) \<and> n \<le> c_last_seg_acked c'
    \<and> map sequence_num (printed c') = [1..c_last_seg_acked c']
    \<and> (\<forall>x \<in> set (recv_base c'). c_last_seg_acked c' + 1 < sequence_num x)"
proof -
  note i = cl_reach_inv [OF assms(1,2)]
  obtain w m a out where r: "consume (recv_base c) (c_num_seg_in_buf c) (c_last_seg_acked c) = (w, m, a, out)"
    by (metis prod_cases4)
  then have d: "consume_window (recv_base c) (c_last_seg_acked c) = (w, out)" and a: "a = c_last_seg_acked c + int (length out)"
    using cl_inv_printed(3) [OF i] consume_spec [OF r] by (simp_all add: consume_window_def)
  have s: "sorted_window (recv_base c)" "c_last_seg_acked c \<noteq> -1"
    using i assms(3) by (auto simp: cl_inv_def window.in_order_def split: if_splits)
  have f: "window.fresh (recv_base c) (c_last_seg_acked c)"
    using assms(5) by (fastforce simp: window.fresh_def dest: by_number_Some)
  have n: "n \<le> a"
    unfolding a by (rule window.deliver_all [OF s(1) f d]) (use assms(6) by_number_None in blast)
  have "c_last_seg_acked c < k" if "by_number (recv_base c) k \<noteq> None" for k
    using that f unfolding window.fresh_def by blast
  then have "by_number (recv_base c) (a + 1) = None"
    using window.deliver_max [OF s(1) d] unfolding a by blast
  moreover have "window.fresh w a" using window.fresh_deliver [OF s(1) f d] by (simp add: a)
  moreover have "by_number w (sequence_num x) = Some x" if "x \<in> set w" for x
    using that window.inv_deliver [OF s(1) d] by (simp add: by_number_mem)
  ultimately have "\<forall>x \<in> set w. a + 1 < sequence_num x"
    using window.deliver_sub [OF s(1) d] unfolding window.fresh_def
    by (metis option.distinct(1) add1_zle_eq order_le_less)
  moreover have c': "cl_step maxw c ConsumerStep = Some (c\<lparr>recv_base := w, c_num_seg_in_buf := m, c_last_seg_acked := a,
      printed := printed c @ out, consumer := Testing\<rparr>, None)" (is "_ = Some (?c', None)")
    using assms(3,4) by (simp add: consumer_round_def r)
  moreover have "cl_inv maxw (\<lambda>_. True) ?c'" using cl_step_inv [OF i c'] by simp
  ultimately show ?thesis using n by (auto simp: cl_inv_def window.in_order_def split: if_splits)
qed

theorem consumer_delivers_run_witness:
  "\<exists>c c'. cl_run 4 cl_init ([MainStep True, MainStep True] @ read_seg (seg_n 2) @ read_seg (seg_n 1)) = Some c
     \<and> cl_step 4 c ConsumerStep = Some (c', None) \<and> 2 \<le> c_last_seg_acked c'"
proof -
  let ?evs = "[MainStep True, MainStep True] @ read_seg (seg_n 2) @ read_seg (seg_n 1)"
  have "\<exists>c. cl_run 4 cl_init ?evs = Some c \<and> recv_base c = [seg_n 1, seg_n 2] \<and> c_last_seg_acked c = 0
      \<and> consumer c = Sleeping \<and> pc c \<noteq> TimeWait"
    by (simp add: cl_run_simps)
  then obtain c where c: "cl_run 4 cl_init ?evs = Some c" "recv_base c = [seg_n 1, seg_n 2]" "c_last_seg_acked c = 0"
    "consumer c = Sleeping" "pc c \<noteq> TimeWait" by blast
  have "\<forall>k. c_last_seg_acked c < k \<and> k \<le> 2 \<longrightarrow> k \<in> sequence_num ` set (recv_base c)"
    using c by (auto simp: image_iff)
  with consumer_delivers_run [OF c(1) _ c(4,5)] c show ?thesis by (fastforce simp del: cl_run.simps)
qed

text \<open>A segment at the head of the window that is acknowledged already; or the process is gone.\<close>

definition stale_head :: "client \<Rightarrow> bool" where
  "stale_head c \<longleftrightarrow> (\<exists>x xs. recv_base c = x # xs \<and> sequence_num x \<le> c_last_seg_acked c)"

lemma insert_segment_head:
  "sequence_num (hd (fst (insert_segment seg (x # xs)))) \<le> sequence_num x \<and> fst (insert_segment seg (x # xs)) \<noteq> []"
  by (auto simp: Let_def split: prod.splits)

definition stuck :: "client \<Rightarrow> bool" where
  "stuck c \<longleftrightarrow> stale_head c \<or> pc c = Exited \<and> consumer c = Ended"

lemma accept_segment_sel [simp]:
  "printed (accept_segment maxw seg c) = printed c" "c_last_seg_acked (accept_segment maxw seg c) = c_last_seg_acked c"
  by (simp_all add: accept_segment_def Let_def case_prod_unfold)

lemma accept_segment_stale: "stale_head c \<Longrightarrow> stale_head ((accept_segment maxw seg c)\<lparr>pc := q\<rparr>)"
proof -
  assume "stale_head c"
  then obtain x xs where x: "recv_base c = x # xs" "sequence_num x \<le> c_last_seg_acked c"
    by (auto simp: stale_head_def)
  then show ?thesis
    using insert_segment_head [of seg x xs]
    by (cases "fst (insert_segment seg (x # xs))")
      (auto simp: stale_head_def accept_segment_def Let_def case_prod_unfold)
qed

lemma consumer_round_stale:
  "stale_head c \<Longrightarrow> stale_head (consumer_round c) \<and> printed (consumer_round c) = printed c
     \<and> c_last_seg_acked (consumer_round c) = c_last_seg_acked c"
  by (auto simp: stale_head_def consumer_round_def)

lemma stale_head_pc [simp]: "stale_head (c\<lparr>pc := q\<rparr>) = stale_head c" "stale_head (c\<lparr>consumer := p\<rparr>) = stale_head c"
  "stale_head (c\<lparr>last_seg_in_transfer := n\<rparr>) = stale_head c"
  by (simp_all add: stale_head_def)

lemma stuck_step:
  assumes "stuck c" and "cl_step maxw c ev = Some (c', out)"
  shows "stuck c' \<and> printed c' = printed c \<and> (c_last_seg_acked c' = c_last_seg_acked c \<or> c_last_seg_acked c' = -1)"
proof (cases "stale_head c")
  case True
  note facts = True accept_segment_stale [OF True] consumer_round_stale [OF True]
  show ?thesis
  proof (cases ev)
    case (MainStep sent)
    with assms(2) facts show ?thesis
      by (cases "pc c") (auto simp: stuck_def Let_def classify_done_def split: if_splits)
  next
    case (ReadDatagram bytes kept junk)
    with assms(2) facts show ?thesis
      by (cases "pc c") (auto simp: stuck_def classify_read_def split: if_splits option.splits)
  next
    case ConsumerStep
    with assms(2) facts show ?thesis
      by (cases "consumer c") (auto simp: stuck_def consumer_test_def split: if_splits)
  next
    case AlarmRings
    with assms(2) facts show ?thesis by (auto simp: stuck_def split: if_splits)
  qed
next
  case False
  with assms show ?thesis by (cases ev) (auto simp: stuck_def)
qed

lemma stuck_run:
  "stuck c \<Longrightarrow> cl_run maxw c evs = Some c' \<Longrightarrow>
     printed c' = printed c \<and> (c_last_seg_acked c' = c_last_seg_acked c \<or> c_last_seg_acked c' = -1)"
proof (induction evs arbitrary: c)
  case (Cons ev evs)
  then obtain c1 out where "cl_step maxw c ev = Some (c1, out)" "cl_run maxw c1 evs = Some c'"
    by (auto split: option.splits)
  with Cons.IH stuck_step [OF Cons.prems(1)] show ?case by metis
qed simp

text \<open>
  C38 (lost wake-up of the window).  The test \<^verbatim>\<open>seg.sequence_num > last_seg_acked\<close> is made before the mutex is
  taken.  If the consumer acknowledges the segment in between, a segment that was printed already is put at
  the head of the window; from then on no step of either thread prints anything or acknowledges anything,
  whatever arrives: the transfer hangs.
\<close>

theorem stale_segment_blocks:
  assumes "stale_head c" and "cl_run maxw c evs = Some c'"
  shows "printed c' = printed c \<and> c_last_seg_acked c' \<in> {c_last_seg_acked c, -1}"
  using stuck_run [of c] assms by (auto simp: stuck_def)

text \<open>The state is reached: segment 1 is read twice and the consumer runs between the test and the lock.\<close>

theorem stale_segment_blocks_witness:
  "\<exists>c. cl_run 4 cl_init ([MainStep True, MainStep True] @ read_seg (seg_n 1)
        @ [MainStep True, ReadDatagram (encode_segment (seg_n 1)) True 0, ConsumerStep, MainStep True]) = Some c
     \<and> stale_head c \<and> printed c = [seg_n 1]
     \<and> (\<forall>evs c'. cl_run 4 c evs = Some c' \<longrightarrow> printed c' = [seg_n 1])"
proof -
  let ?evs = "[MainStep True, MainStep True] @ read_seg (seg_n 1)
      @ [MainStep True, ReadDatagram (encode_segment (seg_n 1)) True 0, ConsumerStep, MainStep True]"
  have "\<exists>c. cl_run 4 cl_init ?evs = Some c \<and> stale_head c \<and> printed c = [seg_n 1]"
    by (simp add: cl_run_simps stale_head_def)
  then obtain c where c: "cl_run 4 cl_init ?evs = Some c" "stale_head c" "printed c = [seg_n 1]" by blast
  have "printed c' = [seg_n 1]" if "cl_run 4 c evs = Some c'" for evs c'
    using stale_segment_blocks [OF c(2) that] c(3) by simp
  with c show ?thesis by blast
qed

text \<open>
  The window is freed under the consumer.  The main thread frees \<^verbatim>\<open>recv_base\<close> before it joins the
  consumer.  When the consumer prints the last segment between its insertion and the assignment of
  \<^verbatim>\<open>last_seg_in_transfer\<close>, and tests before that assignment, its next round walks over freed memory: for every
  last segment with number 1, in a window of any positive size.
\<close>

theorem freed_window_used:
  assumes "wf_segment seg" and "sequence_num seg = 1" and "flag_set (is_eof seg)" and "is_probe seg = 0" and "0 < maxw"
  shows "\<exists>c. cl_run maxw cl_init [MainStep True, MainStep True, MainStep True, ReadDatagram (encode_segment seg) True 0,
      MainStep True, ConsumerStep, ConsumerStep, MainStep True, MainStep True, ConsumerStep] = Some c
    \<and> used_after_free c \<and> printed c = [seg]"
  using assms by (simp add: cl_run_simps decode_encode)

theorem freed_window_used_witness:
  "\<exists>c. cl_run 4 cl_init [MainStep True, MainStep True, MainStep True,
      ReadDatagram (encode_segment (zero_segment\<lparr>sequence_num := 1, is_eof := 1\<rparr>)) True 0,
      MainStep True, ConsumerStep, ConsumerStep, MainStep True, MainStep True, ConsumerStep] = Some c
    \<and> used_after_free c \<and> printed c = [zero_segment\<lparr>sequence_num := 1, is_eof := 1\<rparr>]"
  by (rule freed_window_used) (simp_all add: wf_segment_def zero_segment_def)

end
