(* ===== verification/File_Transfer.thy ===== *)
theory File_Transfer
  imports Udp_Server Udp_Client
begin

text \<open>
  The file transfer as a whole: the server's loop (theory \<open>Udp_Server\<close>) and the two threads of the
  client (theory \<open>Udp_Client\<close>) over a network that loses, repeats, delays and reorders datagrams.
  Each direction of the network is the set of the datagrams ever sent in it; a read takes any of them.
  The invariant \<open>sys_ok\<close> holds in every reachable state; theory \<open>Transfer_Liveness\<close> has the theorems.
\<close>

section \<open>The system\<close>

record system =
  sys_server :: srv_result
  sys_client :: client
  to_client :: "byte list set"
  to_server :: "byte list set"

definition sys_init :: "int \<Rightarrow> int \<Rightarrow> system" where
  "sys_init garbage init_time = \<lparr>sys_server = Running (srv_init garbage init_time) [], sys_client = cl_init,
     to_client = {}, to_server = {}\<rparr>"

text \<open>The segments a pass has sent.\<close>

fun srv_sent :: "srv_result \<Rightarrow> segment list" where
  "srv_sent (Running s out) = out"
| "srv_sent _ = []"

text \<open>The clock values are \<^verbatim>\<open>int\<close>s, and a request is one of the datagrams on the way.\<close>

fun srv_event_ok :: "byte list set \<Rightarrow> srv_event \<Rightarrow> bool" where
  "srv_event_ok net Interrupted = True"
| "srv_event_ok net (TimerOff now) = int32 now"
| "srv_event_ok net (RequestIn t clk bytes) = ((\<forall>k. int32 (clk k)) \<and> bytes \<in> net)"

fun cl_event_ok :: "byte list set \<Rightarrow> cl_event \<Rightarrow> bool" where
  "cl_event_ok net (ReadDatagram bytes kept junk) = (bytes \<in> net)"
| "cl_event_ok net _ = True"

inductive transfer_step :: "byte list \<Rightarrow> int \<Rightarrow> int \<Rightarrow> system \<Rightarrow> system \<Rightarrow> bool"
  for dat :: "byte list" and maxBuf maxw :: int where
  server_step: "sys_server y = Running s out \<Longrightarrow> srv_event_ok (to_server y) ev \<Longrightarrow>
    srv_iter (Some dat) maxBuf s ev = r \<Longrightarrow>
    transfer_step dat maxBuf maxw y
      (y\<lparr>sys_server := r, to_client := to_client y \<union> encode_segment ` set (srv_sent r)\<rparr>)"
| client_step: "cl_event_ok (to_client y) ev \<Longrightarrow> cl_step maxw (sys_client y) ev = Some (c, out) \<Longrightarrow>
    transfer_step dat maxBuf maxw y (y\<lparr>sys_client := c, to_server := to_server y \<union> set_option out\<rparr>)"

definition reachable :: "byte list \<Rightarrow> int \<Rightarrow> int \<Rightarrow> system \<Rightarrow> bool" where
  "reachable dat maxBuf maxw y \<longleftrightarrow> (\<exists>g t. (transfer_step dat maxBuf maxw)\<^sup>*\<^sup>* (sys_init g t) y)"

section \<open>The invariant\<close>

text \<open>
  A segment on its way to the client is a segment of the file, or the dummy the server repeats when its
  window is empty, whose number the client has acknowledged.
\<close>

definition data_ok :: "byte list \<Rightarrow> int \<Rightarrow> segment \<Rightarrow> bool" where
  "data_ok dat a seg \<longleftrightarrow> carries_chunk dat seg
     \<or> 0 \<le> sequence_num seg \<and> sequence_num seg \<le> a \<and> \<not> flag_set (is_eof seg)"

text \<open>A request on its way to the server asks for an existing segment or says that all were printed.\<close>

definition request_ok :: "byte list \<Rightarrow> int \<Rightarrow> segment \<Rightarrow> bool" where
  "request_ok dat a req \<longleftrightarrow>
     (if flag_set (is_complete req) then a = num_segments dat
      else 1 \<le> ack_num req \<and> ack_num req \<le> a + 1 \<and> ack_num req \<le> num_segments dat)"

definition server_ok :: "byte list \<Rightarrow> int \<Rightarrow> int \<Rightarrow> srv_result \<Rightarrow> bool" where
  "server_ok dat maxBuf a r \<longleftrightarrow> (case r of
       Running s out \<Rightarrow> srv_inv dat maxBuf s
         \<and> (send_base s = [] \<longrightarrow> 0 \<le> last_seg_acked s \<and> last_seg_acked s \<le> a)
     | Completed s \<Rightarrow> a = num_segments dat
     | Aborted \<Rightarrow> True
     | Undefined e \<Rightarrow> e = WaitOverflow)"

text \<open>
  The client: the number of the last segment is known as soon as that segment is buffered and the main
  thread has left the critical section.
\<close>

definition knows_last :: "byte list \<Rightarrow> client \<Rightarrow> bool" where
  "knows_last dat c \<longleftrightarrow> last_seg_in_transfer c = num_segments dat
     \<or> (\<exists>seg rw pr. pc c = Classifying seg rw pr \<and> sequence_num seg = num_segments dat \<and> flag_set (is_eof seg))"

definition client_ok :: "byte list \<Rightarrow> int \<Rightarrow> client \<Rightarrow> bool" where
  "client_ok dat maxw c \<longleftrightarrow> cl_inv maxw (carries_chunk dat) c \<and> c_last_seg_acked c \<noteq> -1
     \<and> last_seg_in_transfer c \<in> {-1, num_segments dat}
     \<and> (\<forall>seg rw pr. pc c = Classifying seg rw pr \<longrightarrow> flag_set (is_eof seg) \<longrightarrow> sequence_num seg = num_segments dat)
     \<and> (pc c = TimeWait \<or> pc c = Exited \<longrightarrow> c_last_seg_acked c = num_segments dat)
     \<and> (c_last_seg_acked c = num_segments dat \<or> num_segments dat \<in> sequence_num ` set (recv_base c) \<longrightarrow> knows_last dat c)"

definition sys_ok :: "byte list \<Rightarrow> int \<Rightarrow> int \<Rightarrow> system \<Rightarrow> bool" where
  "sys_ok dat maxBuf maxw y \<longleftrightarrow>
     (let a = c_last_seg_acked (sys_client y)
      in client_ok dat maxw (sys_client y) \<and> server_ok dat maxBuf a (sys_server y)
       \<and> seg.carries (to_client y) (data_ok dat a) \<and> seg.carries (to_server y) (request_ok dat a))"

section \<open>The server's steps keep it\<close>

lemma sent_by_loop_data:
  assumes "1 \<le> n" "int m \<le> num_segments dat - n + 1" "\<And>k. int32 (clk k)" "length dat < 2 ^ 31"
    and "x \<in> set (sent_by_loop dat clk n k m)"
  shows "wf_segment x \<and> carries_chunk dat x"
proof -
  obtain i where i: "i < m" "x = data_segment dat (n + int i) (clk (k + i))"
    using assms(5) by (auto simp: sent_by_loop_def)
  then have "carries_chunk dat x" using assms(1,2) by (auto intro!: data_segment_carries)
  with carries_wf [OF this assms(4)] i assms(3) show ?thesis by simp
qed

lemma timeout_data:
  assumes "srv_inv dat maxBuf s" "send_base s = [] \<longrightarrow> 0 \<le> last_seg_acked s \<and> last_seg_acked s \<le> a"
    and "int32 now" "a \<le> num_segments dat" "length dat < 2 ^ 31"
  shows "wf_segment (snd (srv_timeout s now)) \<and> data_ok dat a (snd (srv_timeout s now))"
proof (cases "send_base s")
  case Nil
  then show ?thesis
    using assms num_segments_int [OF assms(5)] by (simp add: srv_timeout_def data_ok_def wf_segment_def zero_segment_def int32_def)
next
  case (Cons x xs)
  then have c: "carries_chunk dat (snd (srv_timeout s now))" using srv_timeout_ok [OF assms(1)] by simp
  moreover have "timestamp (snd (srv_timeout s now)) = now" by (simp add: srv_timeout_def Let_def)
  ultimately show ?thesis using carries_wf [OF c assms(5)] assms(3) by (simp add: data_ok_def)
qed

lemma request_data:
  assumes "srv_inv dat maxBuf s" "wf_segment req" "request_ok dat a req" "\<And>k. int32 (clk k)" "length dat < 2 ^ 31"
  shows "server_ok dat maxBuf a (srv_request (Some dat) maxBuf s t clk req)"
    and "x \<in> set (srv_sent (srv_request (Some dat) maxBuf s t clk req)) \<Longrightarrow> wf_segment x \<and> data_ok dat a x"
proof -
  have "server_ok dat maxBuf a (srv_request (Some dat) maxBuf s t clk req)
    \<and> (\<forall>x \<in> set (srv_sent (srv_request (Some dat) maxBuf s t clk req)). wf_segment x \<and> data_ok dat a x)"
  proof (cases "flag_set (is_complete req)")
    case True
    then show ?thesis using assms(3) by (simp add: srv_request_def server_ok_def request_ok_def Let_def)
  next
    case False
    then have ack: "1 \<le> ack_num req" "ack_num req \<le> num_segments dat" "ack_num req \<le> a + 1"
      using assms(3) by (auto simp: request_ok_def)
    let ?m = "min (quota maxBuf s req) (nat (num_segments dat - ack_num req + 1))"
    obtain s' where s': "srv_request (Some dat) maxBuf s t clk req = Running s' (sent_by_loop dat clk (ack_num req) 0 ?m)"
      "srv_inv dat maxBuf s'" "send_base s' = [] \<longrightarrow> last_seg_acked s' = ack_num req - 1"
      using srv_request_ok [OF assms(1) False ack(1,2) refl assms(5)] by blast
    have "int ?m \<le> num_segments dat - ack_num req + 1" using ack(2) by simp
    from sent_by_loop_data [OF ack(1) this assms(4,5)] s' ack show ?thesis
      by (auto simp: server_ok_def data_ok_def)
  qed
  then show "server_ok dat maxBuf a (srv_request (Some dat) maxBuf s t clk req)"
    and "x \<in> set (srv_sent (srv_request (Some dat) maxBuf s t clk req)) \<Longrightarrow> wf_segment x \<and> data_ok dat a x"
    by blast+
qed

lemma server_step_ok:
  assumes s: "server_ok dat maxBuf a (Running s out)" and net: "seg.carries net (request_ok dat a)"
    and ev: "srv_event_ok net ev" and a: "a \<le> num_segments dat" and N: "length dat < 2 ^ 31"
  shows "server_ok dat maxBuf a (srv_iter (Some dat) maxBuf s ev)
    \<and> (\<forall>x \<in> set (srv_sent (srv_iter (Some dat) maxBuf s ev)). wf_segment x \<and> data_ok dat a x)"
proof -
  let ?b = "srv_begin s"
  have b: "srv_inv dat maxBuf ?b" "send_base ?b = [] \<longrightarrow> 0 \<le> last_seg_acked ?b \<and> last_seg_acked ?b \<le> a"
    using s srv_begin_inv by (auto simp: server_ok_def)
  have "srv_iter (Some dat) maxBuf s ev \<in> {Aborted, Undefined WaitOverflow}
    \<or> srv_iter (Some dat) maxBuf s ev = (case ev of Interrupted \<Rightarrow> Running ?b []
      | TimerOff now \<Rightarrow> (let (s', seg) = srv_timeout ?b now in Running s' [seg])
      | RequestIn t clk bytes \<Rightarrow> (case decode_segment bytes of None \<Rightarrow> Undefined ShortDatagram
          | Some req \<Rightarrow> srv_request (Some dat) maxBuf ?b t clk req))"
    by (cases "conse_packet_drop (srv_rtt s) = RTT_MAXNREXMT";
        cases "trans_time (RTO (srv_rtt ?b)) (nat (conse_packet_drop (srv_rtt ?b)))")
      (simp_all add: srv_iter_def Let_def)
  then consider (stop) "srv_iter (Some dat) maxBuf s ev \<in> {Aborted, Undefined WaitOverflow}"
    | (go) "srv_iter (Some dat) maxBuf s ev = (case ev of Interrupted \<Rightarrow> Running ?b []
      | TimerOff now \<Rightarrow> (let (s', seg) = srv_timeout ?b now in Running s' [seg])
      | RequestIn t clk bytes \<Rightarrow> (case decode_segment bytes of None \<Rightarrow> Undefined ShortDatagram
          | Some req \<Rightarrow> srv_request (Some dat) maxBuf ?b t clk req))"
    by blast
  then show ?thesis
  proof cases
    case stop
    then show ?thesis by (auto simp: server_ok_def)
  next
    case go
    show ?thesis
    proof (cases ev)
      case Interrupted
      then show ?thesis using go b by (simp add: server_ok_def)
    next
      case (TimerOff now)
      then have "srv_iter (Some dat) maxBuf s ev = Running (fst (srv_timeout ?b now)) [snd (srv_timeout ?b now)]"
        using go by (simp add: case_prod_unfold Let_def)
      then show ?thesis
        using timeout_data [OF b _ a N] srv_timeout_ok [OF b(1)] b(2) ev TimerOff by (simp add: server_ok_def)
    next
      case (RequestIn t clk bytes)
      then obtain req where "decode_segment bytes = Some req" "wf_segment req" "request_ok dat a req"
        using seg.carries_decodes [OF net] ev by auto
      then show ?thesis
        using go RequestIn request_data(1) [OF b(1), of req a clk t] request_data(2) [OF b(1), of req a clk _ t] ev N
        by simp
    qed
  qed
qed

section \<open>The client's steps keep it\<close>

lemma in_order_chunk:
  assumes "window.in_order (carries_chunk dat) w a out"
  shows "a \<le> num_segments dat" and "x \<in> set w \<Longrightarrow> carries_chunk dat x"
proof -
  show "a \<le> num_segments dat"
  proof (cases "a \<le> 0")
    case True
    then show ?thesis by (simp add: num_segments_def)
  next
    case False
    have "set (map sequence_num out) = {1..a}" using assms by (metis set_upto window.in_order_def)
    then have "a \<in> sequence_num ` set out" using False by simp
    then obtain x where x: "x \<in> set out" "sequence_num x = a" by blast
    then have "carries_chunk dat x" using assms by (simp add: window.in_order_def)
    then show ?thesis using x by (simp add: carries_chunk_def)
  qed
  show "carries_chunk dat x" if "x \<in> set w"
    using assms by_number_mem [OF _ that] by (auto simp: window.in_order_def)
qed

lemma client_ok_in_order:
  assumes "client_ok dat maxw c"
  shows "window.in_order (carries_chunk dat) (recv_base c) (c_last_seg_acked c) (printed c)"
    and "0 \<le> c_last_seg_acked c" and "c_last_seg_acked c \<le> num_segments dat"
proof -
  show i: "window.in_order (carries_chunk dat) (recv_base c) (c_last_seg_acked c) (printed c)"
    using assms cl_inv_order unfolding client_ok_def by blast
  show "0 \<le> c_last_seg_acked c" using in_order_nonneg [OF i] .
  show "c_last_seg_acked c \<le> num_segments dat" using in_order_chunk(1) [OF i] .
qed

text \<open>The requests: one that is not the last asks for a segment the file has.\<close>

lemma make_request_ok:
  assumes "client_ok dat maxw c" and "pc c = Requesting \<or> pc c = TimeWait" and "0 < num_segments dat"
    and "maxw < 2 ^ 31" and "length dat < 2 ^ 31"
  shows "wf_segment (make_request maxw c)" and "request_ok dat (c_last_seg_acked c) (make_request maxw c)"
    and "flag_set (is_complete (make_request maxw c)) \<Longrightarrow> c_last_seg_acked c = num_segments dat"
proof -
  note o = client_ok_in_order [OF assms(1)]
  have n: "0 \<le> c_num_seg_in_buf c" "c_num_seg_in_buf c \<le> maxw"
    using assms(1) cl_inv_printed(3,4) unfolding client_ok_def by auto
  show c: "flag_set (is_complete (make_request maxw c)) \<Longrightarrow> c_last_seg_acked c = num_segments dat"
    using assms(1) o(2) by (auto simp: client_ok_def)
  have "last_seg_in_transfer c = num_segments dat" if "c_last_seg_acked c = num_segments dat"
    using assms(1,2) that by (auto simp: client_ok_def knows_last_def)
  then have less: "c_last_seg_acked c < num_segments dat" if "last_seg_in_transfer c \<noteq> c_last_seg_acked c"
    using o(3) that by force
  with n o(2,3) assms(4) num_segments_int [OF assms(5)] show "wf_segment (make_request maxw c)"
    by (cases "last_seg_in_transfer c = c_last_seg_acked c")
      (simp_all add: make_request_def wf_segment_def zero_segment_def int32_def Let_def)
  show "request_ok dat (c_last_seg_acked c) (make_request maxw c)"
    using c o(2) less
    by (cases "last_seg_in_transfer c = c_last_seg_acked c") (simp_all add: request_ok_def make_request_def Let_def zero_segment_def)
qed

lemma client_ok_cl_inv: "client_ok dat maxw c \<Longrightarrow> cl_inv maxw (carries_chunk dat) c"
  by (simp add: client_ok_def)

text \<open>What is left of the invariant once the window is right.\<close>

lemma client_okI:
  assumes "cl_inv maxw (carries_chunk dat) c" and "c_last_seg_acked c \<noteq> -1"
    and "last_seg_in_transfer c \<in> {-1, num_segments dat}"
    and "\<And>seg rw pr. pc c = Classifying seg rw pr \<Longrightarrow> flag_set (is_eof seg) \<Longrightarrow> sequence_num seg = num_segments dat"
    and "pc c = TimeWait \<or> pc c = Exited \<Longrightarrow> c_last_seg_acked c = num_segments dat"
    and "c_last_seg_acked c = num_segments dat \<or> num_segments dat \<in> sequence_num ` set (recv_base c) \<Longrightarrow> knows_last dat c"
  shows "client_ok dat maxw c"
  using assms by (simp add: client_ok_def)

lemma client_okD:
  assumes "client_ok dat maxw c"
  shows "c_last_seg_acked c \<noteq> -1" and "last_seg_in_transfer c \<in> {-1, num_segments dat}"
    and "pc c = Classifying seg rw pr \<Longrightarrow> flag_set (is_eof seg) \<Longrightarrow> sequence_num seg = num_segments dat"
    and "pc c = TimeWait \<or> pc c = Exited \<Longrightarrow> c_last_seg_acked c = num_segments dat"
    and "c_last_seg_acked c = num_segments dat \<or> num_segments dat \<in> sequence_num ` set (recv_base c) \<Longrightarrow> knows_last dat c"
  using assms by (simp_all add: client_ok_def)

definition plain :: "cl_pc \<Rightarrow> bool" where
  "plain q \<longleftrightarrow> (\<forall>seg rw pr. q \<noteq> Inserting seg rw pr \<and> q \<noteq> Classifying seg rw pr)"

lemma plain_simps [simp]:
  "plain Requesting" "plain (Requested i)" "plain (Looping i b)" "plain (Blocked i b)" "plain TimeWait" "plain Exited"
  by (simp_all add: plain_def)

lemma client_ok_pc:
  assumes "client_ok dat maxw c" and "plain (pc c)" "plain q"
    and "q = TimeWait \<or> q = Exited \<Longrightarrow> c_last_seg_acked c = num_segments dat"
  shows "client_ok dat maxw (c\<lparr>pc := q\<rparr>)"
proof (rule client_okI)
  show "cl_inv maxw (carries_chunk dat) (c\<lparr>pc := q\<rparr>)"
    using client_ok_cl_inv [OF assms(1)] client_okD(1) [OF assms(1)] assms(3) by (simp add: cl_inv_def plain_def)
qed (use client_okD [OF assms(1)] assms(2-4) in \<open>auto simp: plain_def knows_last_def\<close>)

lemma classify_read_ok:
  assumes "client_ok dat maxw c" and "pc c = Blocked rw pr" and "data_ok dat (c_last_seg_acked c) seg"
  shows "client_ok dat maxw (classify_read seg rw pr c)" and "c_last_seg_acked (classify_read seg rw pr c) = c_last_seg_acked c"
proof -
  have nn: "sequence_num seg \<noteq> -1" using assms(3) by (auto simp: data_ok_def carries_chunk_def)
  have P: "carries_chunk dat seg" if "c_last_seg_acked c < sequence_num seg" using assms(3) that by (auto simp: data_ok_def)
  have eof: "sequence_num seg = num_segments dat" if "flag_set (is_eof seg)"
    using assms(3) that by (auto simp: data_ok_def carries_chunk_def)
  have inv: "cl_inv maxw (carries_chunk dat) (classify_read seg rw pr c)"
    using classify_read_inv [OF client_ok_cl_inv [OF assms(1)] _ P] assms(2) by simp
  show "c_last_seg_acked (classify_read seg rw pr c) = c_last_seg_acked c"
    using nn by (simp add: classify_read_def)
  show "client_ok dat maxw (classify_read seg rw pr c)"
    by (rule client_okI [OF inv])
      (use client_okD [OF assms(1)] nn eof assms(2) in \<open>auto simp: classify_read_def knows_last_def split: if_splits\<close>)
qed

lemma classify_done_ok:
  assumes "client_ok dat maxw c" and "pc c = Classifying seg rw pr"
  shows "client_ok dat maxw (classify_done seg rw pr c)" and "c_last_seg_acked (classify_done seg rw pr c) = c_last_seg_acked c"
proof -
  have inv: "cl_inv maxw (carries_chunk dat) (classify_done seg rw pr c)"
    using classify_done_inv [OF client_ok_cl_inv [OF assms(1)]] assms(2) by simp
  show "c_last_seg_acked (classify_done seg rw pr c) = c_last_seg_acked c" by (simp add: classify_done_def)
  show "client_ok dat maxw (classify_done seg rw pr c)"
    by (rule client_okI [OF inv])
      (use client_okD [OF assms(1)] assms(2) in \<open>auto simp: classify_done_def knows_last_def split: if_splits\<close>)
qed

lemma accept_ok:
  assumes "client_ok dat maxw c" and "pc c = Inserting seg rw pr"
  shows "client_ok dat maxw ((accept_segment maxw seg c)\<lparr>pc := Classifying seg rw pr\<rparr>)"
proof -
  have P: "carries_chunk dat seg" using cl_inv_inserting [OF client_ok_cl_inv [OF assms(1)] assms(2)] .
  have inv: "cl_inv maxw (carries_chunk dat) ((accept_segment maxw seg c)\<lparr>pc := Classifying seg rw pr\<rparr>)"
    using accept_segment_inv [OF client_ok_cl_inv [OF assms(1)] P] assms(2) by simp
  have w: "set (recv_base (accept_segment maxw seg c)) \<subseteq> insert seg (set (recv_base c))"
    "last_seg_in_transfer (accept_segment maxw seg c) = last_seg_in_transfer c"
    using insert_segment_set [of seg "recv_base c"] by (auto simp: accept_segment_def Let_def case_prod_unfold)
  have old: "last_seg_in_transfer c = num_segments dat"
    if "c_last_seg_acked c = num_segments dat \<or> num_segments dat \<in> sequence_num ` set (recv_base c)"
    using client_okD(5) [OF assms(1) that] assms(2) by (simp add: knows_last_def)
  have k: "last_seg_in_transfer c = num_segments dat \<or> sequence_num seg = num_segments dat"
    if "c_last_seg_acked c = num_segments dat \<or> num_segments dat \<in> sequence_num ` set (recv_base (accept_segment maxw seg c))"
  proof -
    have "sequence_num ` set (recv_base (accept_segment maxw seg c)) \<subseteq> insert (sequence_num seg) (sequence_num ` set (recv_base c))"
      using w(1) by auto
    then show ?thesis using that old by auto
  qed
  show ?thesis
    by (rule client_okI [OF inv])
      (use client_okD(1,2) [OF assms(1)] k P w(2) in \<open>simp_all add: knows_last_def carries_chunk_def\<close>)
qed

lemma consumer_round_ok:
  assumes "client_ok dat maxw c" and "consumer c \<noteq> Ended"
  shows "client_ok dat maxw (consumer_round c)" and "c_last_seg_acked c \<le> c_last_seg_acked (consumer_round c)"
proof -
  have inv: "cl_inv maxw (carries_chunk dat) (consumer_round c)"
    using consumer_round_inv [OF client_ok_cl_inv [OF assms(1)]] assms(2) by simp
  obtain w n a out where r: "consume (recv_base c) (c_num_seg_in_buf c) (c_last_seg_acked c) = (w, n, a, out)"
    by (metis prod_cases4)
  note spec = consume_spec [OF r]
  have a: "c_last_seg_acked (consumer_round c) = (if pc c = TimeWait then c_last_seg_acked c else a)"
    and b: "recv_base (consumer_round c) = (if pc c = TimeWait then recv_base c else w)"
    and s: "pc (consumer_round c) = pc c" "last_seg_in_transfer (consumer_round c) = last_seg_in_transfer c"
    by (simp_all add: consumer_round_def r)
  show mono: "c_last_seg_acked c \<le> c_last_seg_acked (consumer_round c)" using spec by (simp add: a)
  have "a \<in> insert (c_last_seg_acked c) (sequence_num ` set (recv_base c))"
  proof (cases "out = []")
    case False
    have eq: "set (map sequence_num out) = {c_last_seg_acked c + 1..a}" using spec by (metis set_upto)
    have "a \<in> set (map sequence_num out)" unfolding eq using False spec by (simp add: Suc_le_eq)
    then have "a \<in> sequence_num ` set out" by simp
    moreover have "set out \<subseteq> set (recv_base c)" using spec by auto
    ultimately show ?thesis by blast
  qed (use spec in simp)
  then have k: "knows_last dat c"
    if "c_last_seg_acked (consumer_round c) = num_segments dat \<or> num_segments dat \<in> sequence_num ` set (recv_base (consumer_round c))"
    using that spec client_okD(5) [OF assms(1)] by (auto simp: a b split: if_splits)
  have n1: "c_last_seg_acked (consumer_round c) \<noteq> -1"
    using mono client_ok_in_order(2) [OF assms(1)] by simp
  have "c_last_seg_acked (consumer_round c) \<le> num_segments dat"
    using in_order_chunk(1) cl_inv_order [OF inv n1] by blast
  then have "c_last_seg_acked c = num_segments dat \<Longrightarrow> c_last_seg_acked (consumer_round c) = num_segments dat"
    using mono by simp
  then show "client_ok dat maxw (consumer_round c)"
    by (intro client_okI [OF inv n1])
      (use client_okD(2-4) [OF assms(1)] k in \<open>simp_all add: s knows_last_def\<close>)
qed

lemma consumer_test_sel [simp]:
  "pc (consumer_test c) = pc c" "c_last_seg_acked (consumer_test c) = c_last_seg_acked c"
  "last_seg_in_transfer (consumer_test c) = last_seg_in_transfer c" "recv_base (consumer_test c) = recv_base c"
  by (simp_all add: consumer_test_def)

lemma consumer_test_ok: "client_ok dat maxw c \<Longrightarrow> client_ok dat maxw (consumer_test c)"
  by (rule client_okI [OF consumer_test_inv [OF client_ok_cl_inv]])
    (use client_okD [of dat maxw c] in \<open>simp_all add: knows_last_def\<close>)

text \<open>All steps of the client: the invariant, and what goes out is a request the server can serve.\<close>

lemma time_wait_request_ok:
  assumes "wf_segment req" and "request_ok dat a req"
  shows "\<exists>m. decode_segment (encode_time_wait req junk) = Some m \<and> request_ok dat a m"
proof -
  obtain p ps where p: "payload req = p # ps"
    using assms(1) by (cases "payload req") (auto simp: wf_segment_def udp_sizes)
  then show ?thesis using decode_time_wait [OF assms(1) p] assms(2) by (simp add: request_ok_def)
qed

lemma client_step_ok:
  assumes "client_ok dat maxw c" and "cl_step maxw c ev = Some (c', out)"
    and "cl_event_ok net ev" and "seg.carries net (data_ok dat (c_last_seg_acked c))"
    and N: "0 < num_segments dat" "maxw < 2 ^ 31" "length dat < 2 ^ 31"
  shows "client_ok dat maxw c' \<and> c_last_seg_acked c \<le> c_last_seg_acked c'
    \<and> (\<forall>b \<in> set_option out. \<exists>m. decode_segment b = Some m \<and> request_ok dat (c_last_seg_acked c) m)"
proof (cases ev)
  case (MainStep sent)
  show ?thesis
  proof (cases "pc c")
    case Requesting
    note req = make_request_ok [OF assms(1) disjI1 [OF Requesting] N]
    show ?thesis
      using assms(2) MainStep Requesting decode_encode [OF req(1)] req(2,3)
      by (auto simp: Let_def split: if_splits intro!: client_ok_pc [OF assms(1)])
  next
    case (Inserting seg rw pr)
    then show ?thesis using assms(2) MainStep accept_ok [OF assms(1) Inserting] by auto
  next
    case (Classifying seg rw pr)
    then show ?thesis using assms(2) MainStep classify_done_ok [OF assms(1) Classifying] by auto
  qed (use assms(2) MainStep in \<open>auto split: if_splits intro!: client_ok_pc [OF assms(1)]\<close>)
next
  case (ReadDatagram bytes kept junk)
  show ?thesis
  proof (cases "pc c")
    case (Blocked rw pr)
    obtain seg where d: "decode_segment bytes = Some seg" "data_ok dat (c_last_seg_acked c) seg"
      using seg.carries_decodes [OF assms(4)] assms(3) ReadDatagram by auto
    then show ?thesis
      using assms(2) ReadDatagram Blocked classify_read_ok [OF assms(1) Blocked d(2)]
      by (auto split: if_splits intro!: client_ok_pc [OF assms(1)])
  next
    case TimeWait
    note req = make_request_ok [OF assms(1) disjI2 [OF TimeWait] N]
    show ?thesis
      using assms(1,2) ReadDatagram TimeWait time_wait_request_ok [OF req(1,2)] by (auto split: if_splits)
  qed (use assms(2) ReadDatagram in simp_all)
next
  case ConsumerStep
  then show ?thesis
    using assms(2) consumer_test_ok [OF assms(1)] consumer_round_ok [OF assms(1)] by (cases "consumer c") auto
next
  case AlarmRings
  then show ?thesis
    using assms(2) client_okD(4) [OF assms(1)] by (auto split: if_splits intro!: client_ok_pc [OF assms(1)])
qed

section \<open>The invariant of the system\<close>

lemma data_ok_mono: "data_ok dat a seg \<Longrightarrow> a \<le> b \<Longrightarrow> data_ok dat b seg"
  by (auto simp: data_ok_def)

lemma request_ok_mono: "request_ok dat a req \<Longrightarrow> a \<le> b \<Longrightarrow> b \<le> num_segments dat \<Longrightarrow> request_ok dat b req"
  by (auto simp: request_ok_def split: if_splits)

lemma server_ok_mono: "server_ok dat maxBuf a r \<Longrightarrow> a \<le> b \<Longrightarrow> b \<le> num_segments dat \<Longrightarrow> server_ok dat maxBuf b r"
  by (auto simp: server_ok_def split: srv_result.splits)

lemma num_segments_pos: "dat \<noteq> [] \<longleftrightarrow> 0 < num_segments dat"
  using num_segments_bound [of 1 dat] by auto

lemma sys_init_ok:
  assumes "dat \<noteq> []" "0 \<le> maxBuf" "0 \<le> maxw"
  shows "sys_ok dat maxBuf maxw (sys_init g t)"
proof -
  have "client_ok dat maxw cl_init"
    by (rule client_okI [OF cl_init_inv [OF assms(3)]]) (use assms(1) num_segments_pos in \<open>auto simp: cl_init_def\<close>)
  moreover have "srv_inv dat maxBuf (srv_init g t)"
    using assms(2) by (simp add: srv_inv_def srv_init_def)
  ultimately show ?thesis
    by (simp add: sys_ok_def sys_init_def server_ok_def seg.carries_empty Let_def)
      (simp add: srv_init_def cl_init_def)
qed

lemma sys_step_ok:
  assumes "transfer_step dat maxBuf maxw y y'" and "sys_ok dat maxBuf maxw y"
    and N: "0 < num_segments dat" "maxw < 2 ^ 31" "length dat < 2 ^ 31"
  shows "sys_ok dat maxBuf maxw y'"
  using assms(1)
proof cases
  case (server_step s out ev r)
  let ?a = "c_last_seg_acked (sys_client y)"
  have ok: "client_ok dat maxw (sys_client y)" "server_ok dat maxBuf ?a (Running s out)"
    "seg.carries (to_client y) (data_ok dat ?a)" "seg.carries (to_server y) (request_ok dat ?a)"
    using assms(2) server_step(2) by (simp_all add: sys_ok_def Let_def)
  have "server_ok dat maxBuf ?a r \<and> (\<forall>x \<in> set (srv_sent r). wf_segment x \<and> data_ok dat ?a x)"
    using server_step_ok [OF ok(2,4) server_step(3) client_ok_in_order(3) [OF ok(1)] N(3)] server_step(4) by simp
  then show ?thesis
    using ok(1,4) seg.carries_send [OF ok(3), of "set (srv_sent r)"] server_step(1)
    by (simp add: sys_ok_def Let_def)
next
  case (client_step ev c out)
  let ?a = "c_last_seg_acked (sys_client y)" and ?b = "c_last_seg_acked c"
  have ok: "client_ok dat maxw (sys_client y)" "server_ok dat maxBuf ?a (sys_server y)"
    "seg.carries (to_client y) (data_ok dat ?a)" "seg.carries (to_server y) (request_ok dat ?a)"
    using assms(2) by (simp_all add: sys_ok_def Let_def)
  from client_step_ok [OF ok(1) client_step(3,2) ok(3) N]
  have c: "client_ok dat maxw c" "?a \<le> ?b"
    and o: "\<forall>b \<in> set_option out. \<exists>m. decode_segment b = Some m \<and> request_ok dat ?a m" by auto
  have b: "?b \<le> num_segments dat" using client_ok_in_order(3) [OF c(1)] .
  have "seg.carries (to_server y \<union> set_option out) (request_ok dat ?a)"
    using ok(4) o unfolding seg.carries_def by blast
  then have "seg.carries (to_server y \<union> set_option out) (request_ok dat ?b)"
    by (rule seg.carries_mono) (use request_ok_mono c(2) b in blast)
  moreover have "seg.carries (to_client y) (data_ok dat ?b)"
    using ok(3) by (rule seg.carries_mono) (use data_ok_mono c(2) in blast)
  ultimately show ?thesis
    using c(1) server_ok_mono [OF ok(2) c(2) b] client_step(1) by (simp add: sys_ok_def Let_def)
qed

lemma reachable_ok:
  assumes "reachable dat maxBuf maxw y" and "dat \<noteq> []" "0 \<le> maxBuf" "0 \<le> maxw" "maxw < 2 ^ 31" "length dat < 2 ^ 31"
  shows "sys_ok dat maxBuf maxw y"
proof -
  obtain g t where "(transfer_step dat maxBuf maxw)\<^sup>*\<^sup>* (sys_init g t) y"
    using assms(1) by (auto simp: reachable_def)
  then show ?thesis
    by (induction rule: rtranclp_induct)
      (use sys_init_ok sys_step_ok assms(2-) num_segments_pos in blast)+
qed

section \<open>The printed file\<close>

lemma takeWhile_pad: "takeWhile (\<lambda>b. b \<noteq> 0) (pad_payload bs) = takeWhile (\<lambda>b. b \<noteq> 0) bs"
  by (induction bs) (auto simp: pad_payload_def takeWhile_replicate takeWhile_append)

lemma printed_text_chunk:
  assumes "carries_chunk dat x"
  shows "printed_text x = takeWhile (\<lambda>b. b \<noteq> 0) (chunk dat (sequence_num x))"
  using assms by (simp add: printed_text_def carries_chunk_def takeWhile_pad)

lemma chunks_prefix: "concat (map (chunk dat) [1..int k]) = take (k * UDP_PAYLOAD_SIZE) dat"
proof (induction k)
  case (Suc k)
  have "[1..int (Suc k)] = [1..int k] @ [int (Suc k)]" by (simp add: upto_rec2)
  moreover have "take (Suc k * UDP_PAYLOAD_SIZE) dat
      = take (k * UDP_PAYLOAD_SIZE) dat @ take UDP_PAYLOAD_SIZE (drop (k * UDP_PAYLOAD_SIZE) dat)"
    using take_add [of "k * UDP_PAYLOAD_SIZE" UDP_PAYLOAD_SIZE dat] by (simp add: add.commute)
  ultimately show ?case using Suc by (simp add: chunk_def del: mult_Suc)
qed simp

lemma printed_chunks:
  assumes "window.in_order (carries_chunk dat) w a out"
  shows "map printed_text out = map (\<lambda>k. takeWhile (\<lambda>b. b \<noteq> 0) (chunk dat k)) [1..a]"
proof -
  have o: "\<forall>x \<in> set out. carries_chunk dat x" "map sequence_num out = [1..a]"
    using assms by (simp_all add: window.in_order_def)
  then have "map printed_text out = map (\<lambda>x. takeWhile (\<lambda>b. b \<noteq> 0) (chunk dat (sequence_num x))) out"
    by (simp add: printed_text_chunk)
  also have "\<dots> = map (\<lambda>k. takeWhile (\<lambda>b. b \<noteq> 0) (chunk dat k)) (map sequence_num out)" by simp
  finally show ?thesis by (simp only: o(2))
qed

lemma chunk_no_zero: "0 \<notin> set dat \<Longrightarrow> takeWhile (\<lambda>b. b \<noteq> 0) (chunk dat k) = chunk dat k"
  by (simp add: takeWhile_eq_all_conv) (metis chunk_def in_set_dropD in_set_takeD)

lemma all_chunks: "length dat \<le> nat (num_segments dat) * UDP_PAYLOAD_SIZE"
proof -
  have "0 \<le> num_segments dat" by (simp add: num_segments_def)
  then show ?thesis using num_segments_bound [of "num_segments dat + 1" dat] by simp
qed

lemma printed_prefix:
  assumes "sys_ok dat maxBuf maxw y"
  shows "map printed_text (printed (sys_client y))
      = map (\<lambda>k. takeWhile (\<lambda>b. b \<noteq> 0) (chunk dat k)) [1..c_last_seg_acked (sys_client y)]"
    and "0 \<notin> set dat \<Longrightarrow> concat (map printed_text (printed (sys_client y)))
      = take (nat (c_last_seg_acked (sys_client y)) * UDP_PAYLOAD_SIZE) dat"
proof -
  let ?c = "sys_client y"
  have "client_ok dat maxw ?c" using assms by (simp add: sys_ok_def Let_def)
  note c = client_ok_in_order [OF this]
  show p: "map printed_text (printed ?c) = map (\<lambda>k. takeWhile (\<lambda>b. b \<noteq> 0) (chunk dat k)) [1..c_last_seg_acked ?c]"
    using printed_chunks [OF c(1)] .
  show "concat (map printed_text (printed ?c)) = take (nat (c_last_seg_acked ?c) * UDP_PAYLOAD_SIZE) dat" if "0 \<notin> set dat"
    using chunks_prefix [of dat "nat (c_last_seg_acked ?c)"] c(2) by (simp add: p chunk_no_zero [OF that])
qed

end
