(* ===== verification/Transfer_Liveness.thy ===== *)
theory Transfer_Liveness
  imports File_Transfer
begin

text \<open>
  The theorems on the file transfer as a whole.  Safety comes from the invariant of theory
  \<open>File_Transfer\<close>; for progress a schedule is built that completes the transfer of every file: in each
  turn the client requests a segment, the server's timer repeats it, and the client prints it.
\<close>

section \<open>A completing run\<close>

lemma dropWhile_upto: "dropWhile (\<lambda>x. x \<le> k) [h..e] = [max h (k + 1)..e]"
proof (induction h e rule: upto.induct)
  case (1 h e)
  show ?case
  proof (cases "h \<le> e \<and> h \<le> k")
    case True
    then show ?thesis using 1 by (simp add: upto.simps [of h e] max_def)
  next
    case False
    have m: "max h (k + 1) = h" if "\<not> h \<le> k" using that by simp
    show ?thesis using False m by (cases "h \<le> e") (simp_all add: upto.simps [of h e])
  qed
qed

lemma build_segment_seq: "build_segment (Some dat) rw q now n = Some x \<Longrightarrow> sequence_num x = n"
  by (auto simp: build_segment_def Let_def split: option.splits if_splits)

lemma send_loop_consecutive:
  assumes "send_loop (Some dat) rw ws clk n q s = Some (s', out)"
    and "map sequence_num (send_base s) = [h..e]" "h - 1 \<le> e" "h \<le> last_seg_acked s + 1" "last_seg_acked s \<le> e"
  shows "\<exists>e'. map sequence_num (send_base s') = [h..e'] \<and> last_seg_acked s' \<le> e' \<and> e \<le> e'"
  using assms
proof (induction n arbitrary: q s out e)
  case (Suc n)
  show ?case
  proof (cases "ws = 0")
    case False
    then obtain x where x: "build_segment (Some dat) rw (int (Suc n)) (clk q) (last_seg_acked s + 1) = Some x"
      using Suc.prems(1) by (auto split: option.splits)
    obtain w m where wm: "buffer_segment x (send_base s, num_seg_in_buf s) = (w, m)" by fastforce
    let ?s = "s\<lparr>last_seg_acked := last_seg_acked s + 1, send_base := w, num_seg_in_buf := m, last_out_time := timestamp x\<rparr>"
    have sq: "sequence_num x = last_seg_acked s + 1" using build_segment_seq [OF x] .
    have set: "sequence_num ` set (send_base s) = {h..e}" using Suc.prems(2) by (metis list.set_map set_upto)
    obtain e1 where e1: "map sequence_num w = [h..e1]" "last_seg_acked s + 1 \<le> e1" "e \<le> e1" "h - 1 \<le> e1"
    proof (cases "last_seg_acked s + 1 \<le> e")
      case True
      then have "sequence_num x \<in> sequence_num ` set (send_base s)" using set Suc.prems(4) sq by simp
      then have "w = send_base s" using wm by (auto simp: buffer_segment_def image_iff split: if_splits)
      then show ?thesis using that [of e] Suc.prems True by simp
    next
      case False
      then have e: "last_seg_acked s = e" using Suc.prems(5) by simp
      then have "sequence_num x \<notin> sequence_num ` set (send_base s)" using set sq by simp
      then have "w = send_base s @ [x]" using wm by (auto simp: buffer_segment_def image_iff split: if_splits)
      moreover have "[h..e + 1] = [h..e] @ [e + 1]" using Suc.prems(3) upto_rec2 [of h "e + 1"] by simp
      ultimately show ?thesis using that [of "e + 1"] Suc.prems(2,3) sq e by simp
    qed
    have "s' = ?s \<or> (\<exists>out'. send_loop (Some dat) rw ws clk n (Suc q) ?s = Some (s', out'))"
      using Suc.prems(1) False x wm by (auto simp: Let_def split: if_splits)
    then show ?thesis
    proof
      assume "s' = ?s"
      then show ?thesis using e1 by auto
    next
      assume "\<exists>out'. send_loop (Some dat) rw ws clk n (Suc q) ?s = Some (s', out')"
      then obtain out' where "send_loop (Some dat) rw ws clk n (Suc q) ?s = Some (s', out')" by blast
      from Suc.IH [OF this, of e1] e1 Suc.prems(4) show ?thesis by force
    qed
  qed (use Suc.prems in auto)
qed auto

lemma srv_request_loop:
  assumes "srv_request file maxBuf s t clk req = Running s' out"
  shows "\<exists>rw ws n s0. send_loop file rw ws clk n 0 s0 = Some (s', out) \<and> last_seg_acked s0 = ack_num req - 1
    \<and> send_base s0 = dropWhile (\<lambda>x. sequence_num x \<le> ack_num req - 1) (send_base s)"
  using assms by (auto simp: srv_request_def Let_def prune_window_eq split: if_splits option.splits)
    (intro exI conjI, assumption, simp_all)

text \<open>The window of a server whose acknowledgements only grow: consecutive numbers up to \<open>e\<close>.\<close>

definition consecutive :: "int \<Rightarrow> segment list \<Rightarrow> bool" where
  "consecutive k w \<longleftrightarrow> (\<exists>h e. map sequence_num w = [h..e] \<and> h \<le> k + 1)"

lemma request_answered:
  assumes "srv_inv dat maxBuf s" "consecutive k (send_base s)" "0 \<le> k" "k < num_segments dat" "0 < maxBuf"
    and "ack_num req = k + 1" "0 < rwnd req" "\<not> flag_set (is_complete req)" "length dat < 2 ^ 31"
  shows "\<exists>s' out. srv_request (Some dat) maxBuf s t clk req = Running s' out \<and> srv_inv dat maxBuf s'
    \<and> (\<exists>x xs. send_base s' = x # xs \<and> sequence_num x = k + 1) \<and> consecutive k (send_base s')
    \<and> srv_rtt s' = rtt_reply (srv_rtt s) t (last_out_time s)"
proof -
  let ?w = "dropWhile (\<lambda>x. sequence_num x \<le> k) (send_base s)"
  let ?m = "min (quota maxBuf s req) (nat (num_segments dat - ack_num req + 1))"
  obtain s' where s': "srv_request (Some dat) maxBuf s t clk req = Running s' (sent_by_loop dat clk (ack_num req) 0 ?m)"
    "srv_inv dat maxBuf s'" "last_seg_acked s' = ack_num req - 1 + int ?m"
    "srv_rtt s' = rtt_reply (srv_rtt s) t (last_out_time s)"
    using srv_request_ok [OF assms(1,8) _ _ refl assms(9)] assms(3,4,6) by force
  obtain rw ws n s0 where l: "send_loop (Some dat) rw ws clk n 0 s0 = Some (s', sent_by_loop dat clk (ack_num req) 0 ?m)"
    "last_seg_acked s0 = k" "send_base s0 = ?w"
    using srv_request_loop [OF s'(1)] assms(6) by auto
  obtain h e where he: "map sequence_num (send_base s) = [h..e]" "h \<le> k + 1" using assms(2) by (auto simp: consecutive_def)
  have "map sequence_num ?w = dropWhile (\<lambda>x. x \<le> k) (map sequence_num (send_base s))"
    by (simp add: dropWhile_map comp_def)
  also have "\<dots> = [k + 1..max e k]" using he by (auto simp: dropWhile_upto max_def)
  finally have w: "map sequence_num ?w = [k + 1..max e k]" .
  from send_loop_consecutive [OF l(1), of "k + 1" "max e k"] w l
  obtain e' where e': "map sequence_num (send_base s') = [k + 1..e']" "last_seg_acked s' \<le> e'" "max e k \<le> e'" by auto
  have "k + 1 \<le> e'"
  proof (cases "0 < ?m")
    case True
    then have "1 \<le> int ?m" by linarith
    then show ?thesis using e'(2) s'(3) assms(6) by linarith
  next
    case False
    then have "quota maxBuf s req = 0" using assms(4,6) by simp
    moreover have "1 \<le> cwnd (get_cwnd (srv_cong s) (ack_num req))"
      using cong_ack_inv [of "srv_cong s" "ack_num req"] assms(1) by (simp add: srv_inv_def cong_inv_def cong_ack_def)
    ultimately have "maxBuf \<le> int (length ?w)" using assms(6,7) by (simp add: quota_def)
    then have "0 < length ?w" using assms(5) by linarith
    then have "?w \<noteq> []" by (rule length_greater_0_conv [THEN iffD1])
    then have "[k + 1..max e k] \<noteq> []" using w by (metis map_is_Nil_conv)
    then show ?thesis using e'(3) by auto
  qed
  then have "map sequence_num (send_base s') = (k + 1) # [2 + k..e']" using e'(1) by (simp add: upto.simps [of "k + 1"])
  then have "\<exists>x xs. send_base s' = x # xs \<and> sequence_num x = k + 1" by (cases "send_base s'") auto
  moreover have "consecutive k (send_base s')" using e'(1) by (auto simp: consecutive_def)
  ultimately show ?thesis using s' by blast
qed

text \<open>A timer that has not backed off far.\<close>

definition timer_ok :: "rtt \<Rightarrow> bool" where
  "timer_ok r \<longleftrightarrow> conse_packet_drop r \<in> {0, 1}
     \<and> (last_packet_drop r = 0 \<and> update_rtt r = 1 \<or> 1000000 \<le> RTO r \<and> RTO r \<le> 3000000)"

lemma timer_begin:
  assumes "timer_ok r"
  shows "1000000 \<le> RTO (rtt_begin r)" "RTO (rtt_begin r) \<le> 3000000"
    "\<exists>t. trans_time (RTO (rtt_begin r)) (nat (conse_packet_drop (rtt_begin r))) = Some t"
proof -
  show b: "1000000 \<le> RTO (rtt_begin r)" "RTO (rtt_begin r) \<le> 3000000"
    using assms clamp_rto_range by (auto simp: timer_ok_def rtt_begin_def rtt_estimate_def Let_def)
  show "\<exists>t. trans_time (RTO (rtt_begin r)) (nat (conse_packet_drop (rtt_begin r))) = Some t"
    using assms b by (auto simp: trans_time_Some timer_ok_def int32_def)
qed

lemma srv_iter_go:
  assumes "timer_ok (srv_rtt s)"
  shows "srv_iter file maxBuf s (TimerOff now) = Running (fst (srv_timeout (srv_begin s) now)) [snd (srv_timeout (srv_begin s) now)]"
    and "decode_segment bytes = Some req \<Longrightarrow>
      srv_iter file maxBuf s (RequestIn t clk bytes) = srv_request file maxBuf (srv_begin s) t clk req"
proof -
  have "conse_packet_drop (srv_rtt s) \<noteq> RTT_MAXNREXMT" using assms by (auto simp: timer_ok_def rtt_consts)
  moreover obtain t0 where "trans_time (RTO (srv_rtt (srv_begin s))) (nat (conse_packet_drop (srv_rtt (srv_begin s)))) = Some t0"
    using timer_begin(3) [OF assms] by (auto simp: srv_begin_def)
  ultimately show "srv_iter file maxBuf s (TimerOff now) = Running (fst (srv_timeout (srv_begin s) now)) [snd (srv_timeout (srv_begin s) now)]"
    and "decode_segment bytes = Some req \<Longrightarrow>
      srv_iter file maxBuf s (RequestIn t clk bytes) = srv_request file maxBuf (srv_begin s) t clk req"
    by (simp_all add: srv_iter_def Let_def case_prod_unfold)
qed

lemma timer_after_reply: "timer_ok r \<Longrightarrow> timer_ok (rtt_reply (rtt_begin r) t o')"
  using timer_begin(1,2) by (simp add: timer_ok_def rtt_reply_def)

lemma timer_after_timeout: "timer_ok r \<Longrightarrow> conse_packet_drop r = 0 \<Longrightarrow> timer_ok (rtt_timeout (rtt_begin r))"
  using timer_begin(1,2) [of r] by (simp add: timer_ok_def rtt_timeout_def)

text \<open>Steps of the client alone are steps of the system.\<close>

lemma client_steps:
  "cl_run maxw (sys_client y) evs = Some c' \<Longrightarrow> \<forall>ev \<in> set evs. cl_event_ok (to_client y) ev \<Longrightarrow>
     \<exists>y'. (transfer_step dat maxBuf maxw)\<^sup>*\<^sup>* y y' \<and> sys_client y' = c' \<and> sys_server y' = sys_server y"
proof (induction evs arbitrary: y)
  case (Cons ev evs)
  then obtain c1 out where s: "cl_step maxw (sys_client y) ev = Some (c1, out)" and r: "cl_run maxw c1 evs = Some c'"
    by (auto split: option.splits)
  let ?y = "y\<lparr>sys_client := c1, to_server := to_server y \<union> set_option out\<rparr>"
  have "transfer_step dat maxBuf maxw y ?y" using Cons.prems(2) s by (intro client_step) auto
  moreover obtain y' where "(transfer_step dat maxBuf maxw)\<^sup>*\<^sup>* ?y y'" "sys_client y' = c'" "sys_server y' = sys_server ?y"
    using Cons.IH [of ?y] r Cons.prems(2) by auto
  ultimately show ?case by (auto intro: converse_rtranclp_into_rtranclp)
qed auto

lemma reachable_trans: "reachable dat maxBuf maxw y \<Longrightarrow> (transfer_step dat maxBuf maxw)\<^sup>*\<^sup>* y y' \<Longrightarrow> reachable dat maxBuf maxw y'"
  by (auto simp: reachable_def intro: rtranclp_trans)

text \<open>The client between two requests, with segments \<open>1..k\<close> of \<open>n\<close> printed and nothing buffered.\<close>

definition idle_client :: "int \<Rightarrow> int \<Rightarrow> client \<Rightarrow> bool" where
  "idle_client n k c \<longleftrightarrow> pc c = Requesting \<and> recv_base c = [] \<and> c_num_seg_in_buf c = 0 \<and> c_last_seg_acked c = k
     \<and> \<not> used_after_free c \<and> consumer c = (if k = n then Ended else Sleeping)
     \<and> last_seg_in_transfer c = (if k = n then n else -1)"

definition at_segment :: "byte list \<Rightarrow> int \<Rightarrow> int \<Rightarrow> int \<Rightarrow> system \<Rightarrow> bool" where
  "at_segment dat maxBuf maxw k y \<longleftrightarrow> reachable dat maxBuf maxw y
     \<and> (\<exists>s out. sys_server y = Running s out \<and> srv_inv dat maxBuf s \<and> timer_ok (srv_rtt s) \<and> consecutive k (send_base s))
     \<and> idle_client (num_segments dat) k (sys_client y)"

lemma client_takes_segment:
  assumes "idle_client n k c" "k < n" "0 \<le> k" "0 < maxw"
    and "decode_segment bytes = Some x" "sequence_num x = k + 1" "is_probe x = 0" "flag_set (is_resent x)"
    and "flag_set (is_eof x) \<longleftrightarrow> k + 1 = n"
  shows "\<exists>c'. cl_run maxw (c\<lparr>pc := Requested maxw\<rparr>) [MainStep True, MainStep True, ReadDatagram bytes True 0, MainStep True,
      MainStep True, ConsumerStep, ConsumerStep] = Some c' \<and> idle_client n (k + 1) c'"
  using assms
  by (simp add: idle_client_def classify_read_def accept_segment_def classify_done_def consumer_round_def
      consumer_test_def Let_def)

text \<open>The server's part of one turn: it answers the request, and repeats the segment when its timer rings.\<close>

lemma server_repeats:
  assumes "sys_server y = Running s out" "srv_inv dat maxBuf s" "timer_ok (srv_rtt s)" "consecutive k (send_base s)"
    and "bytes \<in> to_server y" "decode_segment bytes = Some req"
    and "ack_num req = k + 1" "0 < rwnd req" "\<not> flag_set (is_complete req)"
    and "0 \<le> k" "k < num_segments dat" "0 < maxBuf" "length dat < 2 ^ 31"
  shows "\<exists>y' s' x. (transfer_step dat maxBuf maxw)\<^sup>*\<^sup>* y y' \<and> sys_client y' = sys_client y
    \<and> sys_server y' = Running s' [x] \<and> srv_inv dat maxBuf s' \<and> timer_ok (srv_rtt s') \<and> consecutive k (send_base s')
    \<and> encode_segment x \<in> to_client y' \<and> wf_segment x \<and> carries_chunk dat x \<and> sequence_num x = k + 1 \<and> is_resent x = 1"
proof -
  have b: "srv_inv dat maxBuf (srv_begin s)" "consecutive k (send_base (srv_begin s))"
    using assms(2,4) srv_begin_inv by auto
  obtain s1 out1 z zs where s1: "srv_request (Some dat) maxBuf (srv_begin s) 0 (\<lambda>_. 0) req = Running s1 out1"
    "srv_inv dat maxBuf s1" "send_base s1 = z # zs" "sequence_num z = k + 1" "consecutive k (send_base s1)"
    "srv_rtt s1 = rtt_reply (srv_rtt (srv_begin s)) 0 (last_out_time (srv_begin s))"
    using request_answered [OF b assms(10,11,12,7,8,9,13), of 0 "\<lambda>_. 0"] by blast
  define y1 where "y1 = y\<lparr>sys_server := Running s1 out1, to_client := to_client y \<union> encode_segment ` set out1\<rparr>"
  have "srv_iter (Some dat) maxBuf s (RequestIn 0 (\<lambda>_. 0) bytes) = Running s1 out1"
    using srv_iter_go(2) [OF assms(3,6)] s1(1) by simp
  from server_step [OF assms(1) _ this, of maxw] have st1: "transfer_step dat maxBuf maxw y y1"
    using assms(5) by (simp add: y1_def int32_def)
  have t1: "timer_ok (srv_rtt s1)" "conse_packet_drop (srv_rtt s1) = 0"
    using timer_after_reply [OF assms(3)] by (simp_all add: s1(6) srv_begin_def) (simp add: rtt_reply_def)
  define s2 where "s2 = fst (srv_timeout (srv_begin s1) 0)"
  define x where "x = snd (srv_timeout (srv_begin s1) 0)"
  note ok = srv_timeout_ok [OF srv_begin_inv [OF s1(2)], of 0]
  have x: "carries_chunk dat x" "sequence_num x = k + 1" "is_resent x = 1" "timestamp x = 0"
    using ok s1(3,4) by (simp_all add: x_def) (simp_all add: srv_timeout_def)
  have "srv_iter (Some dat) maxBuf s1 (TimerOff 0) = Running s2 [x]"
    using srv_iter_go(1) [OF t1(1)] by (simp add: s2_def x_def)
  from server_step [of y1, OF _ _ this, of out1 maxw]
  have st2: "transfer_step dat maxBuf maxw y1 (y1\<lparr>sys_server := Running s2 [x], to_client := to_client y1 \<union> {encode_segment x}\<rparr>)"
    (is "transfer_step _ _ _ _ ?y2")
    by (simp add: y1_def int32_def)
  have "(transfer_step dat maxBuf maxw)\<^sup>*\<^sup>* y ?y2" using st1 st2 by (metis r_into_rtranclp rtranclp.rtrancl_into_rtrancl)
  moreover have "timer_ok (srv_rtt s2)"
    using timer_after_timeout [OF t1] by (simp add: s2_def srv_timeout_def srv_begin_def Let_def)
  moreover have "wf_segment x" using carries_wf [OF x(1) assms(13)] x(4) by (simp add: int32_def)
  ultimately show ?thesis
    using x ok s1(5) by (intro exI [of _ ?y2] exI [of _ s2] exI [of _ x]) (simp add: y1_def s2_def)
qed

lemma next_segment:
  assumes "at_segment dat maxBuf maxw k y" "0 \<le> k" "k < num_segments dat" "0 < maxBuf" "0 < maxw" "maxw < 2 ^ 31"
    and "length dat < 2 ^ 31"
  shows "\<exists>y'. at_segment dat maxBuf maxw (k + 1) y'"
proof -
  let ?c = "sys_client y" and ?N = "num_segments dat"
  obtain s out where s: "sys_server y = Running s out" "srv_inv dat maxBuf s" "timer_ok (srv_rtt s)" "consecutive k (send_base s)"
    and r: "reachable dat maxBuf maxw y" and i: "idle_client ?N k ?c"
    using assms(1) by (auto simp: at_segment_def)
  let ?req = "make_request maxw ?c"
  have req: "ack_num ?req = k + 1" "rwnd ?req = maxw" "\<not> flag_set (is_complete ?req)" "wf_segment ?req"
    using i assms num_segments_int [OF assms(7)] by (simp_all add: idle_client_def make_request_def Let_def zero_segment_def wf_segment_def int32_def)
  define y1 where "y1 = y\<lparr>sys_client := ?c\<lparr>pc := Requested maxw\<rparr>, to_server := to_server y \<union> {encode_segment ?req}\<rparr>"
  have "cl_step maxw ?c (MainStep True) = Some (?c\<lparr>pc := Requested maxw\<rparr>, Some (encode_segment ?req))"
    using i req(2,3) by (simp add: idle_client_def Let_def del: make_request_sel)
  from client_step [OF _ this] have st: "transfer_step dat maxBuf maxw y y1" by (simp add: y1_def)
  have "sys_server y1 = Running s out" "encode_segment ?req \<in> to_server y1" using s by (simp_all add: y1_def)
  from server_repeats [OF this(1) s(2-4) this(2) decode_encode [OF req(4)] req(1) _ req(3) assms(2-4,7), of maxw]
  obtain y2 s2 x where y2: "(transfer_step dat maxBuf maxw)\<^sup>*\<^sup>* y1 y2" "sys_client y2 = sys_client y1"
    "sys_server y2 = Running s2 [x]" "srv_inv dat maxBuf s2" "timer_ok (srv_rtt s2)" "consecutive k (send_base s2)"
    and x: "encode_segment x \<in> to_client y2" "wf_segment x" "carries_chunk dat x" "sequence_num x = k + 1" "is_resent x = 1"
    using req(2) assms(5) by auto
  have "is_probe x = 0" "flag_set (is_eof x) \<longleftrightarrow> k + 1 = ?N" using x(3,4) by (simp_all add: carries_chunk_def)
  from client_takes_segment [OF i assms(3,2,5) decode_encode [OF x(2)] x(4) this(1) _ this(2)]
  obtain c' where c': "cl_run maxw (sys_client y2) [MainStep True, MainStep True, ReadDatagram (encode_segment x) True 0, MainStep True,
      MainStep True, ConsumerStep, ConsumerStep] = Some c'" "idle_client ?N (k + 1) c'"
    using y2(2) x(5) by (auto simp: y1_def)
  from client_steps [OF c'(1), of dat maxBuf] x(1)
  obtain y3 where y3: "(transfer_step dat maxBuf maxw)\<^sup>*\<^sup>* y2 y3" "sys_client y3 = c'" "sys_server y3 = sys_server y2"
    by auto
  have "consecutive (k + 1) (send_base s2)" using y2(6) by (force simp: consecutive_def)
  moreover have "reachable dat maxBuf maxw y3"
    using reachable_trans [OF r] st y2(1) y3(1) by (meson converse_rtranclp_into_rtranclp rtranclp_trans)
  ultimately show ?thesis using y2 y3 c'(2) by (auto simp: at_segment_def)
qed

lemma all_segments:
  assumes "dat \<noteq> []" "0 < maxBuf" "0 < maxw" "maxw < 2 ^ 31" "length dat < 2 ^ 31" and "int k \<le> num_segments dat"
  shows "\<exists>y. at_segment dat maxBuf maxw (int k) y"
  using assms(6)
proof (induction k)
  case 0
  have "map sequence_num [] = [1..0] \<and> (1::int) \<le> 0 + 1" by simp
  then have "consecutive 0 []" unfolding consecutive_def by blast
  moreover have "0 \<noteq> num_segments dat" using assms(1) num_segments_pos by auto
  moreover have "reachable dat maxBuf maxw (sys_init 0 0)" by (auto simp: reachable_def)
  ultimately have "at_segment dat maxBuf maxw 0 (sys_init 0 0)"
    using assms(2) by (auto simp: at_segment_def sys_init_def srv_init_def srv_inv_def timer_ok_def rtt_init_def
        idle_client_def cl_init_def)
  then show ?case by auto
next
  case (Suc k)
  then obtain y where "at_segment dat maxBuf maxw (int k) y" by auto
  from next_segment [OF this _ _ assms(2-5)] Suc.prems show ?case by (simp add: add.commute)
qed

text \<open>The last turn.\<close>

lemma completion:
  assumes "dat \<noteq> []" "0 < maxBuf" "0 < maxw" "maxw < 2 ^ 31" "length dat < 2 ^ 31"
  shows "\<exists>y s. reachable dat maxBuf maxw y \<and> sys_server y = Completed s \<and> pc (sys_client y) = TimeWait
    \<and> consumer (sys_client y) = Ended \<and> \<not> used_after_free (sys_client y)"
proof -
  let ?N = "num_segments dat"
  have N: "0 < ?N" using assms(1) num_segments_pos by blast
  then obtain y where y: "at_segment dat maxBuf maxw ?N y"
    using all_segments [OF assms, of "nat ?N"] by auto
  then obtain s out where s: "sys_server y = Running s out" "timer_ok (srv_rtt s)" "reachable dat maxBuf maxw y"
    "idle_client ?N ?N (sys_client y)" by (auto simp: at_segment_def)
  let ?c = "sys_client y" and ?req = "make_request maxw (sys_client y)"
  have req: "flag_set (is_complete ?req)" "wf_segment ?req"
    using s(4) assms(3-5) N num_segments_int [OF assms(5)] by (simp_all add: idle_client_def make_request_def Let_def zero_segment_def wf_segment_def int32_def)
  define y1 where "y1 = y\<lparr>sys_client := ?c\<lparr>pc := TimeWait\<rparr>, to_server := to_server y \<union> {encode_segment ?req}\<rparr>"
  have "cl_step maxw ?c (MainStep True) = Some (?c\<lparr>pc := TimeWait\<rparr>, Some (encode_segment ?req))"
    using s(4) req(1) by (simp add: idle_client_def Let_def del: make_request_sel)
  from client_step [OF _ this] have st1: "transfer_step dat maxBuf maxw y y1" by (simp add: y1_def)
  obtain s2 where s2: "srv_iter (Some dat) maxBuf s (RequestIn 0 (\<lambda>_. 0) (encode_segment ?req)) = Completed s2"
    using srv_iter_go(2) [OF s(2) decode_encode [OF req(2)]] req(1) by (simp add: srv_request_def Let_def)
  from server_step [of y1, OF _ _ this, of out maxw]
  have st2: "transfer_step dat maxBuf maxw y1 (y1\<lparr>sys_server := Completed s2, to_client := to_client y1\<rparr>)"
    using s(1) by (simp add: y1_def int32_def)
  have "reachable dat maxBuf maxw (y1\<lparr>sys_server := Completed s2, to_client := to_client y1\<rparr>)"
    using reachable_trans [OF s(3)] st1 st2 by (metis r_into_rtranclp rtranclp.rtrancl_into_rtrancl)
  then show ?thesis
    using s(4) by (intro exI [of _ "y1\<lparr>sys_server := Completed s2, to_client := to_client y1\<rparr>"] exI [of _ s2])
      (simp add: y1_def idle_client_def)
qed

lemma complete_all_printed:
  assumes "sys_ok dat maxBuf maxw y" and "(\<exists>s. sys_server y = Completed s) \<or> pc (sys_client y) \<in> {TimeWait, Exited}"
  shows "c_last_seg_acked (sys_client y) = num_segments dat"
    and "0 \<notin> set dat \<Longrightarrow> concat (map printed_text (printed (sys_client y))) = dat"
proof -
  show a: "c_last_seg_acked (sys_client y) = num_segments dat"
    using assms client_okD(4) by (auto simp: sys_ok_def server_ok_def Let_def)
  show "concat (map printed_text (printed (sys_client y))) = dat" if "0 \<notin> set dat"
    using printed_prefix(2) [OF assms(1) that] all_chunks [of dat] by (simp add: a)
qed

text \<open>A two-byte file for the examples.\<close>

lemma hi_file:
  "[104, 105] \<noteq> ([] :: byte list)" "(0::int) \<le> 6" "(0::int) \<le> 4" "(4::int) < 2 ^ 31" "length [104::byte, 105] < 2 ^ 31"
  "\<exists>y s. reachable [104, 105] 6 4 y \<and> sys_server y = Completed s \<and> pc (sys_client y) = TimeWait"
proof -
  show n: "length [104::byte, 105] < 2 ^ 31" by simp
  show "\<exists>y s. reachable [104, 105] 6 4 y \<and> sys_server y = Completed s \<and> pc (sys_client y) = TimeWait"
    using completion [of "[104, 105]" 6 4] n by fastforce
qed simp_all

section \<open>What client and server guarantee together\<close>

text \<open>
  C1 (the printed file).  The file has fewer than \<open>2 ^ 31\<close> bytes, so that every offset is an \<^verbatim>\<open>int\<close>.  Over a network that loses, repeats and reorders datagrams, and for every
  interleaving of the client's threads: what the client has printed is the beginning of the file, cut into
  the server's segments (each up to its first zero byte, which ends a string for \<^verbatim>\<open>printf\<close>); for a file
  without zero bytes it is exactly the first \<open>c_last_seg_acked\<close> segments' worth of bytes.
\<close>

theorem transfer_prints_prefix:
  assumes "reachable dat maxBuf maxw y" and "dat \<noteq> []" and "0 \<le> maxBuf" and "0 \<le> maxw" and "maxw < 2 ^ 31"
    and "length dat < 2 ^ 31"
  shows "map printed_text (printed (sys_client y))
      = map (\<lambda>k. takeWhile (\<lambda>b. b \<noteq> 0) (chunk dat k)) [1..c_last_seg_acked (sys_client y)]
    \<and> (0 \<notin> set dat \<longrightarrow> concat (map printed_text (printed (sys_client y)))
        = take (nat (c_last_seg_acked (sys_client y)) * UDP_PAYLOAD_SIZE) dat)"
  using printed_prefix [OF reachable_ok [OF assms]] by blast

theorem transfer_prints_prefix_witness:
  "\<exists>y. reachable [104, 105] 6 4 y \<and> pc (sys_client y) = TimeWait
     \<and> concat (map printed_text (printed (sys_client y)))
       = take (nat (c_last_seg_acked (sys_client y)) * UDP_PAYLOAD_SIZE) [104, 105]"
proof -
  obtain y where y: "reachable [104, 105] 6 4 y" "pc (sys_client y) = TimeWait"
    using hi_file(6) by blast
  with transfer_prints_prefix [OF y(1) hi_file(1-5)] show ?thesis by auto
qed

text \<open>
  C2 (a completed transfer).  The file has fewer than \<open>2 ^ 31\<close> bytes.  When the server has been told that the transfer is complete, or the client is
  in its TIME_WAIT state or has left it, all segments of the file are printed; for a file without zero
  bytes the output is the file.
\<close>

theorem transfer_complete:
  assumes "reachable dat maxBuf maxw y" and "dat \<noteq> []" and "0 \<le> maxBuf" and "0 \<le> maxw" and "maxw < 2 ^ 31"
    and "length dat < 2 ^ 31"
    and "(\<exists>s. sys_server y = Completed s) \<or> pc (sys_client y) \<in> {TimeWait, Exited}"
  shows "map sequence_num (printed (sys_client y)) = [1..num_segments dat]
    \<and> (0 \<notin> set dat \<longrightarrow> concat (map printed_text (printed (sys_client y))) = dat)"
proof -
  have ok: "sys_ok dat maxBuf maxw y" using reachable_ok [OF assms(1-6)] .
  then have "client_ok dat maxw (sys_client y)" by (simp add: sys_ok_def Let_def)
  from client_ok_in_order(1) [OF this] complete_all_printed [OF ok assms(7)] show ?thesis
    by (simp add: window.in_order_def)
qed

theorem transfer_complete_witness:
  "\<exists>y s. reachable [104, 105] 6 4 y \<and> sys_server y = Completed s
     \<and> concat (map printed_text (printed (sys_client y))) = [104, 105]"
proof -
  obtain y s where y: "reachable [104, 105] 6 4 y" "sys_server y = Completed s"
    using hi_file(6) by blast
  with transfer_complete [OF y(1) hi_file(1-5)] show ?thesis by auto
qed

text \<open>
  C9 (no error in a transfer of an existing file).  For a file of fewer than \<open>2 ^ 31\<close> bytes the server never
  reads outside the file buffer, no offset and no segment number of it leaves \<^verbatim>\<open>int\<close>, and it never
  sees a datagram it cannot decode, and the client is never told that the file does not exist: the only way
  for the server's loop to go wrong is the overflow of the wait (see the theory of the timer).
\<close>

theorem transfer_no_fault:
  assumes "reachable dat maxBuf maxw y" and "dat \<noteq> []" and "0 \<le> maxBuf" and "0 \<le> maxw" and "maxw < 2 ^ 31"
    and "length dat < 2 ^ 31"
  shows "sys_server y \<noteq> Undefined OutsideFile \<and> sys_server y \<noteq> Undefined AckOverflow
    \<and> sys_server y \<noteq> Undefined ShortDatagram
    \<and> 0 \<le> c_last_seg_acked (sys_client y) \<and> c_last_seg_acked (sys_client y) \<le> num_segments dat"
proof -
  have ok: "sys_ok dat maxBuf maxw y" using reachable_ok [OF assms] .
  then have "client_ok dat maxw (sys_client y)" "server_ok dat maxBuf (c_last_seg_acked (sys_client y)) (sys_server y)"
    by (simp_all add: sys_ok_def Let_def)
  with client_ok_in_order(2,3) show ?thesis by (auto simp: server_ok_def)
qed

theorem transfer_no_fault_witness:
  "\<exists>y. reachable [104, 105] 6 4 y \<and> pc (sys_client y) = TimeWait \<and> sys_server y \<noteq> Undefined OutsideFile
     \<and> c_last_seg_acked (sys_client y) \<le> num_segments [104, 105]"
proof -
  obtain y where y: "reachable [104, 105] 6 4 y" "pc (sys_client y) = TimeWait"
    using hi_file(6) by blast
  with transfer_no_fault [OF y(1) hi_file(1-5)] show ?thesis by blast
qed

text \<open>
  C8 (completion is possible).  For every file of at least one and fewer than \<open>2 ^ 31\<close> bytes and all positive window sizes there
  is a run in which the server is told of the completion, the client's threads are both done, no freed
  memory was used, and everything was printed.
\<close>

theorem transfer_can_complete:
  assumes "dat \<noteq> []" and "0 < maxBuf" and "0 < maxw" and "maxw < 2 ^ 31" and "length dat < 2 ^ 31"
  shows "\<exists>y s. reachable dat maxBuf maxw y \<and> sys_server y = Completed s \<and> pc (sys_client y) = TimeWait
    \<and> consumer (sys_client y) = Ended \<and> \<not> used_after_free (sys_client y)
    \<and> (0 \<notin> set dat \<longrightarrow> concat (map printed_text (printed (sys_client y))) = dat)"
proof -
  obtain y s where y: "reachable dat maxBuf maxw y" "sys_server y = Completed s" "pc (sys_client y) = TimeWait"
    "consumer (sys_client y) = Ended" "\<not> used_after_free (sys_client y)"
    using completion [OF assms] by blast
  have "sys_ok dat maxBuf maxw y" using reachable_ok [OF y(1)] assms by simp
  from complete_all_printed(2) [OF this] y show ?thesis by blast
qed

theorem transfer_can_complete_witness:
  "\<exists>y s. reachable (replicate 1000 65) 1 1 y \<and> sys_server y = Completed s
    \<and> concat (map printed_text (printed (sys_client y))) = replicate 1000 65"
proof -
  have h: "replicate 1000 (65::byte) \<noteq> []" "length (replicate 1000 (65::byte)) < 2 ^ 31" "0 \<notin> set (replicate 1000 (65::byte))"
    by simp_all
  from transfer_can_complete [OF h(1), of 1 1] h(2,3) show ?thesis by (auto simp del: replicate.simps)
qed

end
