(* ===== verification/Subnet.thy ===== *)
theory Subnet
  imports Prelude
begin

text \<open>
  How client and server of the file transfer decide whether they are in the same subnet, and which of
  its interfaces the client binds (\<^verbatim>\<open>udpcli.c\<close>, \<^verbatim>\<open>udpserv.c\<close>): addresses are dotted strings, turned
  into strings of 32 binary digits and compared digit by digit; the mask is counted bit by bit.  The
  library call \<^verbatim>\<open>inet_pton\<close> is the parser of the C library (no leading zeros, four octets); on a
  little-endian host the first octet is the low byte of \<^verbatim>\<open>s_addr\<close>.  The wrapper \<^verbatim>\<open>Inet_pton\<close> ends the
  process when the parse fails, here \<open>None\<close>.
\<close>

section \<open>Addresses\<close>

definition digit_val :: "char \<Rightarrow> nat option" where
  "digit_val c = (let n = (of_char c :: nat) in if 48 \<le> n \<and> n \<le> 57 then Some (n - 48) else None)"

fun pton4 :: "string \<Rightarrow> bool \<Rightarrow> nat \<Rightarrow> byte list \<Rightarrow> byte list option" where
  "pton4 [] saw_digit cur acc = (if saw_digit \<and> length acc = 3 then Some (acc @ [of_nat cur]) else None)"
| "pton4 (c # cs) saw_digit cur acc =
     (case digit_val c of
        Some d \<Rightarrow>
          if saw_digit \<and> cur = 0 then None
          else if cur * 10 + d > 255 then None
          else pton4 cs True (cur * 10 + d) acc
      | None \<Rightarrow>
          if c = CHR ''.'' \<and> saw_digit \<and> length acc \<noteq> 3 then pton4 cs False 0 (acc @ [of_nat cur]) else None)"

definition inet_pton :: "string \<Rightarrow> byte list option" where
  "inet_pton str = pton4 str False 0 []"

definition s_addr :: "byte list \<Rightarrow> 32 word" where
  "s_addr os = ucast (os ! 0) OR push_bit 8 (ucast (os ! 1)) OR push_bit 16 (ucast (os ! 2)) OR push_bit 24 (ucast (os ! 3))"

definition htonl :: "32 word \<Rightarrow> 32 word" where
  "htonl w = push_bit 24 (w AND 0xFF) OR push_bit 8 (w AND 0xFF00) OR (drop_bit 8 w AND 0xFF00) OR drop_bit 24 w"

section \<open>The comparison\<close>

definition get_bit :: "int \<Rightarrow> nat \<Rightarrow> int" where
  "get_bit n bitnum = drop_bit (31 - bitnum) n AND 1"

definition getBitString :: "string \<Rightarrow> int list option" where
  "getBitString str =
     map_option (\<lambda>os. let n = sint (htonl (s_addr os)) in map (\<lambda>j. get_bit n j + 48) [0..<32]) (inet_pton str)"

fun first_difference :: "nat \<Rightarrow> int list \<Rightarrow> int list \<Rightarrow> nat" where
  "first_difference i (x # xs) (y # ys) = (if x \<noteq> y then i else first_difference (Suc i) xs ys)"
| "first_difference i _ _ = i"

definition getLongest :: "string \<Rightarrow> string \<Rightarrow> nat option" where
  "getLongest left right =
     (case getBitString left of None \<Rightarrow> None
      | Some bl \<Rightarrow> (case getBitString right of None \<Rightarrow> None | Some br \<Rightarrow> Some (first_difference 0 bl br)))"

function count_bits :: "32 word \<Rightarrow> nat \<Rightarrow> nat" where
  "count_bits tmp subnetMaskNum =
     (if tmp = 0 then subnetMaskNum
      else count_bits (drop_bit 1 tmp) (if tmp AND 1 = 1 then subnetMaskNum + 1 else subnetMaskNum))"
  by pat_completeness auto

lemma drop_bit_less [simp]: "(w :: 32 word) \<noteq> 0 \<Longrightarrow> unat (drop_bit (Suc 0) w) < unat w"
  by (simp add: drop_bit_Suc unat_div_distrib unat_gt_0)

termination count_bits
  by (relation "measure (\<lambda>(w, n). unat w)") simp_all

definition getNetworkMaskNum :: "string \<Rightarrow> nat option" where
  "getNetworkMaskNum str = map_option (\<lambda>os. count_bits (s_addr os) 0) (inet_pton str)"

section \<open>The choice of the interface\<close>

record interface =
  label :: int
  address :: string
  networkMask :: string

text \<open>The client's loop: longest match so far and its index; a failing \<^verbatim>\<open>Inet_pton\<close> ends the program.\<close>

fun longest_match :: "string \<Rightarrow> nat \<Rightarrow> interface list \<Rightarrow> int \<times> nat \<Rightarrow> (int \<times> nat) option" where
  "longest_match serv w [] best = Some best"
| "longest_match serv w (i # rest) best =
     (if label i > 0 then
        (case getNetworkMaskNum (networkMask i) of None \<Rightarrow> None
         | Some networkMaskNum \<Rightarrow>
             (case getLongest (address i) serv of None \<Rightarrow> None
              | Some tmpLong \<Rightarrow>
                  longest_match serv (Suc w) rest
                    (if tmpLong \<ge> networkMaskNum \<and> int tmpLong > fst best then (int tmpLong, w) else best)))
      else Some best)"

definition LOOPBACK :: string where "LOOPBACK = ''127.0.0.1''"

text \<open>
  The addresses the client uses: the server's and its own; its own is \<open>None\<close> when no interface is
  left (the array \<^verbatim>\<open>clientAddrStr\<close> then stays unset).
\<close>

definition select_interface :: "string \<Rightarrow> interface list \<Rightarrow> (string \<times> string option) option" where
  "select_interface serv ifs =
     (if serv = LOOPBACK then Some (serv, Some LOOPBACK)
      else case longest_match serv 0 ifs (-1, 0) of None \<Rightarrow> None
        | Some (longestInt, index) \<Rightarrow>
            if longestInt = 32 then Some (LOOPBACK, Some LOOPBACK)
            else if longestInt \<noteq> -1 then Some (serv, Some (address (ifs ! index)))
            else Some (serv, map_option (\<lambda>h. address (ifs ! h))
                   (find_index (\<lambda>i. label i > 0 \<and> address i \<noteq> LOOPBACK) ifs)))"

text \<open>The server's test, for the interface the connection came in on: whether routing is switched off.\<close>

record srv_interface =
  sockFd :: int
  s_address :: string
  s_networkMask :: string

fun same_subnet :: "string \<Rightarrow> string \<Rightarrow> srv_interface list \<Rightarrow> bool option" where
  "same_subnet connectionAddress clientIP [] = Some False"
| "same_subnet connectionAddress clientIP (i # rest) =
     (if sockFd i > 0 \<and> connectionAddress = s_address i then
        (case getNetworkMaskNum (s_networkMask i) of None \<Rightarrow> None
         | Some networkMaskNum \<Rightarrow>
             (case getLongest (s_address i) clientIP of None \<Rightarrow> None
              | Some tmpLong \<Rightarrow>
                  if tmpLong \<ge> networkMaskNum \<and> int tmpLong > -1 then Some True
                  else same_subnet connectionAddress clientIP rest))
      else same_subnet connectionAddress clientIP rest)"

definition dont_route :: "string \<Rightarrow> string \<Rightarrow> srv_interface list \<Rightarrow> bool option" where
  "dont_route connectionAddress clientIP ifs =
     (if connectionAddress = LOOPBACK then Some False else same_subnet connectionAddress clientIP ifs)"

section \<open>Bits\<close>

declare count_bits.simps [simp del]

text \<open>The reference: the address as a number, and the number of bits set in a word.\<close>

definition popcount :: "32 word \<Rightarrow> nat" where
  "popcount w = (\<Sum>i<32. of_bool (bit w i))"

lemma bit_32: "bit (w :: 32 word) n \<Longrightarrow> n < 32"
  using bit_imp_le_length [of w n] by simp

lemma mask_bits:
  "bit (0xFF :: 32 word) n \<longleftrightarrow> n < 8" "bit (0xFF00 :: 32 word) n \<longleftrightarrow> 8 \<le> n \<and> n < 16"
proof -
  have e: "(0xFF :: 32 word) = mask 8" "(0xFF00 :: 32 word) = push_bit 8 (mask 8)"
    by (simp_all add: mask_eq_exp_minus_1 push_bit_eq_mult)
  show "bit (0xFF :: 32 word) n \<longleftrightarrow> n < 8" unfolding e(1) bit_mask_iff by auto
  show "bit (0xFF00 :: 32 word) n \<longleftrightarrow> 8 \<le> n \<and> n < 16" unfolding e(2) bit_push_bit_iff bit_mask_iff by auto
qed

definition swapped :: "nat \<Rightarrow> nat" where
  "swapped i = 8 * (3 - i div 8) + i mod 8"

lemma bit_htonl: "i < 32 \<Longrightarrow> bit (htonl w) i = bit w (swapped i)"
proof -
  assume i: "i < 32"
  have bits: "bit (htonl w) i \<longleftrightarrow> 24 \<le> i \<and> bit w (i - 24) \<and> i - 24 < 8
      \<or> 8 \<le> i \<and> bit w (i - 8) \<and> 8 \<le> i - 8 \<and> i - 8 < 16 \<or> bit w (8 + i) \<and> 8 \<le> i \<and> i < 16 \<or> bit w (24 + i)"
    unfolding htonl_def bit_or_iff bit_push_bit_iff bit_and_iff bit_drop_bit_eq comp_def mask_bits using i by auto
  have out: "\<not> bit w j" if "32 \<le> j" for j using bit_32 [of w j] that by auto
  from i consider "i < 8" | "8 \<le> i" "i < 16" | "16 \<le> i" "i < 24" | "24 \<le> i" "i < 32" by linarith
  then show ?thesis
  proof cases
    case 1
    then have "swapped i = 24 + i" by (simp add: swapped_def)
    with 1 show ?thesis by (auto simp: bits out)
  next
    case 2
    then have "i div 8 = 1" "i mod 8 = i - 8" by (simp_all add: div_nat_eqI mod_if le_mod_geq)
    then have "swapped i = 8 + i" using 2 by (simp add: swapped_def)
    with 2 show ?thesis by (auto simp: bits out)
  next
    case 3
    then have "i div 8 = 2" "i mod 8 = i - 16" by (simp_all add: div_nat_eqI mod_if le_mod_geq)
    then have "swapped i = i - 8" using 3 by (simp add: swapped_def)
    with 3 show ?thesis by (auto simp: bits out)
  next
    case 4
    then have "i div 8 = 3" "i mod 8 = i - 24" by (simp_all add: div_nat_eqI mod_if le_mod_geq)
    then have "swapped i = i - 24" using 4 by (simp add: swapped_def)
    with 4 show ?thesis by (auto simp: bits out)
  qed
qed

lemma swapped_bij: "bij_betw swapped {..<32} {..<32}"
  by (rule bij_betw_byWitness [where f' = swapped])
    (auto simp: swapped_def)

lemma popcount_htonl: "popcount (htonl w) = popcount w"
proof -
  have "popcount (htonl w) = (\<Sum>i<32. of_bool (bit w (swapped i)))"
    unfolding popcount_def by (rule sum.cong) (simp_all add: bit_htonl)
  also have "\<dots> = popcount w"
    unfolding popcount_def by (rule sum.reindex_bij_betw [OF swapped_bij])
  finally show ?thesis .
qed

lemma popcount_shift: "popcount w = of_bool (bit w 0) + popcount (drop_bit (Suc 0) w)"
proof -
  have "(\<Sum>i<Suc 31. of_bool (bit w i)) = of_bool (bit w 0) + (\<Sum>i<31. of_bool (bit w (Suc i)) :: nat)"
    by (rule sum.lessThan_Suc_shift)
  moreover have "(\<Sum>i<Suc 31. of_bool (bit w (Suc i))) = (\<Sum>i<31. of_bool (bit w (Suc i)) :: nat)"
    unfolding sum.lessThan_Suc using bit_32 [of w 32] by auto
  moreover have "popcount (drop_bit (Suc 0) w) = (\<Sum>i<Suc 31. of_bool (bit w (Suc i)))"
    unfolding popcount_def by (simp only: bit_drop_bit_eq comp_def) simp
  moreover have "popcount w = (\<Sum>i<Suc 31. of_bool (bit w i))" unfolding popcount_def by simp
  ultimately show ?thesis by linarith
qed

lemma count_bits_popcount: "count_bits w n = n + popcount w"
proof (induction w n rule: count_bits.induct)
  case (1 w n)
  have "(w AND 1 = 1) = bit w 0" by (simp add: bit_0 and_one_eq odd_iff_mod_2_eq_one)
  then show ?case
    using 1 popcount_shift [of w] by (auto simp: count_bits.simps [of w] popcount_def)
qed

text \<open>The address as a number in the order of its octets, and the mask with \<open>n\<close> leading ones.\<close>

definition host :: "byte list \<Rightarrow> 32 word" where
  "host os = htonl (s_addr os)"

definition prefix_mask :: "nat \<Rightarrow> 32 word" where
  "prefix_mask n = push_bit (32 - n) (mask n)"

lemma bit_prefix_mask: "n \<le> 32 \<Longrightarrow> bit (prefix_mask n) i \<longleftrightarrow> 32 - n \<le> i \<and> i < 32"
  by (auto simp: prefix_mask_def bit_push_bit_iff bit_mask_iff)

lemma popcount_prefix_mask: "n \<le> 32 \<Longrightarrow> popcount (prefix_mask n) = n"
proof -
  assume n: "n \<le> 32"
  have "{..<32} \<inter> {i. bit (prefix_mask n) i} = {32 - n..<32}" using n by (auto simp: bit_prefix_mask)
  then show ?thesis using n by (simp add: popcount_def)
qed

lemma masked_eq:
  assumes "n \<le> 32"
  shows "a AND prefix_mask n = b AND prefix_mask n \<longleftrightarrow> drop_bit (32 - n) a = drop_bit (32 - n) (b :: 32 word)"
proof -
  have "a AND prefix_mask n = b AND prefix_mask n \<longleftrightarrow> (\<forall>i. 32 - n \<le> i \<and> i < 32 \<longrightarrow> bit a i = bit b i)"
    using assms by (auto simp: bit_eq_iff bit_and_iff bit_prefix_mask)
  also have "\<dots> \<longleftrightarrow> (\<forall>i. bit (drop_bit (32 - n) a) i = bit (drop_bit (32 - n) b) i)"
    unfolding bit_drop_bit_eq comp_def
    by (metis bit_32 le_add1 le_add_diff_inverse)
  also have "\<dots> \<longleftrightarrow> drop_bit (32 - n) a = drop_bit (32 - n) b" by (auto intro: bit_eqI)
  finally show ?thesis .
qed

lemma drop_bit_eq_prefix:
  assumes "m \<le> 32"
  shows "drop_bit (32 - m) a = drop_bit (32 - m) b \<longleftrightarrow> (\<forall>j<m. bit a (31 - j) = bit (b :: 32 word) (31 - j))"
proof -
  have "(\<forall>i. 32 - m \<le> i \<and> i < 32 \<longrightarrow> bit a i = bit b i) \<longleftrightarrow> (\<forall>j<m. bit a (31 - j) = bit b (31 - j))" (is "?l = ?r")
  proof
    assume l: ?l
    show ?r
    proof (intro allI impI)
      fix j assume "j < m"
      then have "32 - m \<le> 31 - j \<and> 31 - j < 32" using assms by linarith
      then show "bit a (31 - j) = bit b (31 - j)" using l by blast
    qed
  next
    assume r: ?r
    show ?l
    proof (intro allI impI)
      fix i assume i: "32 - m \<le> i \<and> i < 32"
      then have "31 - i < m" "31 - (31 - i) = i" using assms by auto
      with r show "bit a i = bit b i" by metis
    qed
  qed
  then show ?thesis using masked_eq [OF assms, of a b] assms by (auto simp: bit_eq_iff bit_and_iff bit_prefix_mask)
qed

lemma get_bit_sint: "j < 32 \<Longrightarrow> get_bit (sint w) j = of_bool (bit (w :: 32 word) (31 - j))"
proof -
  assume "j < 32"
  then have "31 - j < 32" by linarith
  then show ?thesis by (simp add: get_bit_def and_one_eq mod_2_eq_odd bit_iff_odd_drop_bit [symmetric] bit_sint_iff)
qed

lemma first_difference_spec:
  "length xs = length ys \<Longrightarrow> first_difference i xs ys \<le> i + length xs
     \<and> (\<forall>m \<le> length xs. i + m \<le> first_difference i xs ys \<longleftrightarrow> (\<forall>j<m. xs ! j = ys ! j))"
proof (induction i xs ys rule: first_difference.induct)
  case (1 i x xs y ys)
  show ?case
  proof (cases "x = y")
    case True
    have "i + m \<le> first_difference i (x # xs) (y # ys) \<longleftrightarrow> (\<forall>j<m. (x # xs) ! j = (y # ys) ! j)" if "m \<le> length (x # xs)" for m
      using 1 True that by (cases m) (auto simp: All_less_Suc2)
    then show ?thesis using 1 True by auto
  next
    case False
    have "i + m \<le> i \<longleftrightarrow> (\<forall>j<m. (x # xs) ! j = (y # ys) ! j)" for m
      using False by (cases m) (auto simp: All_less_Suc2)
    then show ?thesis using False by simp
  qed
qed auto

lemma getLongest_spec:
  assumes "inet_pton l = Some os1" and "inet_pton r = Some os2"
  shows "\<exists>n. getLongest l r = Some n \<and> n \<le> 32
    \<and> (\<forall>m \<le> 32. m \<le> n \<longleftrightarrow> drop_bit (32 - m) (host os1) = drop_bit (32 - m) (host os2))"
proof -
  let ?b = "\<lambda>os. map (\<lambda>j. get_bit (sint (host os)) j + 48) [0..<32]"
  have g: "getLongest l r = Some (first_difference 0 (?b os1) (?b os2))"
    using assms by (simp add: getLongest_def getBitString_def host_def Let_def)
  have eq: "?b os1 ! j = ?b os2 ! j \<longleftrightarrow> bit (host os1) (31 - j) = bit (host os2) (31 - j)" if "j < 32" for j
    using that by (simp add: get_bit_sint of_bool_def)
  have len: "length (?b os1) = 32" "length (?b os2) = 32" by simp_all
  note spec = first_difference_spec [of "?b os1" "?b os2" 0, unfolded len]
  have "m \<le> first_difference 0 (?b os1) (?b os2) \<longleftrightarrow> (\<forall>j<m. bit (host os1) (31 - j) = bit (host os2) (31 - j))" if "m \<le> 32" for m
    using spec that eq by auto
  with g spec show ?thesis by (auto simp: drop_bit_eq_prefix)
qed

lemma mask_spec:
  assumes "inet_pton m = Some om" and "host om = prefix_mask n" and "n \<le> 32"
  shows "getNetworkMaskNum m = Some n"
  using assms popcount_htonl [of "s_addr om"] popcount_prefix_mask [OF assms(3)]
  by (simp add: getNetworkMaskNum_def count_bits_popcount host_def)

text \<open>What the loop over the interfaces keeps: the longest match so far, and the first of that length.\<close>

definition matches :: "string \<Rightarrow> interface \<Rightarrow> nat \<Rightarrow> bool" where
  "matches serv i l \<longleftrightarrow> getLongest (address i) serv = Some l \<and> (\<exists>m. getNetworkMaskNum (networkMask i) = Some m \<and> m \<le> l)"

definition best_of :: "string \<Rightarrow> interface list \<Rightarrow> int \<times> nat \<Rightarrow> bool" where
  "best_of serv vis b \<longleftrightarrow> (if fst b = -1 then (\<forall>i \<in> set vis. \<forall>l. \<not> matches serv i l)
     else snd b < length vis \<and> 0 \<le> fst b \<and> matches serv (vis ! snd b) (nat (fst b))
       \<and> (\<forall>j < length vis. \<forall>l. matches serv (vis ! j) l \<longrightarrow> int l \<le> fst b \<and> (j < snd b \<longrightarrow> int l < fst b)))"

lemma best_of_skip:
  assumes "best_of serv vis b" "\<And>l. matches serv i l \<Longrightarrow> int l \<le> fst b"
  shows "best_of serv (vis @ [i]) b"
  using assms by (fastforce simp: best_of_def nth_append less_Suc_eq split: if_splits)

lemma best_of_take:
  assumes "best_of serv vis b" "matches serv i l" "fst b < int l"
  shows "best_of serv (vis @ [i]) (int l, length vis)"
  using assms by (fastforce simp: best_of_def nth_append less_Suc_eq matches_def in_set_conv_nth split: if_splits)

lemma longest_match_best:
  "longest_match serv w rest b = Some b' \<Longrightarrow> length vis = w \<Longrightarrow> best_of serv vis b \<Longrightarrow>
     best_of serv (vis @ takeWhile (\<lambda>i. label i > 0) rest) b'"
proof (induction serv w rest b arbitrary: vis rule: longest_match.induct)
  case (2 serv w i rest best)
  show ?case
  proof (cases "label i > 0")
    case True
    then obtain m l where m: "getNetworkMaskNum (networkMask i) = Some m" "getLongest (address i) serv = Some l"
      using 2(2) by (auto split: option.splits)
    let ?b = "if l \<ge> m \<and> int l > fst best then (int l, w) else best"
    have "best_of serv (vis @ [i]) ?b"
      using best_of_skip [OF 2(4), of i] best_of_take [OF 2(4), of i l] m 2(3) by (auto simp: matches_def)
    from 2(1) [OF True m _ _ this] 2(2,3) True m show ?thesis by simp
  next
    case False
    then show ?thesis using 2 by simp
  qed
qed simp

section \<open>Properties\<close>

text \<open>
  C22 (the subnet test).  For a mask of \<open>n\<close> leading ones, the test of client and server, made on strings of
  binary digits, is the test on the addresses: the common prefix is at least as long as the number of ones
  counted in the mask if and only if both addresses are equal under the mask; and the number compared is
  the length of the longest common prefix.
\<close>

theorem subnet_test:
  assumes "inet_pton l = Some os1" and "inet_pton r = Some os2" and "inet_pton m = Some om"
    and "host om = prefix_mask n" and "n \<le> 32"
  shows "\<exists>k. getLongest l r = Some k \<and> getNetworkMaskNum m = Some n
    \<and> (n \<le> k \<longleftrightarrow> host os1 AND host om = host os2 AND host om)
    \<and> (k = 32 \<longleftrightarrow> host os1 = host os2)"
proof -
  obtain k where k: "getLongest l r = Some k" "k \<le> 32"
    "\<And>m. m \<le> 32 \<Longrightarrow> m \<le> k \<longleftrightarrow> drop_bit (32 - m) (host os1) = drop_bit (32 - m) (host os2)"
    using getLongest_spec [OF assms(1,2)] by blast
  have "n \<le> k \<longleftrightarrow> host os1 AND host om = host os2 AND host om"
    using k(3) [OF assms(5)] masked_eq [OF assms(5), of "host os1" "host os2"] assms(4) by simp
  moreover have "k = 32 \<longleftrightarrow> host os1 = host os2" using k(2) k(3) [of 32] by auto
  ultimately show ?thesis using k(1) mask_spec [OF assms(3-5)] by blast
qed

theorem subnet_test_witness:
  "inet_pton ''130.245.1.40'' = Some [130, 245, 1, 40] \<and> host [255, 255, 255, 0] = prefix_mask 24
   \<and> (\<exists>k. getLongest ''130.245.1.40'' ''130.245.1.200'' = Some k
       \<and> (24 \<le> k \<longleftrightarrow> host [130, 245, 1, 40] AND host [255, 255, 255, 0] = host [130, 245, 1, 200] AND host [255, 255, 255, 0]))"
proof -
  have p: "inet_pton ''130.245.1.40'' = Some [130, 245, 1, 40]" "inet_pton ''130.245.1.200'' = Some [130, 245, 1, 200]"
    "inet_pton ''255.255.255.0'' = Some [255, 255, 255, 0]"
    by (simp_all add: inet_pton_def digit_val_def)
  have m: "host [255, 255, 255, 0] = prefix_mask 24"
    by (simp add: host_def htonl_def s_addr_def prefix_mask_def mask_eq_exp_minus_1 push_bit_eq_mult)
  show ?thesis using subnet_test [OF p m] p(1) m by auto
qed

text \<open>
  C23 (choice of the interface).  Only the interfaces before the first empty entry of the array are considered.  When one of them is
  in the server's subnet, the choice is the one with the longest common prefix, the first of that length: if all 32 bits
  agree, both addresses become the loopback address, otherwise the server's address is kept and the client binds the address of that
  interface.  When none is in the server's subnet it is the first that is not the loopback interface.  A server
  address that is the loopback address itself is kept and used on both sides.
\<close>

theorem select_interface_best:
  assumes "select_interface serv ifs = Some (serv', client)"
  shows "(serv = LOOPBACK \<longrightarrow> serv' = LOOPBACK \<and> client = Some LOOPBACK) \<and>
    (serv \<noteq> LOOPBACK \<longrightarrow> (let vis = takeWhile (\<lambda>i. label i > 0) ifs in
      (\<exists>k l. k < length vis \<and> matches serv (vis ! k) l
        \<and> (\<forall>j l'. j < length vis \<and> matches serv (vis ! j) l' \<longrightarrow> l' \<le> l \<and> (j < k \<longrightarrow> l' < l))
        \<and> (serv', client) = (if l = 32 then (LOOPBACK, Some LOOPBACK) else (serv, Some (address (vis ! k)))))
      \<or> (\<forall>i \<in> set vis. \<forall>l. \<not> matches serv i l) \<and> serv' = serv
        \<and> client = map_option (\<lambda>h. address (ifs ! h)) (find_index (\<lambda>i. label i > 0 \<and> address i \<noteq> LOOPBACK) ifs)))"
proof (cases "serv = LOOPBACK")
  case True
  then show ?thesis using assms by (simp add: select_interface_def)
next
  case False
  let ?vis = "takeWhile (\<lambda>i. label i > 0) ifs"
  obtain L k where m: "longest_match serv 0 ifs (-1, 0) = Some (L, k)"
    and c: "(serv', client) = (if L = 32 then (LOOPBACK, Some LOOPBACK) else if L \<noteq> -1 then (serv, Some (address (ifs ! k)))
      else (serv, map_option (\<lambda>h. address (ifs ! h)) (find_index (\<lambda>i. label i > 0 \<and> address i \<noteq> LOOPBACK) ifs)))"
    using assms False by (auto simp: select_interface_def split: if_splits option.splits prod.splits)
  have b: "best_of serv ?vis (L, k)"
    using longest_match_best [OF m, of "[]"] by (simp add: best_of_def)
  show ?thesis
  proof (cases "L = -1")
    case True
    then show ?thesis using b c False by (simp add: best_of_def)
  next
    case L: False
    then have k: "k < length ?vis" "matches serv (?vis ! k) (nat L)" "0 \<le> L"
      and all: "\<And>j l. j < length ?vis \<Longrightarrow> matches serv (?vis ! j) l \<Longrightarrow> int l \<le> L \<and> (j < k \<longrightarrow> int l < L)"
      using b by (auto simp: best_of_def)
    have "(serv', client) = (if nat L = 32 then (LOOPBACK, Some LOOPBACK) else (serv, Some (address (?vis ! k))))"
      using c L k(1,3) by (auto simp: takeWhile_nth)
    moreover have "l' \<le> nat L \<and> (j < k \<longrightarrow> l' < nat L)" if "j < length ?vis \<and> matches serv (?vis ! j) l'" for j l'
      using all [of j l'] that by auto
    ultimately show ?thesis using k False unfolding Let_def by blast
  qed
qed

definition two_interfaces :: "interface list" where
  "two_interfaces = [\<lparr>label = 1, address = ''127.0.0.1'', networkMask = ''255.0.0.0''\<rparr>,
     \<lparr>label = 1, address = ''130.245.1.40'', networkMask = ''255.255.255.0''\<rparr>]"

theorem select_interface_best_witness:
  "select_interface ''130.245.1.200'' two_interfaces = Some (''130.245.1.200'', Some ''130.245.1.40'')
   \<and> (\<exists>k l. k < 2 \<and> address (two_interfaces ! k) = ''130.245.1.40''
       \<and> (\<forall>j l'. j < 2 \<and> matches ''130.245.1.200'' (two_interfaces ! j) l' \<longrightarrow> l' \<le> l))
   \<and> select_interface ''130.245.1.40'' two_interfaces = Some (LOOPBACK, Some LOOPBACK)"
proof -
  have e: "select_interface ''130.245.1.200'' two_interfaces = Some (''130.245.1.200'', Some ''130.245.1.40'')"
    "select_interface ''130.245.1.40'' two_interfaces = Some (LOOPBACK, Some LOOPBACK)"
    by code_simp+
  have n: "''130.245.1.200'' \<noteq> LOOPBACK" by (simp add: LOOPBACK_def)
  have v: "takeWhile (\<lambda>i. label i > 0) two_interfaces = two_interfaces" "length two_interfaces = 2"
    by (simp_all add: two_interfaces_def)
  have "getLongest (address (two_interfaces ! 1)) ''130.245.1.200'' = Some 24" by code_simp
  moreover have "getNetworkMaskNum (networkMask (two_interfaces ! 1)) = Some 24" by code_simp
  ultimately have m: "matches ''130.245.1.200'' (two_interfaces ! 1) 24" by (simp add: matches_def)
  have "two_interfaces ! 1 \<in> set two_interfaces" using v(2) by simp
  with select_interface_best [OF e(1), THEN conjunct2, rule_format, OF n, unfolded Let_def v] m obtain k l where "k < 2"
    "(''130.245.1.200'', Some ''130.245.1.40'')
      = (if l = 32 then (LOOPBACK, Some LOOPBACK) else (''130.245.1.200'', Some (address (two_interfaces ! k))))"
    "\<forall>j l'. j < 2 \<and> matches ''130.245.1.200'' (two_interfaces ! j) l' \<longrightarrow> l' \<le> l \<and> (j < k \<longrightarrow> l' < l)"
    by blast
  moreover from this(2) n have "address (two_interfaces ! k) = ''130.245.1.40''" by (auto split: if_splits)
  ultimately show ?thesis using e by blast
qed

end
