(* ===== verification/C_String.thy ===== *)
theory C_String
  imports Prelude
begin

text \<open>
  The C strings of the routing and resolution daemons: a string is a list of characters without the
  terminating zero; \<open>char_at\<close> reads the array, whose entry at the end of the string is zero.  The
  library functions the code uses (\<^verbatim>\<open>atoi\<close>, \<^verbatim>\<open>sprintf("%d")\<close>, \<^verbatim>\<open>strtok\<close>) are written out.
\<close>

definition nul :: char where "nul = CHR 0x00"

text \<open>The size of most buffers (\<^verbatim>\<open>unp.h\<close>).\<close>

definition MAXLINE :: nat where "MAXLINE = 4096"

text \<open>Characters and bytes.\<close>

definition byte_of :: "char \<Rightarrow> byte" where "byte_of c = of_nat (of_char c)"
definition char_of_byte :: "byte \<Rightarrow> char" where "char_of_byte b = char_of (unat b)"

text \<open>\<^verbatim>\<open>strcpy\<close> stops at the first zero.\<close>

definition cstr :: "string \<Rightarrow> string" where
  "cstr s = takeWhile (\<lambda>c. c \<noteq> nul) s"

text \<open>\<^verbatim>\<open>s[i]\<close> as a signed character.\<close>

definition char_at :: "string \<Rightarrow> nat \<Rightarrow> int" where
  "char_at s i = (if i < length s then sint (byte_of (s ! i)) else 0)"

definition is_digit :: "char \<Rightarrow> bool" where
  "is_digit c \<longleftrightarrow> 48 \<le> (of_char c :: nat) \<and> (of_char c :: nat) \<le> 57"

definition is_space :: "char \<Rightarrow> bool" where
  "is_space c \<longleftrightarrow> (of_char c :: nat) = 32 \<or> 9 \<le> (of_char c :: nat) \<and> (of_char c :: nat) \<le> 13"

fun digits_val :: "int \<Rightarrow> string \<Rightarrow> int" where
  "digits_val acc [] = acc"
| "digits_val acc (c # cs) = (if is_digit c then digits_val (acc * 10 + (int (of_char c) - 48)) cs else acc)"

text \<open>\<^verbatim>\<open>atoi\<close>: the conversion of the C library, \<^verbatim>\<open>(int) strtol(s, NULL, 10)\<close> with 64-bit \<^verbatim>\<open>long\<close>.\<close>

definition atoi :: "string \<Rightarrow> int" where
  "atoi s =
     (let s' = dropWhile is_space s;
          v = (case s' of
                 [] \<Rightarrow> 0
               | c # cs \<Rightarrow> if c = CHR ''-'' then - digits_val 0 cs
                           else if c = CHR ''+'' then digits_val 0 cs else digits_val 0 s')
      in to_int32 (max (- (2 ^ 63)) (min (2 ^ 63 - 1) v)))"

fun dec_nat :: "nat \<Rightarrow> string" where
  "dec_nat n = (if n < 10 then [char_of (n + 48)] else dec_nat (n div 10) @ [char_of (n mod 10 + 48)])"

declare dec_nat.simps [simp del]

text \<open>\<^verbatim>\<open>sprintf(s, "%d", n)\<close>\<close>

definition dec :: "int \<Rightarrow> string" where
  "dec n = (if n < 0 then CHR ''-'' # dec_nat (nat (- n)) else dec_nat (nat n))"

text \<open>\<^verbatim>\<open>strtok\<close> with one separator, called until it returns \<^verbatim>\<open>NULL\<close>: the maximal runs of other characters.\<close>

fun strtok :: "char \<Rightarrow> string \<Rightarrow> string \<Rightarrow> string list" where
  "strtok sep cur [] = (if cur = [] then [] else [rev cur])"
| "strtok sep cur (c # cs) =
     (if c = sep then (if cur = [] then strtok sep [] cs else rev cur # strtok sep [] cs)
      else strtok sep (c # cur) cs)"

text \<open>
  A string in an array of \<open>n\<close> characters: behind the terminating zero stands what the memory held before, for each
  position of the array a byte of its own.
\<close>

type_synonym memory = "nat \<Rightarrow> byte"

definition put_str :: "nat \<Rightarrow> memory \<Rightarrow> string \<Rightarrow> byte list" where
  "put_str n junk s = map byte_of s @ 0 # map junk [Suc (length s)..<n]"

definition get_str :: "nat \<Rightarrow> byte list \<Rightarrow> (string \<times> byte list) option" where
  "get_str n bs =
     (if length bs < n \<or> 0 \<notin> set (take n bs) then None
      else Some (map char_of_byte (takeWhile (\<lambda>b. b \<noteq> 0) (take n bs)), drop n bs))"

section \<open>Facts\<close>

lemma unat_byte_of: "unat (byte_of c) = of_char c"
proof -
  have "of_char c < (256::nat)" by simp
  then show ?thesis by (simp add: byte_of_def unsigned_of_nat take_bit_eq_mod)
qed

lemma char_of_byte_of [simp]: "char_of_byte (byte_of c) = c"
  by (simp add: char_of_byte_def unat_byte_of)

lemma byte_of_char_of [simp]: "byte_of (char_of_byte b) = b"
proof -
  have "unat b < 256" using unsigned_less [of b, where ?'a = nat] by simp
  then show ?thesis by (simp add: byte_of_def char_of_byte_def of_char_of take_bit_eq_mod)
qed

lemma byte_of_zero [simp]: "byte_of c = 0 \<longleftrightarrow> c = nul"
proof -
  have "char_of_byte 0 = nul" by (simp add: char_of_byte_def nul_def char_of_def)
  then show ?thesis by (metis char_of_byte_of byte_of_char_of)
qed

lemma of_char_digit [simp]: "d < 10 \<Longrightarrow> of_char (char_of (d + 48 :: nat)) = (d + 48 :: nat)"
  by (simp add: of_char_of take_bit_eq_mod)

lemma is_digit_digit [simp]: "d < 10 \<Longrightarrow> is_digit (char_of (d + 48 :: nat))"
  by (simp add: is_digit_def)

lemma digits_val_append:
  "\<forall>c \<in> set xs. is_digit c \<Longrightarrow> digits_val acc (xs @ ys) = digits_val (digits_val acc xs) ys"
  by (induction xs arbitrary: acc) auto

lemma dec_nat_digits: "c \<in> set (dec_nat n) \<Longrightarrow> is_digit c"
proof (induction n rule: dec_nat.induct)
  case (1 n)
  show ?case
  proof (cases "n < 10")
    case True
    then show ?thesis using 1(2) by (simp add: dec_nat.simps [of n])
  next
    case False
    then show ?thesis using 1 by (auto simp: dec_nat.simps [of n])
  qed
qed

lemma dec_nat_nonempty [simp]: "dec_nat n \<noteq> []"
  by (subst dec_nat.simps) simp

lemma digits_val_dec_nat: "digits_val 0 (dec_nat n) = int n"
proof (induction n rule: dec_nat.induct)
  case (1 n)
  show ?case
  proof (cases "n < 10")
    case True
    then show ?thesis by (simp add: dec_nat.simps [of n])
  next
    case False
    then have "digits_val 0 (dec_nat n) = digits_val (int (n div 10)) [char_of (n mod 10 + 48)]"
      using 1 dec_nat_digits by (simp add: dec_nat.simps [of n] digits_val_append)
    also have "\<dots> = int (n div 10) * 10 + int (n mod 10)" by simp
    also have "\<dots> = int n" by (metis mult.commute of_nat_add of_nat_mult of_nat_numeral mult_div_mod_eq)
    finally show ?thesis .
  qed
qed

lemma dec_nat_length: "n < 10 ^ k \<Longrightarrow> 0 < k \<Longrightarrow> length (dec_nat n) \<le> k"
proof (induction n arbitrary: k rule: dec_nat.induct)
  case (1 n)
  show ?case
  proof (cases "n < 10")
    case True
    then show ?thesis using 1(3) by (simp add: dec_nat.simps [of n])
  next
    case False
    then have "k \<noteq> 1" using 1(2) by auto
    then obtain j where k: "k = Suc j" "0 < j" using 1(3) by (cases k) auto
    then have "n div 10 < 10 ^ j" using 1(2) by (simp add: less_mult_imp_div_less mult.commute)
    then show ?thesis using 1(1) [OF False] k False by (simp add: dec_nat.simps [of n])
  qed
qed

lemma cstr_append: "nul \<notin> set s \<Longrightarrow> cstr (s @ t) = s @ cstr t"
  by (induction s) (auto simp: cstr_def)

lemma nul_not_dec: "nul \<notin> set (dec n)"
proof
  assume "nul \<in> set (dec n)"
  moreover have "\<not> is_digit nul" by (simp add: is_digit_def nul_def)
  ultimately show False using dec_nat_digits by (auto simp: dec_def nul_def split: if_splits)
qed

lemma digits_val_stop: "\<forall>c \<in> set s. is_digit c \<Longrightarrow> t = [] \<or> \<not> is_digit (hd t) \<Longrightarrow> digits_val acc (s @ t) = digits_val acc s"
  by (induction s arbitrary: acc) (cases t; auto)+

lemma atoi_digits_stop:
  assumes "s \<noteq> []" "\<forall>c \<in> set s. is_digit c" "0 \<le> digits_val 0 s" "digits_val 0 s < 2 ^ 31" "t = [] \<or> \<not> is_digit (hd t)"
  shows "atoi (s @ t) = digits_val 0 s"
proof -
  obtain c cs where s: "s = c # cs" using assms(1) by (cases s) auto
  have c: "is_digit c" using assms(2) s by simp
  have "\<not> is_space c" using c by (auto simp: is_digit_def is_space_def)
  moreover have "c \<noteq> CHR ''-''" "c \<noteq> CHR ''+''" using c by (auto simp: is_digit_def)
  ultimately have "atoi (s @ t) = to_int32 (max (- (2 ^ 63)) (min (2 ^ 63 - 1) (digits_val 0 (s @ t))))"
    by (simp add: atoi_def s Let_def)
  moreover have "max (- (2 ^ 63)) (min (2 ^ 63 - 1) (digits_val 0 s)) = digits_val 0 s" using assms(3,4) by simp
  moreover have "int32 (digits_val 0 s)" using assms(3,4) by (simp add: int32_def)
  ultimately show ?thesis using digits_val_stop [OF assms(2,5)] by (simp add: to_int32_id)
qed

lemmas atoi_digits = atoi_digits_stop [where t = "[]", simplified]

lemma dec_nonempty [simp]: "dec n \<noteq> []"
  by (simp add: dec_def)

lemma atoi_dec_plain: "0 \<le> n \<Longrightarrow> n < 2 ^ 31 \<Longrightarrow> atoi (dec n) = n"
  using atoi_digits [of "dec_nat (nat n)"] dec_nat_digits by (auto simp: dec_def digits_val_dec_nat)

text \<open>Two zeros in front do not change a number.\<close>

lemma atoi_dec:
  assumes "0 \<le> n" "n < 2 ^ 31"
  shows "atoi (CHR ''0'' # CHR ''0'' # dec n) = n"
proof -
  let ?s = "CHR ''0'' # CHR ''0'' # dec_nat (nat n)"
  have z: "is_digit CHR ''0''" by (simp add: is_digit_def)
  have v: "digits_val 0 ?s = n" using assms z by (simp add: digits_val_dec_nat)
  have "\<forall>c \<in> set ?s. is_digit c" using dec_nat_digits z by auto
  from atoi_digits [OF _ this] v assms show ?thesis by (simp add: dec_def)
qed

lemma takeWhile_put: "nul \<notin> set s \<Longrightarrow> takeWhile (\<lambda>b. b \<noteq> 0) (map byte_of s @ (0::byte) # zs) = map byte_of s"
  by (induction s) auto

lemma length_put_str [simp]: "length s < n \<Longrightarrow> length (put_str n junk s) = n"
  by (simp add: put_str_def del: upt_Suc)

lemma get_put_str [wire_simps]:
  assumes "length s < n" "nul \<notin> set s"
  shows "get_str n (put_str n junk s @ rest) = Some (s, rest)"
proof -
  have t: "take n (put_str n junk s @ rest) = put_str n junk s" "drop n (put_str n junk s @ rest) = rest"
    using assms(1) by simp_all
  have "map char_of_byte (map byte_of s) = s" by (simp add: comp_def)
  then show ?thesis
    using assms takeWhile_put [OF assms(2)] unfolding get_str_def t
    by (simp add: put_str_def del: upt_Suc)
qed

lemma get_str_wf: "get_str n bs = Some (s, rest) \<Longrightarrow> 0 < n \<Longrightarrow> length s < n \<and> nul \<notin> set s"
proof -
  assume g: "get_str n bs = Some (s, rest)" and n: "0 < n"
  then have s: "s = map char_of_byte (takeWhile (\<lambda>b. b \<noteq> 0) (take n bs))" and z: "0 \<in> set (take n bs)"
    by (auto simp: get_str_def split: if_splits)
  have "length (takeWhile (\<lambda>b. b \<noteq> 0) (take n bs)) < length (take n bs)"
    using z by (metis (mono_tags, lifting) length_takeWhile_le nat_less_le takeWhile_eq_take take_all_iff set_takeWhileD order_refl)
  then have "length s < n" by (simp add: s)
  moreover have "char_of_byte b \<noteq> nul" if "b \<noteq> (0::byte)" for b
    using that by (metis byte_of_char_of byte_of_zero)
  then have "nul \<notin> set s" by (force simp: s dest!: set_takeWhileD)
  ultimately show ?thesis by simp
qed

end
