(* ===== verification/Handshake.thy ===== *)
theory Handshake
  imports Subnet C_String
begin

text \<open>
  The connection set-up of the file transfer (\<^verbatim>\<open>udpcli.c\<close>, \<^verbatim>\<open>udpserv.c\<close>): the client sends the file name to the
  listening socket, the server answers with the port of a new socket, the client connects to it and sends an
  acknowledgement, which the server returns.  The events of the client are the draw that decides about the
  simulated loss, the alarm, and a datagram; a call of \<^verbatim>\<open>Write\<close> or \<^verbatim>\<open>select\<close> on a descriptor that was closed
  ends the process.
\<close>

section \<open>Client\<close>

datatype hs_pc = SendName | AwaitPort | SendAck | AwaitEcho | Connected | Exited

record hs_client =
  pc :: hs_pc
  sock_open :: bool
  peer_port :: int

datatype hs_event = Draw bool | Alarm | Datagram string

definition hs_client_init :: "int \<Rightarrow> hs_client" where
  "hs_client_init PORT_NUMBER = \<lparr>pc = SendName, sock_open = True, peer_port = PORT_NUMBER\<rparr>"

text \<open>One event: the new state and what is written to the socket.  The port is a 16-bit number.\<close>

definition hs_client_step :: "string \<Rightarrow> hs_client \<Rightarrow> hs_event \<Rightarrow> hs_client \<times> string list" where
  "hs_client_step filename c ev =
     (case (pc c, ev) of
        (SendName, Draw ok) \<Rightarrow>
          if sock_open c then (c\<lparr>pc := AwaitPort\<rparr>, if ok then [filename] else []) else (c\<lparr>pc := Exited\<rparr>, [])
      | (AwaitPort, Alarm) \<Rightarrow> (c\<lparr>pc := SendName\<rparr>, [])
      | (AwaitPort, Datagram recvline) \<Rightarrow> (c\<lparr>pc := SendAck, peer_port := atoi (cstr recvline) mod 2 ^ 16\<rparr>, [])
      | (SendAck, Draw ok) \<Rightarrow> (c\<lparr>pc := AwaitEcho\<rparr>, if ok then [''ACK''] else [])
      | (AwaitEcho, Alarm) \<Rightarrow> (c\<lparr>pc := SendName, sock_open := False\<rparr>, [])
      | (AwaitEcho, Datagram recvline) \<Rightarrow> (c\<lparr>pc := Connected\<rparr>, [])
      | _ \<Rightarrow> (c, []))"

fun hs_client_run :: "string \<Rightarrow> hs_client \<Rightarrow> hs_event list \<Rightarrow> hs_client \<times> string list" where
  "hs_client_run filename c [] = (c, [])"
| "hs_client_run filename c (ev # evs) =
     (let (c1, ws) = hs_client_step filename c ev; (c2, ws') = hs_client_run filename c1 evs in (c2, ws @ ws'))"

section \<open>Server\<close>

datatype hs_srv_pc = AwaitName | AwaitAck | Forked

record hs_server =
  srv_pc :: hs_srv_pc
  srv_filename :: string
  so_dontroute :: bool

datatype hs_srv_event = Name string string | SrvAlarm | Ack string

definition hs_server_init :: hs_server where
  "hs_server_init = \<lparr>srv_pc = AwaitName, srv_filename = [], so_dontroute = False\<rparr>"

text \<open>
  One event: the new state and the datagrams sent.  The name is not terminated by the code: it goes on with
  what the array held, \<open>old\<close>.  The port is sent as an array of thirty characters.  \<open>None\<close> is the end of the
  process because of an address that cannot be parsed.
\<close>

definition hs_server_step :: "string \<Rightarrow> srv_interface list \<Rightarrow> int \<Rightarrow> string \<Rightarrow> hs_server \<Rightarrow> hs_srv_event
    \<Rightarrow> (hs_server \<times> string list) option" where
  "hs_server_step connectionAddress ifs port old s ev =
     (case (srv_pc s, ev) of
        (AwaitName, Name bytes clientIP) \<Rightarrow>
          (case dont_route connectionAddress clientIP ifs of
             None \<Rightarrow> None
           | Some local \<Rightarrow>
               Some (s\<lparr>srv_pc := AwaitAck, srv_filename := cstr (bytes @ drop (length bytes) old), so_dontroute := so_dontroute s \<or> local\<rparr>,
                     [dec port @ replicate (30 - length (dec port)) nul]))
      | (AwaitAck, SrvAlarm) \<Rightarrow> Some (s\<lparr>srv_pc := AwaitName\<rparr>, [])
      | (AwaitAck, Ack acknowledgement) \<Rightarrow> Some (s\<lparr>srv_pc := Forked\<rparr>, [acknowledgement])
      | _ \<Rightarrow> Some (s, []))"

section \<open>A run without loss\<close>

text \<open>
  If no datagram is lost, both sides get through: the client is connected to the port of the server's new socket, the
  server forks the child with the file name of the client (if the array held a zero behind it), and routing is
  switched off exactly when the client is in the subnet of the interface.
\<close>

lemma handshake_runs:
  assumes "0 \<le> port" and "port < 2 ^ 16" and "nul \<notin> set filename" and "dont_route addr clientIP ifs = Some local"
    and "old = junk @ nul # rest" and "length junk = length filename"
  shows "\<exists>reply s1 s2.
    hs_client_run filename (hs_client_init p) [Draw True] = (\<lparr>pc = AwaitPort, sock_open = True, peer_port = p\<rparr>, [filename])
    \<and> hs_server_step addr ifs port old hs_server_init (Name filename clientIP) = Some (s1, [reply])
    \<and> hs_client_run filename \<lparr>pc = AwaitPort, sock_open = True, peer_port = p\<rparr> [Datagram reply, Draw True]
        = (\<lparr>pc = AwaitEcho, sock_open = True, peer_port = port\<rparr>, [''ACK''])
    \<and> hs_server_step addr ifs port old s1 (Ack ''ACK'') = Some (s2, [''ACK''])
    \<and> s2 = \<lparr>srv_pc = Forked, srv_filename = filename, so_dontroute = local\<rparr>
    \<and> hs_client_run filename \<lparr>pc = AwaitEcho, sock_open = True, peer_port = port\<rparr> [Datagram ''ACK'']
        = (\<lparr>pc = Connected, sock_open = True, peer_port = port\<rparr>, [])"
proof -
  let ?r = "dec port @ replicate (30 - length (dec port)) nul"
  have "cstr (replicate n nul) = []" for n by (cases n) (simp_all add: cstr_def)
  then have "cstr ?r = dec port" by (simp add: cstr_append nul_not_dec)
  moreover have "atoi (dec port) = port" using assms(1,2) by (intro atoi_dec_plain) auto
  ultimately have "atoi (cstr ?r) mod 2 ^ 16 = port" using assms(1,2) by simp
  moreover have "cstr (filename @ drop (length filename) old) = filename"
    using assms(3,5,6) by (simp add: cstr_append) (simp add: cstr_def)
  ultimately show ?thesis
    using assms(4) by (simp add: hs_client_step_def hs_client_init_def hs_server_step_def hs_server_init_def)
qed

section \<open>A lost acknowledgement\<close>

lemma closed_step:
  assumes "\<not> sock_open c" "pc c = SendName \<or> pc c = Exited"
  shows "hs_client_step filename c ev = (if (\<exists>b. ev = Draw b) \<and> pc c = SendName then c\<lparr>pc := Exited\<rparr> else c, [])"
  using assms by (cases ev) (auto simp: hs_client_step_def)

lemma closed_run:
  "\<not> sock_open c \<Longrightarrow> pc c = SendName \<or> pc c = Exited \<Longrightarrow>
    hs_client_run filename c evs = (if (\<exists>b. Draw b \<in> set evs) \<and> pc c = SendName then c\<lparr>pc := Exited\<rparr> else c, [])"
proof (induction evs arbitrary: c)
  case (Cons ev evs)
  let ?c = "if (\<exists>b. ev = Draw b) \<and> pc c = SendName then c\<lparr>pc := Exited\<rparr> else c"
  have "\<not> sock_open ?c" "pc ?c = SendName \<or> pc ?c = Exited" using Cons.prems by auto
  note ih = Cons.IH [OF this]
  show ?case using Cons.prems(2) by (auto simp: closed_step [OF Cons.prems] ih)
qed simp

text \<open>
  A lost acknowledgement ends the client.  When the alarm goes off while the client waits for its acknowledgement,
  it closes its socket and goes back to the start, where it uses the closed socket: whatever happens later it
  writes nothing more and is never connected, and the next pass of its loop ends the process.
\<close>

theorem lost_ack_ends_client:
  assumes "pc c = AwaitEcho" and "hs_client_run filename c (Alarm # evs) = (c', ws)"
  shows "ws = [] \<and> pc c' \<noteq> Connected \<and> ((\<exists>b. Draw b \<in> set evs) \<longrightarrow> pc c' = Exited)"
proof -
  let ?c = "c\<lparr>pc := SendName, sock_open := False\<rparr>"
  have "hs_client_run filename c (Alarm # evs) = hs_client_run filename ?c evs"
    using assms(1) by (simp add: hs_client_step_def split: prod.splits)
  also have "\<dots> = (if \<exists>b. Draw b \<in> set evs then ?c\<lparr>pc := Exited\<rparr> else ?c, [])"
    using closed_run [of ?c filename evs] by simp
  finally show ?thesis using assms(2) by (auto split: if_splits)
qed

theorem lost_ack_ends_client_witness:
  "\<exists>c'. hs_client_run ''f'' \<lparr>pc = AwaitEcho, sock_open = True, peer_port = 40001\<rparr> [Alarm, Draw True, Datagram ''40002''] = (c', [])
    \<and> pc c' = Exited"
proof -
  obtain c' ws where r: "hs_client_run ''f'' \<lparr>pc = AwaitEcho, sock_open = True, peer_port = 40001\<rparr> [Alarm, Draw True, Datagram ''40002''] = (c', ws)"
    by (cases "hs_client_run ''f'' \<lparr>pc = AwaitEcho, sock_open = True, peer_port = 40001\<rparr> [Alarm, Draw True, Datagram ''40002'']")
  from lost_ack_ends_client [OF _ r] r show ?thesis by auto
qed

end
