(* ===== verification/Params.thy ===== *)
theory Params
  imports C_String "HOL-Library.Monad_Syntax"
begin

text \<open>
  The parameter files of the file transfer, \<^verbatim>\<open>client.in\<close> and \<^verbatim>\<open>server.in\<close>, read line by line at the start of \<^verbatim>\<open>main\<close> in
  \<^verbatim>\<open>udpcli.c\<close> and \<^verbatim>\<open>udpserv.c\<close>.  A line that is missing leaves its variable as it was: zero for a static variable, unset
  (\<open>None\<close>) for a local one.  The line with the probability goes to \<^verbatim>\<open>atof\<close> and is kept as text.
\<close>

section \<open>Lines\<close>

definition newline :: char where "newline = CHR 0x0A"

text \<open>\<^verbatim>\<open>fgets(parameter, n, fp)\<close>: what is stored before the terminating zero, and the rest of the file.\<close>

definition fgets :: "nat \<Rightarrow> string \<Rightarrow> (string \<times> string) option" where
  "fgets n s =
     (if s = [] then None
      else let k = (case find_index (\<lambda>c. c = newline) (take (n - 1) s) of Some i \<Rightarrow> Suc i | None \<Rightarrow> n - 1)
           in Some (take k s, drop k s))"

text \<open>
  \<^verbatim>\<open>if (s[strlen(s) - 1] == '\n') s[strlen(s) - 1] = '\0'\<close>; an empty string is an access before the array.
\<close>

definition chomp :: "string \<Rightarrow> string option" where
  "chomp s = (if s = [] then None else Some (if last s = newline then butlast s else s))"

definition with_line :: "(string \<Rightarrow> 'a \<Rightarrow> 'a option) \<Rightarrow> string \<times> 'a \<Rightarrow> (string \<times> 'a) option" where
  "with_line f s =
     (case fgets MAXLINE (fst s) of
        None \<Rightarrow> Some s
      | Some (parameter, rest) \<Rightarrow> map_option (Pair rest) (f (cstr parameter) (snd s)))"

section \<open>The client\<close>

datatype 'a start = Started 'a | Exit_1 | Undefined

record client_in =
  currentServAddr :: "string option"
  PORT_NUMBER :: "int option"
  filename :: string
  max_window_size :: int
  seed :: "int option"
  probability :: "string option"
  mean :: int

definition client_unset :: client_in where
  "client_unset = \<lparr>currentServAddr = None, PORT_NUMBER = None, filename = [], max_window_size = 0, seed = None,
     probability = None, mean = 0\<rparr>"

definition read_client_in :: "string option \<Rightarrow> client_in start" where
  "read_client_in fp =
     (case fp of
        None \<Rightarrow> Exit_1
      | Some content \<Rightarrow>
          (case do {
             s \<leftarrow> with_line (\<lambda>l p. map_option (\<lambda>x. p\<lparr>currentServAddr := Some x\<rparr>) (chomp l)) (content, client_unset);
             s \<leftarrow> with_line (\<lambda>l p. Some (p\<lparr>PORT_NUMBER := Some (atoi l)\<rparr>)) s;
             s \<leftarrow> with_line (\<lambda>l p. map_option (\<lambda>x. p\<lparr>filename := x\<rparr>) (chomp l)) s;
             s \<leftarrow> with_line (\<lambda>l p. Some (p\<lparr>max_window_size := atoi l\<rparr>)) s;
             s \<leftarrow> with_line (\<lambda>l p. Some (p\<lparr>seed := Some (atoi l)\<rparr>)) s;
             s \<leftarrow> with_line (\<lambda>l p. Some (p\<lparr>probability := Some l\<rparr>)) s;
             with_line (\<lambda>l p. Some (p\<lparr>mean := atoi l\<rparr>)) s
           } of None \<Rightarrow> Undefined | Some s \<Rightarrow> Started (snd s)))"

section \<open>The server\<close>

record server_in =
  srv_PORT_NUMBER :: "int option"
  maxBufferSize :: int

definition read_server_in :: "string option \<Rightarrow> server_in start" where
  "read_server_in fp =
     (case fp of
        None \<Rightarrow> Exit_1
      | Some content \<Rightarrow>
          (case do {
             s \<leftarrow> with_line (\<lambda>l p. Some (p\<lparr>srv_PORT_NUMBER := Some (atoi l)\<rparr>)) (content, \<lparr>srv_PORT_NUMBER = None, maxBufferSize = 0\<rparr>);
             with_line (\<lambda>l p. Some (p\<lparr>maxBufferSize := atoi l\<rparr>)) s
           } of None \<Rightarrow> Undefined | Some s \<Rightarrow> Started (snd s)))"

section \<open>Facts\<close>

definition text_line :: "string \<Rightarrow> bool" where
  "text_line l \<longleftrightarrow> newline \<notin> set l \<and> nul \<notin> set l \<and> length l < MAXLINE - 1"

definition file_of :: "string list \<Rightarrow> string" where
  "file_of ls = concat (map (\<lambda>l. l @ [newline]) ls)"

lemma fgets_line: "text_line l \<Longrightarrow> fgets MAXLINE (l @ newline # rest) = Some (l @ [newline], rest)"
proof -
  assume a: "text_line l"
  then have "find_index (\<lambda>c. c = newline) l = None" by (auto simp: text_line_def find_index_None)
  moreover obtain m where "MAXLINE - 1 - length l = Suc m"
    using a by (metis text_line_def Suc_diff_Suc)
  then have "take (MAXLINE - 1) (l @ newline # rest) = l @ newline # take m rest"
    using a by (simp only: take_append) (simp add: text_line_def)
  ultimately show ?thesis by (simp add: fgets_def find_index_append Let_def)
qed

lemma with_line_file:
  assumes "text_line l"
  shows "with_line f (file_of (l # ls), p) = map_option (Pair (file_of ls)) (f (l @ [newline]) p)"
proof -
  have "cstr (l @ [newline]) = l @ [newline]"
    using assms by (simp add: cstr_append text_line_def) (simp add: cstr_def newline_def nul_def)
  then show ?thesis using fgets_line [OF assms, of "file_of ls"] by (simp add: with_line_def file_of_def)
qed

lemma with_line_end: "with_line f (file_of [], p) = Some (file_of [], p)"
  by (simp add: with_line_def file_of_def fgets_def)

lemma chomp_line: "chomp (l @ [newline]) = Some l"
  by (simp add: chomp_def)

lemma atoi_line:
  assumes "0 \<le> n" "n < 2 ^ 31"
  shows "atoi (dec n @ [newline]) = n"
proof -
  have "\<not> is_digit newline" by (simp add: is_digit_def newline_def)
  then show ?thesis
    using atoi_digits_stop [of "dec_nat (nat n)" "[newline]"] dec_nat_digits assms by (auto simp: dec_def digits_val_dec_nat)
qed

section \<open>Properties\<close>

lemma text_line_dec: "0 \<le> n \<Longrightarrow> n < 2 ^ 31 \<Longrightarrow> text_line (dec n)"
proof -
  assume a: "0 \<le> n" "n < 2 ^ 31"
  then have "length (dec n) \<le> 10" using dec_nat_length [of "nat n" 10] by (simp add: dec_def nat_less_iff)
  moreover have "\<not> is_digit newline" by (simp add: is_digit_def newline_def)
  then have "newline \<notin> set (dec n)" using a dec_nat_digits by (auto simp: dec_def)
  ultimately show ?thesis using nul_not_dec by (simp add: text_line_def MAXLINE_def)
qed

lemmas read_line_simps = with_line_file with_line_end chomp_line

lemma client_file_read:
  assumes "text_line addr" "text_line name" "text_line prob"
    and "0 \<le> port" "port < 2 ^ 31" "0 \<le> window" "window < 2 ^ 31" "0 \<le> sd" "sd < 2 ^ 31" "0 \<le> mn" "mn < 2 ^ 31"
  shows "read_client_in (Some (file_of (take k [addr, dec port, name, dec window, dec sd, prob, dec mn])))
    = Started \<lparr>currentServAddr = (if 1 \<le> k then Some addr else None), PORT_NUMBER = (if 2 \<le> k then Some port else None),
        filename = (if 3 \<le> k then name else []), max_window_size = (if 4 \<le> k then window else 0),
        seed = (if 5 \<le> k then Some sd else None), probability = (if 6 \<le> k then Some (prob @ [newline]) else None),
        mean = (if 7 \<le> k then mn else 0)\<rparr>"
proof -
  note nums = text_line_dec [OF assms(4,5)] text_line_dec [OF assms(6,7)] text_line_dec [OF assms(8,9)] text_line_dec [OF assms(10,11)]
    atoi_line [OF assms(4,5)] atoi_line [OF assms(6,7)] atoi_line [OF assms(8,9)] atoi_line [OF assms(10,11)]
  consider "k = 0" | "k = 1" | "k = 2" | "k = 3" | "k = 4" | "k = 5" | "k = 6" | "7 \<le> k" by linarith
  then show ?thesis
    by cases (simp_all add: assms(1-3) nums read_client_in_def client_unset_def read_line_simps)
qed

lemma server_file_read:
  assumes "0 \<le> port" "port < 2 ^ 31" "0 \<le> window" "window < 2 ^ 31"
  shows "read_server_in (Some (file_of (take k [dec port, dec window])))
    = Started \<lparr>srv_PORT_NUMBER = (if 1 \<le> k then Some port else None), maxBufferSize = (if 2 \<le> k then window else 0)\<rparr>"
proof -
  note nums = text_line_dec [OF assms(1,2)] text_line_dec [OF assms(3,4)] atoi_line [OF assms(1,2)] atoi_line [OF assms(3,4)]
  consider "k = 0" | "k = 1" | "2 \<le> k" by linarith
  then show ?thesis by cases (simp_all add: nums read_server_in_def read_line_simps)
qed

text \<open>
  C29 (what is in the parameter files is what the programs use): a file with the first \<open>k\<close> of the values, one on a line, sets exactly
  the first \<open>k\<close> parameters, to these values.  A file that is too short is accepted: the server's address, the port and the
  seed are then used unset, the window and the mean are zero and the file name is empty.
\<close>

theorem parameters_read:
  assumes "text_line addr" "text_line name" "text_line prob"
    and "0 \<le> port" "port < 2 ^ 31" "0 \<le> window" "window < 2 ^ 31" "0 \<le> sd" "sd < 2 ^ 31" "0 \<le> mn" "mn < 2 ^ 31"
  shows "read_client_in (Some (file_of (take k [addr, dec port, name, dec window, dec sd, prob, dec mn])))
    = Started \<lparr>currentServAddr = (if 1 \<le> k then Some addr else None), PORT_NUMBER = (if 2 \<le> k then Some port else None),
        filename = (if 3 \<le> k then name else []), max_window_size = (if 4 \<le> k then window else 0),
        seed = (if 5 \<le> k then Some sd else None), probability = (if 6 \<le> k then Some (prob @ [newline]) else None),
        mean = (if 7 \<le> k then mn else 0)\<rparr>
    \<and> read_server_in (Some (file_of (take k [dec port, dec window])))
    = Started \<lparr>srv_PORT_NUMBER = (if 1 \<le> k then Some port else None), maxBufferSize = (if 2 \<le> k then window else 0)\<rparr>"
  using client_file_read [OF assms] server_file_read [OF assms(4-7)] by blast

theorem parameters_read_witness:
  "read_client_in (Some (file_of [''127.0.0.1'', ''8002'', ''a.txt'']))
    = Started \<lparr>currentServAddr = Some ''127.0.0.1'', PORT_NUMBER = Some 8002, filename = ''a.txt'', max_window_size = 0,
        seed = None, probability = None, mean = 0\<rparr>
   \<and> read_server_in (Some (file_of [''8002'', ''10''])) = Started \<lparr>srv_PORT_NUMBER = Some 8002, maxBufferSize = 10\<rparr>"
proof -
  have "text_line ''127.0.0.1''" "text_line ''a.txt''" "text_line ''0.1''" by (simp_all add: text_line_def newline_def nul_def MAXLINE_def)
  moreover have "dec 8002 = ''8002''" "dec 10 = ''10''" by (simp_all add: dec_def dec_nat.simps char_of_def bit_0)
  ultimately show ?thesis
    using parameters_read [of "''127.0.0.1''" "''a.txt''" "''0.1''" 8002 10 0 0 3] by simp
qed

end
