(* ===== verification/File_Session.thy ===== *)
theory File_Session
  imports Transfer_Liveness Handshake Params
begin

text \<open>
  A session of the file transfer from its parameter files to the printed file (\<^verbatim>\<open>udpcli.c\<close> and \<^verbatim>\<open>udpserv.c\<close>): the parameters
  (theory \<open>Params\<close>), the connection set-up (theory \<open>Handshake\<close>), the child process that opens the file, and the transfer (theories
  \<open>File_Transfer\<close> and \<open>Transfer_Liveness\<close>).
\<close>

section \<open>Opening the file\<close>

text \<open>
  The child reads the whole file into memory.  \<open>fs\<close> is the file system; the file is \<open>None\<close> when \<^verbatim>\<open>fopen\<close> fails (\<^verbatim>\<open>file_exists = 0\<close>),
  and the whole result is \<open>None\<close> when there is no memory: the transfer then reads through a null pointer.
\<close>

definition open_file :: "(string \<Rightarrow> byte list option) \<Rightarrow> (nat \<Rightarrow> bool) \<Rightarrow> string \<Rightarrow> byte list option option" where
  "open_file fs malloc name =
     (case fs name of
        None \<Rightarrow> Some None
      | Some dat \<Rightarrow> if malloc (length dat) then Some (Some dat) else None)"

section \<open>The set-up without loss\<close>

text \<open>The messages of both sides, each delivered to the other.\<close>

definition session_setup :: "string \<Rightarrow> int \<Rightarrow> string \<Rightarrow> srv_interface list \<Rightarrow> int \<Rightarrow> string \<Rightarrow> string \<Rightarrow> (hs_client \<times> hs_server) option" where
  "session_setup name p connectionAddress ifs port old clientIP =
     (let (c1, w1) = hs_client_run name (hs_client_init p) [Draw True]
      in case hs_server_step connectionAddress ifs port old hs_server_init (Name (hd w1) clientIP) of
           None \<Rightarrow> None
         | Some (s1, r1) \<Rightarrow>
             (let (c2, w2) = hs_client_run name c1 [Datagram (hd r1), Draw True]
              in case hs_server_step connectionAddress ifs port old s1 (Ack (hd w2)) of
                   None \<Rightarrow> None
                 | Some (s2, r2) \<Rightarrow> Some (fst (hs_client_run name c2 [Datagram (hd r2)]), s2)))"

lemma session_setup_runs:
  assumes "0 \<le> port" "port < 2 ^ 16" "nul \<notin> set name" "dont_route addr clientIP ifs = Some local"
    "old = junk @ nul # rest" "length junk = length name"
  shows "session_setup name p addr ifs port old clientIP
    = Some (\<lparr>pc = Connected, sock_open = True, peer_port = port\<rparr>, \<lparr>srv_pc = Forked, srv_filename = name, so_dontroute = local\<rparr>)"
  using handshake_runs [OF assms, of p] by (auto simp: session_setup_def simp del: hs_client_run.simps)

section \<open>A file that does not exist\<close>

text \<open>
  The first request of the client, the server's pass over it, and the client's reading of the first segment it gets.
\<close>

definition first_exchange :: "byte list option \<Rightarrow> int \<Rightarrow> int \<Rightarrow> server \<Rightarrow> int \<Rightarrow> (nat \<Rightarrow> int) \<Rightarrow> byte \<Rightarrow> client option" where
  "first_exchange file maxBuf maxw s time_back clk junk =
     (case cl_step maxw cl_init (MainStep True) of
        Some (c1, Some req) \<Rightarrow>
          (case srv_iter file maxBuf s (RequestIn time_back clk req) of
             Running s' (seg # out) \<Rightarrow> cl_run maxw c1 [MainStep True, MainStep True, ReadDatagram (encode_segment seg) True junk]
           | _ \<Rightarrow> None)
      | _ \<Rightarrow> None)"

lemma first_request: "cl_step maxw cl_init (MainStep True)
    = Some (cl_init\<lparr>Udp_Client.client.pc := Requested maxw\<rparr>, Some (encode_segment (zero_segment\<lparr>ack_num := 1, rwnd := maxw\<rparr>)))"
  by (simp add: cl_init_def make_request_def zero_segment_def Let_def)


text \<open>Every segment the server sends then says so, and the sending loop never reads the file.\<close>

definition no_such_file :: "int \<Rightarrow> segment" where
  "no_such_file now = zero_segment\<lparr>sequence_num := -1, ack_num := -1, timestamp := now\<rparr>"

lemma build_no_such_file: "0 < rw \<Longrightarrow> int32 k \<Longrightarrow> build_segment None rw (int (Suc n)) now k = Some (no_such_file now)"
  by (simp add: build_segment_def zero_segment_def no_such_file_def Let_def)

lemma no_such_file_flags: "is_eof (no_such_file now) = 0" "is_probe (no_such_file now) = 0"
  by (simp_all add: no_such_file_def zero_segment_def)

lemma send_loop_no_such_file:
  assumes "0 < rw" "0 < ws" and "0 \<le> last_seg_acked s" "last_seg_acked s + int n < 2 ^ 31"
  shows "\<exists>s' out. send_loop None rw ws clk n k s = Some (s', out) \<and> length out = n \<and> (\<forall>x \<in> set out. \<exists>i. x = no_such_file (clk i))"
  using assms(3,4)
proof (induction n arbitrary: k s)
  case (Suc n)
  have i: "int32 (last_seg_acked s + 1)" using Suc.prems by (simp add: int32_def)
  define b where "b = buffer_segment (no_such_file (clk k)) (send_base s, num_seg_in_buf s)"
  let ?s = "s\<lparr>last_seg_acked := last_seg_acked s + 1, send_base := fst b, num_seg_in_buf := snd b, last_out_time := timestamp (no_such_file (clk k))\<rparr>"
  obtain s' out where "send_loop None rw ws clk n (Suc k) ?s = Some (s', out)" "length out = n" "\<forall>x \<in> set out. \<exists>i. x = no_such_file (clk i)"
    using Suc.IH [of ?s "Suc k"] Suc.prems by auto
  then have "send_loop None rw ws clk (Suc n) k s = Some (s', no_such_file (clk k) # out)"
    using assms(1,2) build_no_such_file [OF _ i, of rw n "clk k"] by (simp add: no_such_file_flags Let_def case_prod_unfold flip: b_def)
  then show ?case using \<open>length out = n\<close> \<open>\<forall>x \<in> set out. _\<close> by auto
qed simp

lemma missing_request:
  assumes "0 < maxw" "0 < maxBuf"
  shows "\<exists>s' i out. srv_request None maxBuf (srv_begin (srv_init g t0)) tb clk (zero_segment\<lparr>ack_num := 1, rwnd := maxw\<rparr>)
    = Running s' (no_such_file (clk i) # out)"
proof -
  let ?r = "zero_segment\<lparr>ack_num := 1, rwnd := maxw\<rparr>" and ?s = "srv_begin (srv_init g t0)"
  have c: "cwnd (get_cwnd (srv_cong ?s) 1) = 2" "send_base ?s = []" "num_seg_in_buf ?s = 0"
    by (simp_all add: cong_defs cong_init_def srv_begin_def srv_init_def)
  have f: "\<not> flag_set (is_complete ?r)" "ack_num ?r = 1" "rwnd ?r = maxw" by (simp_all add: zero_segment_def)
  have n: "nat (segments_to_send maxw 2 maxBuf) \<noteq> 0" using assms by (simp add: segments_to_send_min)
  let ?s0 = "?s\<lparr>srv_rtt := rtt_reply (srv_rtt ?s) tb (last_out_time ?s), srv_cong := (get_cwnd (srv_cong ?s) 1)\<lparr>prev_ack_seg_num := 1\<rparr>,
      last_seg_acked := 0, send_base := [], num_seg_in_buf := 0\<rparr>"
  have q: "int (nat (segments_to_send maxw 2 maxBuf)) < 2 ^ 31" using assms by (auto simp: segments_to_send_min min_def)
  obtain s' out where l: "send_loop None maxw maxBuf clk (nat (segments_to_send maxw 2 maxBuf)) 0 ?s0 = Some (s', out)"
    "length out = nat (segments_to_send maxw 2 maxBuf)" "\<forall>x \<in> set out. \<exists>i. x = no_such_file (clk i)"
    using send_loop_no_such_file [OF assms, of ?s0 "nat (segments_to_send maxw 2 maxBuf)" clk 0] q by auto
  obtain x out' where "out = x # out'" using l(2) n by (cases out) auto
  with l c f show ?thesis by (auto simp: srv_request_def Let_def)
qed

lemma missing_file_exchange:
  assumes "0 < maxw" "maxw < 2 ^ 31" "0 < maxBuf" "\<forall>k. int32 (clk k)"
  shows "\<exists>c. first_exchange None maxBuf maxw (srv_init g t0) tb clk junk = Some c \<and> Udp_Client.client.pc c = Udp_Client.Exited \<and> printed c = []"
proof -
  let ?req = "zero_segment\<lparr>ack_num := 1, rwnd := maxw\<rparr>"
  have w: "wf_segment ?req" using assms(1,2) by (simp add: wf_segment_def zero_segment_def int32_def)
  have t: "timer_ok (srv_rtt (srv_init g t0))" by (simp add: timer_ok_def srv_init_def rtt_init_def)
  obtain s' i out where r: "srv_iter None maxBuf (srv_init g t0) (RequestIn tb clk (encode_segment ?req)) = Running s' (no_such_file (clk i) # out)"
    using srv_iter_go(2) [OF t decode_encode [OF w]] missing_request [OF assms(1,3)] by metis
  have "wf_segment (no_such_file (clk i))" using assms(4) by (simp add: no_such_file_def wf_segment_def zero_segment_def int32_def)
  then have d: "decode_segment (encode_segment (no_such_file (clk i))) = Some (no_such_file (clk i))" by (rule decode_encode)
  have "sequence_num (no_such_file (clk i)) = -1" "ack_num (no_such_file (clk i)) = -1" by (simp_all add: no_such_file_def)
  moreover have "first_exchange None maxBuf maxw (srv_init g t0) tb clk junk = cl_run maxw (cl_init\<lparr>Udp_Client.client.pc := Requested maxw\<rparr>)
      [MainStep True, MainStep True, ReadDatagram (encode_segment (no_such_file (clk i))) True junk]"
    unfolding first_exchange_def first_request by (simp only: option.case prod.case r srv_result.case list.case)
  ultimately show ?thesis using assms(1) by (simp add: d cl_init_def classify_read_def)
qed

section \<open>Property\<close>

text \<open>
  C10 (a session from its parameter files).  The parameter files are complete and both windows are positive, and no message of the
  set-up is lost.  Then the client is connected to the new socket of the server and the child process has the name in the
  client's file.  If that file exists, is not empty and has fewer than \<open>2 ^ 31\<close> bytes, the transfer with the two windows can come to its end, with both threads
  of the client done and, for a file without zero bytes, the whole file printed.  If it does not exist, the first
  segment the client reads tells it so, and the client exits and has printed nothing.
\<close>

theorem file_session:
  assumes "text_line serv" "text_line name" "text_line prob"
    and "0 \<le> port" "port < 2 ^ 31" "0 < window" "window < 2 ^ 31" "0 \<le> sd" "sd < 2 ^ 31" "0 \<le> mn" "mn < 2 ^ 31" "0 < buf" "buf < 2 ^ 31"
    and "0 \<le> cport" "cport < 2 ^ 16" "dont_route addr clientIP ifs = Some local" "old = junk0 @ nul # rest" "length junk0 = length name"
    and "\<forall>k. int32 (clk k)"
  shows "\<exists>ci si c s. read_client_in (Some (file_of [serv, dec port, name, dec window, dec sd, prob, dec mn])) = Started ci
    \<and> read_server_in (Some (file_of [dec port, dec buf])) = Started si
    \<and> session_setup (filename ci) port addr ifs cport old clientIP = Some (c, s) \<and> pc c = Connected \<and> peer_port c = cport \<and> srv_pc s = Forked
    \<and> (\<forall>dat. fs name = Some dat \<and> malloc (length dat) \<and> dat \<noteq> [] \<and> length dat < 2 ^ 31 \<longrightarrow>
        open_file fs malloc (srv_filename s) = Some (Some dat)
        \<and> (\<exists>y s'. reachable dat (maxBufferSize si) (max_window_size ci) y \<and> sys_server y = Completed s'
            \<and> Udp_Client.client.pc (sys_client y) = TimeWait \<and> consumer (sys_client y) = Ended
            \<and> (0 \<notin> set dat \<longrightarrow> concat (map printed_text (printed (sys_client y))) = dat)))
    \<and> (fs name = None \<longrightarrow> open_file fs malloc (srv_filename s) = Some None
        \<and> (\<exists>c'. first_exchange None (maxBufferSize si) (max_window_size ci) (srv_init g t0) tb clk junk = Some c'
            \<and> Udp_Client.client.pc c' = Udp_Client.Exited \<and> printed c' = []))"
proof -
  let ?cf = "file_of [serv, dec port, name, dec window, dec sd, prob, dec mn]" and ?sf = "file_of [dec port, dec buf]"
  obtain ci where ci: "read_client_in (Some ?cf) = Started ci" "filename ci = name" "max_window_size ci = window"
    using client_file_read [OF assms(1-5) _ assms(7-11), of 7] assms(6) by simp
  obtain si where si: "read_server_in (Some ?sf) = Started si" "maxBufferSize si = buf"
    using server_file_read [OF assms(4,5) _ assms(13), of 2] assms(12) by simp
  have "nul \<notin> set name" using assms(2) by (simp add: text_line_def)
  note conn = session_setup_runs [OF assms(14,15) this assms(16-18), of port]
  have found: "\<exists>y s'. reachable dat buf window y \<and> sys_server y = Completed s' \<and> Udp_Client.client.pc (sys_client y) = TimeWait
      \<and> consumer (sys_client y) = Ended \<and> (0 \<notin> set dat \<longrightarrow> concat (map printed_text (printed (sys_client y))) = dat)"
    if d: "dat \<noteq> []" "length dat < 2 ^ 31" for dat
  proof -
    obtain y s' where y: "reachable dat buf window y" "sys_server y = Completed s'" "Udp_Client.client.pc (sys_client y) = TimeWait"
      "consumer (sys_client y) = Ended"
      using completion [OF d(1) assms(12,6,7) d(2)] by blast
    have "sys_ok dat buf window y" using reachable_ok [OF y(1)] assms(6,7,12) d by simp
    from complete_all_printed(2) [OF this] y show ?thesis by blast
  qed
  show ?thesis
    using ci si conn found missing_file_exchange [OF assms(6,7,12,19), of g t0 tb junk] by (simp add: open_file_def)
qed

theorem file_session_witness:
  "\<exists>ci si c s. read_client_in (Some (file_of [''130.245.1.7'', dec 8002, ''a.txt'', dec 10, dec 7, ''0.1'', dec 50])) = Started ci
    \<and> read_server_in (Some (file_of [dec 8002, dec 6])) = Started si
    \<and> session_setup (filename ci) 8002 ''127.0.0.1'' [] 40001 (replicate 100 nul) ''127.0.0.1'' = Some (c, s) \<and> pc c = Connected
    \<and> (\<exists>y s'. reachable [104, 105] (maxBufferSize si) (max_window_size ci) y \<and> sys_server y = Completed s'
        \<and> concat (map printed_text (printed (sys_client y))) = [104, 105])"
proof -
  let ?fs = "\<lambda>n. if n = ''a.txt'' then Some [104, 105] else None"
  have t: "text_line ''130.245.1.7''" "text_line ''a.txt''" "text_line ''0.1''"
    by (simp_all add: text_line_def newline_def nul_def MAXLINE_def)
  have d: "dont_route ''127.0.0.1'' ''127.0.0.1'' [] = Some False" by (simp add: dont_route_def LOOPBACK_def)
  have o: "replicate 100 nul = replicate 5 nul @ nul # replicate 94 nul" by code_simp
  have c: "\<forall>k :: nat. int32 0" by (simp add: int32_def)
  have s: "?fs ''a.txt'' = Some [104, 105] \<and> True \<and> [104, 105] \<noteq> ([] :: byte list) \<and> length [104::byte, 105] < 2 ^ 31 \<and> 0 \<notin> set [104, 105 :: byte]"
    using hi_file(5) by simp
  show ?thesis
    using file_session [OF t _ _ _ _ _ _ _ _ _ _ _ _ d o _ c, of 8002 10 7 50 6 40001 ?fs "\<lambda>_. True" 0 0 0 0] s by (elim exE conjE) force
qed

end
