(* ===== verification/Hw_Addr.thy ===== *)
theory Hw_Addr
  imports C_String
begin

text \<open>
  Hardware addresses as the routing, the resolution and the tour daemon see them: the list of interfaces
  that \<^verbatim>\<open>Get_hw_addrs\<close> returns (\<^verbatim>\<open>hw_addrs.h\<close>), and the test for
  an empty address, the same lines in all three programs.
\<close>

text \<open>The protocol number of all frames, \<^verbatim>\<open>htons(0x5403)\<close>.\<close>

definition SELF_PROTOCOL :: "byte list" where "SELF_PROTOCOL = [0x54, 0x03]"

type_synonym mac = "byte list"

record hwa_info =
  if_name :: string
  if_haddr :: mac
  hwa_index :: int
  ip_addr :: string

text \<open>
  \<^verbatim>\<open>if (*mac++ & 0xff != 0)\<close>: the comparison binds more tightly than \<^verbatim>\<open>&\<close>, so the lowest bit of each byte
  is tested.
\<close>

definition checkAddressNotEmpty :: "mac \<Rightarrow> bool" where
  "checkAddressNotEmpty mac \<longleftrightarrow> list_ex (\<lambda>b. b AND 1 \<noteq> 0) (take 6 mac)"

lemma even_mac_empty: "\<forall>b \<in> set (take 6 mac). even b \<Longrightarrow> \<not> checkAddressNotEmpty mac"
proof -
  assume e: "\<forall>b \<in> set (take 6 mac). even b"
  have "b AND 1 = 0" if "even b" for b :: byte using that by (simp add: and_one_eq even_iff_mod_2_eq_zero)
  then show ?thesis using e by (auto simp: checkAddressNotEmpty_def list_ex_iff)
qed

end
