(* ===== verification/Slot_Table.thy ===== *)
theory Slot_Table
  imports Prelude
begin

text \<open>
  The contract of the two small tables of the daemons, the port map of the routing daemon and the address
  table of the resolution daemon: entries are only added, into one of a fixed number of free places, and
  a search returns the entry that was added first under its key.
\<close>

locale slot_table =
  fixes add :: "'k \<Rightarrow> 'v \<Rightarrow> 't \<Rightarrow> 't"
    and search :: "'k \<Rightarrow> 't \<Rightarrow> 'v option"
    and free :: "'t \<Rightarrow> nat"
    and key_ok :: "'k \<Rightarrow> bool"
    and inv :: "'t \<Rightarrow> bool"
  assumes inv_add: "inv t \<Longrightarrow> key_ok k \<Longrightarrow> 0 < free t \<Longrightarrow> inv (add k v t)"
    and free_add: "inv t \<Longrightarrow> key_ok k \<Longrightarrow> 0 < free t \<Longrightarrow> free (add k v t) = free t - 1"
    and search_add: "inv t \<Longrightarrow> key_ok k \<Longrightarrow> key_ok j \<Longrightarrow> 0 < free t \<Longrightarrow>
      search j (add k v t) = (case search j t of Some x \<Rightarrow> Some x | None \<Rightarrow> if j = k then Some v else None)"
begin

definition adds :: "('k \<times> 'v) list \<Rightarrow> 't \<Rightarrow> 't" where
  "adds kvs t = foldl (\<lambda>t kv. add (fst kv) (snd kv) t) t kvs"

lemma adds_simps [simp]: "adds [] t = t" "adds (kv # kvs) t = adds kvs (add (fst kv) (snd kv) t)"
  by (simp_all add: adds_def)

text \<open>After some additions a search finds the older entry, or the first of the new ones.\<close>

lemma search_adds:
  assumes "inv t" "\<forall>kv \<in> set kvs. key_ok (fst kv)" "key_ok j" "length kvs \<le> free t"
  shows "search j (adds kvs t) = (case search j t of Some x \<Rightarrow> Some x | None \<Rightarrow> map_of kvs j)"
    and "free (adds kvs t) = free t - length kvs" and "inv (adds kvs t)"
  using assms
proof (induction kvs arbitrary: t)
  case Nil
  {
    case 1
    then show ?case by (simp split: option.splits)
  next
    case 2
    then show ?case by simp
  next
    case 3
    then show ?case by simp
  }
next
  case (Cons kv kvs)
  {
    case 1
    then show ?case
      using Cons.IH(1) [of "add (fst kv) (snd kv) t"]
      by (cases "search j t"; cases kv) (auto simp: inv_add free_add search_add)
  next
    case 2
    then show ?case using Cons.IH(2) [of "add (fst kv) (snd kv) t"] by (simp add: inv_add free_add)
  next
    case 3
    then show ?case using Cons.IH(3) [of "add (fst kv) (snd kv) t"] by (simp add: inv_add free_add)
  }
qed

lemma distinct_keys_found:
  assumes "inv t" "\<forall>kv \<in> set kvs. key_ok (fst kv) \<and> search (fst kv) t = None" "length kvs \<le> free t"
    and "distinct (map fst kvs)" "(k, v) \<in> set kvs"
  shows "search k (adds kvs t) = Some v"
proof -
  have "key_ok k" "search k t = None" using assms(2,5) by force+
  moreover have "map_of kvs k = Some v" using assms(4,5) by simp
  ultimately show ?thesis using search_adds(1) [OF assms(1)] assms(2,3) by simp
qed

end

end
