(* ===== verification/Arp.thy ===== *)
theory Arp
  imports Wire Hw_Addr Slot_Table "HOL-Library.Monad_Syntax"
begin

text \<open>
  The address resolution daemon (\<^verbatim>\<open>arp_chechung.c\<close>): the message of 30 bytes and its frame, dotted addresses,
  the table of entries with the file descriptors of waiting clients, and the two handlers of the \<^verbatim>\<open>select\<close>
  loop.  The first \<^verbatim>\<open>numEntries\<close> places of \<^verbatim>\<open>arpTable\<close> are a list of at most \<^verbatim>\<open>ARP_TABLE_SIZE\<close> entries.  A handler
  returns \<open>None\<close> where the code has undefined behaviour or never returns, otherwise the new state and the
  effects in their order.
\<close>

definition IPADDR_SIZE :: nat where "IPADDR_SIZE = 20"
definition ARP_TABLE_SIZE :: nat where "ARP_TABLE_SIZE = 20"
definition ARP_LEN :: nat where "ARP_LEN = 50"
definition INTERFACE_SIZE :: nat where "INTERFACE_SIZE = 20"

section \<open>Dotted addresses\<close>

text \<open>One \<^verbatim>\<open>%d\<close> of \<^verbatim>\<open>sscanf\<close>: white space, a sign, digits; the value and what follows.\<close>

definition scan_int :: "string \<Rightarrow> (int \<times> string) option" where
  "scan_int s =
     (let s1 = dropWhile is_space s;
          neg = (s1 \<noteq> [] \<and> hd s1 = CHR ''-'');
          s2 = (if s1 \<noteq> [] \<and> (hd s1 = CHR ''-'' \<or> hd s1 = CHR ''+'') then tl s1 else s1);
          ds = takeWhile is_digit s2;
          v = (if neg then - digits_val 0 ds else digits_val 0 ds)
      in if ds = [] then None
         else Some (to_int32 (max (- (2 ^ 63)) (min (2 ^ 63 - 1) v)), dropWhile is_digit s2))"

fun scan_char :: "char \<Rightarrow> string \<Rightarrow> string option" where
  "scan_char c (x # xs) = (if x = c then Some xs else None)"
| "scan_char c [] = None"

text \<open>When \<^verbatim>\<open>sscanf\<close> stops early, a variable without a value is copied: \<open>None\<close>.\<close>

definition setIPAddr :: "string \<Rightarrow> byte list option" where
  "setIPAddr ipString =
     do {
       (ip1, r1) \<leftarrow> scan_int ipString;
       s1 \<leftarrow> scan_char CHR ''.'' r1;
       (ip2, r2) \<leftarrow> scan_int s1;
       s2 \<leftarrow> scan_char CHR ''.'' r2;
       (ip3, r3) \<leftarrow> scan_int s2;
       s3 \<leftarrow> scan_char CHR ''.'' r3;
       (ip4, r4) \<leftarrow> scan_int s3;
       Some [word_of_int ip1, word_of_int ip2, word_of_int ip3, word_of_int ip4]
     }"

definition ip_ntop :: "byte list \<Rightarrow> string" where
  "ip_ntop ip = dec (uint (ip ! 0)) @ CHR ''.'' # dec (uint (ip ! 1)) @ CHR ''.'' # dec (uint (ip ! 2)) @ CHR ''.'' # dec (uint (ip ! 3))"

section \<open>Messages and frames\<close>

record arp_message =
  msg_id :: "byte list"
  hatype :: "byte list"
  prottype :: "byte list"
  hardsize :: byte
  protsize :: byte
  msg_op :: "byte list"
  sender_mac :: mac
  sender_ip :: "byte list"
  target_mac :: mac
  target_ip :: "byte list"

text \<open>\<^verbatim>\<open>initArpMessage\<close> on a structure that was set to zero.\<close>

definition initArpMessage :: arp_message where
  "initArpMessage = \<lparr>msg_id = [0x54, 0x03], hatype = [0x00, 0x01], prottype = [0x08, 0x00], hardsize = 0x06, protsize = 0x04,
     msg_op = [0, 0], sender_mac = replicate 6 0, sender_ip = replicate 4 0, target_mac = replicate 6 0, target_ip = replicate 4 0\<rparr>"

definition encode_arp :: "arp_message \<Rightarrow> byte list" where
  "encode_arp m = msg_id m @ hatype m @ prottype m @ [hardsize m, protsize m] @ msg_op m @ sender_mac m @ sender_ip m
     @ target_mac m @ target_ip m"

definition decode_arp :: "byte list \<Rightarrow> arp_message option" where
  "decode_arp bs =
     (if length bs < 30 then None
      else Some \<lparr>msg_id = take 2 bs, hatype = take 2 (drop 2 bs), prottype = take 2 (drop 4 bs), hardsize = bs ! 6,
             protsize = bs ! 7, msg_op = take 2 (drop 8 bs), sender_mac = take 6 (drop 10 bs), sender_ip = take 4 (drop 16 bs),
             target_mac = take 6 (drop 20 bs), target_ip = take 4 (drop 26 bs)\<rparr>)"

definition wf_arp :: "arp_message \<Rightarrow> bool" where
  "wf_arp m \<longleftrightarrow> length (msg_id m) = 2 \<and> length (hatype m) = 2 \<and> length (prottype m) = 2 \<and> length (msg_op m) = 2
     \<and> length (sender_mac m) = 6 \<and> length (sender_ip m) = 4 \<and> length (target_mac m) = 6 \<and> length (target_ip m) = 4"

text \<open>\<^verbatim>\<open>sendArpMessage\<close> sends \<^verbatim>\<open>ARP_LEN\<close> bytes, \<^verbatim>\<open>recvArpMessage\<close> reads header and message.\<close>

definition sendArpMessage :: "mac \<Rightarrow> mac \<Rightarrow> arp_message \<Rightarrow> byte list" where
  "sendArpMessage src_mac dest_mac m =
     (let buffer = dest_mac @ src_mac @ SELF_PROTOCOL @ encode_arp m in buffer @ replicate (ARP_LEN - length buffer) 0)"

definition recvArpMessage :: "byte list \<Rightarrow> arp_message option" where
  "recvArpMessage bytes = (let buffer = take 44 (bytes @ replicate 44 0) in decode_arp (drop 14 buffer))"

section \<open>State\<close>

record arp_interface =
  i_macAddr :: mac
  i_ipAddr :: string
  i_interfaceNum :: int

record arp_entry =
  a_ipAddr :: string
  a_macAddr :: mac
  sll_hatype :: int
  sll_ifindex :: int
  conn_fd :: int

record arp =
  arpTable :: "arp_entry list"

definition no_interfaces :: "arp_interface list" where
  "no_interfaces = replicate INTERFACE_SIZE \<lparr>i_macAddr = replicate 6 0, i_ipAddr = [], i_interfaceNum = -1\<rparr>"

text \<open>Only \<^verbatim>\<open>eth0\<close> is entered.\<close>

fun getAllMacAddress :: "hwa_info list \<Rightarrow> arp_interface list \<Rightarrow> arp_interface list" where
  "getAllMacAddress [] arr = arr"
| "getAllMacAddress (h # hs) arr =
     getAllMacAddress hs
       (if if_name h = ''eth0''
        then (case find_index (\<lambda>i. i_interfaceNum i = -1) arr of
                None \<Rightarrow> arr
              | Some p \<Rightarrow> arr[p := \<lparr>i_macAddr = if_haddr h, i_ipAddr = ip_addr h, i_interfaceNum = hwa_index h\<rparr>])
        else arr)"

section \<open>The table\<close>

definition indexOfIP :: "string \<Rightarrow> arp_entry list \<Rightarrow> nat option" where
  "indexOfIP ip table = find_index (\<lambda>e. a_ipAddr e = ip) table"

definition add_entry :: "arp_entry \<Rightarrow> arp \<Rightarrow> arp option" where
  "add_entry e st = (if length (arpTable st) < ARP_TABLE_SIZE then Some (st\<lparr>arpTable := arpTable st @ [e]\<rparr>) else None)"

text \<open>
  \<^verbatim>\<open>strcmp\<close> on memory: it stops at the first difference or at a zero in both; leaving the structures is
  \<open>None\<close>.  The hardware addresses are not terminated, so that the comparison runs on into the fields behind
  them (little-endian).
\<close>

fun str_eq :: "byte list \<Rightarrow> byte list \<Rightarrow> bool option" where
  "str_eq (x # xs) (y # ys) = (if x \<noteq> y then Some False else if x = 0 then Some True else str_eq xs ys)"
| "str_eq _ _ = None"

definition entry_mem :: "arp_entry \<Rightarrow> byte list" where
  "entry_mem e = a_macAddr e @ [word_of_int (sll_hatype e), word_of_int (drop_bit 8 (sll_hatype e))]
     @ rev (be32_bytes (sll_ifindex e)) @ rev (be32_bytes (conn_fd e))"

definition sender_mem :: "arp_message \<Rightarrow> byte list" where
  "sender_mem m = sender_mac m @ sender_ip m @ target_mac m @ target_ip m"

fun check_entries :: "string \<Rightarrow> byte list \<Rightarrow> nat \<Rightarrow> arp_entry list \<Rightarrow> int option" where
  "check_entries ip mem i [] = Some (-1)"
| "check_entries ip mem i (e # es) =
     (if a_ipAddr e = ip
      then do { eq \<leftarrow> str_eq (entry_mem e) mem; if eq then Some (int i) else check_entries ip mem (Suc i) es }
      else check_entries ip mem (Suc i) es)"

text \<open>For the sender of a message.\<close>

definition checkEntryExist :: "arp_message \<Rightarrow> arp_entry list \<Rightarrow> int option" where
  "checkEntryExist m table = check_entries (ip_ntop (sender_ip m)) (sender_mem m) 0 table"

definition checkIsDestNode :: "arp_interface list \<Rightarrow> byte list \<Rightarrow> bool" where
  "checkIsDestNode ifs ip \<longleftrightarrow> list_ex (\<lambda>i. i_ipAddr i = ip_ntop ip) (takeWhile (\<lambda>i. i_interfaceNum i \<noteq> -1) ifs)"

section \<open>Handlers\<close>

datatype arp_effect =
    ArpFrame mac mac int arp_message
  | ToClient int "byte list"
  | CloseFd int

definition request_message :: "arp_interface \<Rightarrow> string \<Rightarrow> arp_message option" where
  "request_message eth0 ip =
     do {
       tip \<leftarrow> setIPAddr ip;
       sip \<leftarrow> setIPAddr (i_ipAddr eth0);
       Some (initArpMessage\<lparr>target_ip := tip, sender_ip := sip, target_mac := replicate 6 0xFF,
               sender_mac := i_macAddr eth0, msg_op := [0, 0xFF]\<rparr>)
     }"

text \<open>
  A client: the reads from its connection until one returns some bytes (at the end of the stream the loop
  goes on for ever, \<open>None\<close>); the array of twenty bytes has to hold the terminating zero.
\<close>

definition read_ip :: "byte list list \<Rightarrow> string option" where
  "read_ip reads =
     (case find (\<lambda>b. b \<noteq> []) reads of None \<Rightarrow> None
      | Some bytes \<Rightarrow>
          let ip = cstr (map char_of_byte (take IPADDR_SIZE bytes)) in if length ip < IPADDR_SIZE then Some ip else None)"

definition client_lookup :: "arp_interface list \<Rightarrow> int \<Rightarrow> string \<Rightarrow> arp \<Rightarrow> (arp \<times> arp_effect list) option" where
  "client_lookup ifs fd ip st =
     (case indexOfIP ip (arpTable st) of
        None \<Rightarrow> do {
          st' \<leftarrow> add_entry \<lparr>a_ipAddr = ip, a_macAddr = replicate 6 0, sll_hatype = 0, sll_ifindex = 0, conn_fd = fd\<rparr> st;
          eth0 \<leftarrow> load ifs 0;
          m \<leftarrow> request_message eth0 ip;
          Some (st', [ArpFrame (sender_mac m) (target_mac m) (i_interfaceNum eth0) m])
        }
      | Some index \<Rightarrow>
          Some (st, if checkAddressNotEmpty (a_macAddr (arpTable st ! index))
                    then [ToClient fd (a_macAddr (arpTable st ! index)), CloseFd fd] else []))"

definition arp_client :: "arp_interface list \<Rightarrow> int \<Rightarrow> byte list list \<Rightarrow> arp \<Rightarrow> (arp \<times> arp_effect list) option" where
  "arp_client ifs fd reads st = do { ip \<leftarrow> read_ip reads; client_lookup ifs fd ip st }"

definition reply_message :: "arp_interface \<Rightarrow> arp_message \<Rightarrow> arp_message" where
  "reply_message eth0 m = initArpMessage\<lparr>msg_op := [0xFF, 0], sender_ip := target_ip m, sender_mac := i_macAddr eth0,
     target_ip := sender_ip m, target_mac := sender_mac m\<rparr>"

text \<open>
  A request.  An entry found is copied, and the copy is changed: the table is not.
\<close>

definition arp_request :: "arp_interface list \<Rightarrow> int \<Rightarrow> int \<Rightarrow> arp_message \<Rightarrow> arp \<Rightarrow> (arp \<times> arp_effect list) option" where
  "arp_request ifs ifindex hat m st =
     do {
       foundIndex \<leftarrow> checkEntryExist m (arpTable st);
       if checkIsDestNode ifs (target_ip m)
       then do {
         st' \<leftarrow> (if foundIndex = -1
                   then add_entry \<lparr>a_ipAddr = ip_ntop (sender_ip m), a_macAddr = sender_mac m, sll_hatype = hat,
                          sll_ifindex = ifindex, conn_fd = -1\<rparr> st
                   else Some st);
         eth0 \<leftarrow> load ifs 0;
         let r = reply_message eth0 m;
         Some (st', [ArpFrame (sender_mac r) (target_mac r) (i_interfaceNum eth0) r])
       }
       else Some (st, [])
     }"

definition arp_reply :: "int \<Rightarrow> int \<Rightarrow> arp_message \<Rightarrow> arp \<Rightarrow> arp \<times> arp_effect list" where
  "arp_reply ifindex hat m st =
     (case indexOfIP (ip_ntop (sender_ip m)) (arpTable st) of
        None \<Rightarrow> (st, [])
      | Some foundIndex \<Rightarrow>
          let e = (arpTable st ! foundIndex)\<lparr>a_macAddr := sender_mac m, sll_ifindex := ifindex, sll_hatype := hat\<rparr>
          in if conn_fd e > -1
             then (st\<lparr>arpTable := (arpTable st)[foundIndex := e\<lparr>conn_fd := -1\<rparr>]\<rparr>, [ToClient (conn_fd e) (a_macAddr e), CloseFd (conn_fd e)])
             else (st\<lparr>arpTable := (arpTable st)[foundIndex := e]\<rparr>, []))"

text \<open>The branch \<^verbatim>\<open>if (FD_ISSET(PFsockFd, &rset))\<close>.\<close>

definition arp_packet :: "arp_interface list \<Rightarrow> int \<Rightarrow> int \<Rightarrow> byte list \<Rightarrow> arp \<Rightarrow> (arp \<times> arp_effect list) option" where
  "arp_packet ifs ifindex hat bytes st =
     do {
       m \<leftarrow> recvArpMessage bytes;
       if msg_op m = [0x00, 0xFF] then arp_request ifs ifindex hat m st
       else if msg_op m = [0xFF, 0x00] then Some (arp_reply ifindex hat m st)
       else Some (st, [])
     }"

datatype arp_event =
    ArpClient int "byte list list"
  | ArpPacket int int "byte list"

fun arp_step :: "arp_interface list \<Rightarrow> arp \<Rightarrow> arp_event \<Rightarrow> (arp \<times> arp_effect list) option" where
  "arp_step ifs st (ArpClient fd reads) = arp_client ifs fd reads st"
| "arp_step ifs st (ArpPacket ifindex hat bytes) = arp_packet ifs ifindex hat bytes st"

fun arp_run :: "arp_interface list \<Rightarrow> arp \<Rightarrow> arp_event list \<Rightarrow> (arp \<times> arp_effect list) option" where
  "arp_run ifs st [] = Some (st, [])"
| "arp_run ifs st (ev # evs) =
     do {
       (st1, fx) \<leftarrow> arp_step ifs st ev;
       (st2, fxs) \<leftarrow> arp_run ifs st1 evs;
       Some (st2, fx @ fxs)
     }"

definition arp_init :: arp where "arp_init = \<lparr>arpTable = []\<rparr>"

end
