(* ===== verification/Ifi_Info.thy ===== *)
theory Ifi_Info
  imports Subnet Arp "HOL-Library.Monad_Syntax"
begin

text \<open>
  The list of interfaces of the file transfer programs (\<^verbatim>\<open>get_ifi_info_plus.c\<close>) and the array that \<^verbatim>\<open>udpcli.c\<close> makes of it.  The \<^verbatim>\<open>ioctl\<close> calls are a record of functions, \<open>kernel\<close>.  The
  buffer of \<^verbatim>\<open>SIOCGIFCONF\<close> is a list of bytes, because the walk over it computes its own stride: \<open>sz\<close> is
  \<^verbatim>\<open>sizeof(struct ifreq)\<close>, 32 where the structure is a name and an address, and 40 on a 64-bit Linux.  The code is
  compiled without \<^verbatim>\<open>sa_len\<close> and \<^verbatim>\<open>sockaddr_dl\<close>, as on Linux; \<open>ipv6\<close> is the macro \<^verbatim>\<open>IPV6\<close>.
\<close>

section \<open>The kernel\<close>

datatype ifconf_result = Filled "byte list" | Refused bool

record kernel =
  SIOCGIFCONF :: "nat \<Rightarrow> nat \<Rightarrow> ifconf_result"
  SIOCGIFFLAGS :: "byte list \<Rightarrow> int option"
  SIOCGIFMTU :: "byte list \<Rightarrow> int option"
  SIOCGIFBRDADDR :: "byte list \<Rightarrow> byte list option"
  SIOCGIFDSTADDR :: "byte list \<Rightarrow> byte list option"
  SIOCGIFNETMASK :: "byte list \<Rightarrow> byte list option"
  SIOCGIFHWADDR :: "byte list \<Rightarrow> byte list option"
  SIOCGIFINDEX :: "byte list \<Rightarrow> int option"

text \<open>
  The loop that asks with larger and larger buffers until the answer does not change; \<open>i\<close> counts the calls,
  \<open>Refused True\<close> is the error \<^verbatim>\<open>EINVAL\<close>.  The same lines are in \<^verbatim>\<open>get_hw_addrs.c\<close>.
\<close>

datatype conf_out = Conf "byte list" | ConfExit

partial_function (option) ifconf_loop :: "kernel \<Rightarrow> nat \<Rightarrow> nat \<Rightarrow> nat \<Rightarrow> nat \<Rightarrow> conf_out option" where
  [code]: "ifconf_loop k sz i lastlen len =
     (case SIOCGIFCONF k i len of
        Refused einval \<Rightarrow>
          if \<not> einval \<or> lastlen \<noteq> 0 then Some ConfExit else ifconf_loop k sz (Suc i) lastlen (len + 10 * sz)
      | Filled bs \<Rightarrow>
          if length bs = lastlen then Some (Conf bs) else ifconf_loop k sz (Suc i) (length bs) (len + 10 * sz))"

section \<open>The walk over the buffer\<close>

definition AF_INET :: int where "AF_INET = 2"
definition AF_INET6 :: int where "AF_INET6 = 10"
definition IFF_UP :: int where "IFF_UP = 1"
definition IFF_BROADCAST :: int where "IFF_BROADCAST = 2"
definition IFF_POINTOPOINT :: int where "IFF_POINTOPOINT = 16"
definition IFI_ALIAS :: int where "IFI_ALIAS = 1"

record ifi_info =
  ifi_name :: "byte list"
  ifi_mtu :: int
  ifi_flags :: int
  ifi_myflags :: int
  ifi_addr :: "byte list option"
  ifi_brdaddr :: "byte list option"
  ifi_dstaddr :: "byte list option"
  ifi_ntmaddr :: "byte list option"

text \<open>\<^verbatim>\<open>strncmp(lastname, ifr->ifr_name, IFNAMSIZ)\<close> looks at the names up to a zero.\<close>

definition c_name :: "byte list \<Rightarrow> byte list" where
  "c_name name = takeWhile (\<lambda>b. b \<noteq> 0) (take 16 name)"

definition sa_family :: "byte list \<Rightarrow> int" where
  "sa_family ifr = uint (ifr ! 16) + 256 * uint (ifr ! 17)"

text \<open>
  One structure: the address of the entry at the head of \<open>buf\<close> and what the kernel says of its name; a failing call ends
  the process.  There is no \<^verbatim>\<open>sockaddr_dl\<close>, so index and hardware address stay zero.
\<close>

definition ifi_entry :: "kernel \<Rightarrow> bool \<Rightarrow> byte list \<Rightarrow> int \<Rightarrow> int \<Rightarrow> ifi_info option" where
  "ifi_entry k ipv6 buf flags myflags =
     (let name = take 16 buf;
          ifi = \<lparr>ifi_name = take 15 name @ [0], ifi_mtu = 0, ifi_flags = flags, ifi_myflags = myflags,
                 ifi_addr = None, ifi_brdaddr = None, ifi_dstaddr = None, ifi_ntmaddr = None\<rparr>;
          if_flag = (\<lambda>flag call. if flags AND flag \<noteq> 0 then map_option Some (call k name) else Some None)
      in do {
        mtu \<leftarrow> SIOCGIFMTU k name;
        let ifi = ifi\<lparr>ifi_mtu := mtu\<rparr>;
        if sa_family buf = AF_INET then do {
          brd \<leftarrow> if_flag IFF_BROADCAST SIOCGIFBRDADDR;
          dst \<leftarrow> if_flag IFF_POINTOPOINT SIOCGIFDSTADDR;
          ntm \<leftarrow> SIOCGIFNETMASK k name;
          Some (ifi\<lparr>ifi_addr := Some (take 16 (drop 16 buf)), ifi_brdaddr := brd, ifi_dstaddr := dst, ifi_ntmaddr := Some ntm\<rparr>)
        }
        else if ipv6 \<and> sa_family buf = AF_INET6 then do {
          dst \<leftarrow> if_flag IFF_POINTOPOINT SIOCGIFDSTADDR;
          Some (ifi\<lparr>ifi_addr := Some (take 28 (drop 16 buf)), ifi_dstaddr := dst\<rparr>)
        }
        else Some ifi
      })"

text \<open>
  \<^verbatim>\<open>for (ptr = buf; ptr < buf + ifc.ifc_len;)\<close>: \<open>n\<close> bytes are left, \<open>buf\<close> is the memory from \<^verbatim>\<open>ptr\<close> on.
\<close>

function ifi_walk :: "kernel \<Rightarrow> int \<Rightarrow> bool \<Rightarrow> bool \<Rightarrow> byte list \<Rightarrow> nat \<Rightarrow> byte list \<Rightarrow> ifi_info list option" where
  "ifi_walk k family ipv6 doaliases lastname n buf =
     (if n = 0 then Some []
      else if length buf < 32 then None
      else let name = take 16 buf; fam = sa_family buf;
               len = (if fam = AF_INET6 \<and> ipv6 then 28 else 16);
               n' = n - (16 + len); buf' = drop (16 + len) buf
           in if fam \<noteq> family then ifi_walk k family ipv6 doaliases lastname n' buf'
              else if c_name lastname = c_name name \<and> \<not> doaliases then ifi_walk k family ipv6 doaliases lastname n' buf'
              else do {
                flags \<leftarrow> SIOCGIFFLAGS k name;
                if flags AND IFF_UP = 0 then ifi_walk k family ipv6 doaliases name n' buf'
                else do {
                  ifi \<leftarrow> ifi_entry k ipv6 buf flags (if c_name lastname = c_name name then IFI_ALIAS else 0);
                  rest \<leftarrow> ifi_walk k family ipv6 doaliases name n' buf';
                  Some (ifi # rest)
                }
              })"
  by pat_completeness auto
termination ifi_walk
  by (relation "measure (\<lambda>(k, family, ipv6, doaliases, lastname, n, buf). n)") auto

declare ifi_walk.simps [simp del]

text \<open>
  The whole function and its wrapper, which ends the process when there is no interface.  \<open>junk\<close> is the rest of the
  allocated buffer; \<open>None\<close> is a loop that does not end.
\<close>

datatype ifi_out = Listed "ifi_info list" | Stopped

definition Get_ifi_info_plus :: "kernel \<Rightarrow> nat \<Rightarrow> byte list \<Rightarrow> int \<Rightarrow> bool \<Rightarrow> bool \<Rightarrow> ifi_out option" where
  "Get_ifi_info_plus k sz junk family ipv6 doaliases =
     do {
       r \<leftarrow> ifconf_loop k sz 0 0 (100 * sz);
       Some (case r of
               ConfExit \<Rightarrow> Stopped
             | Conf bs \<Rightarrow>
                 (case ifi_walk k family ipv6 doaliases [0] (length bs) (bs @ junk) of
                    None \<Rightarrow> Stopped
                  | Some ifis \<Rightarrow> if ifis = [] then Stopped else Listed ifis))
     }"

section \<open>The arrays of client and server\<close>

definition FD_SETSIZE :: nat where "FD_SETSIZE = 1024"

text \<open>\<^verbatim>\<open>Sock_ntop_host\<close> on a \<^verbatim>\<open>sockaddr_in\<close>.\<close>

definition sock_ntop_host :: "byte list \<Rightarrow> string" where
  "sock_ntop_host sa = ip_ntop (take 4 (drop 4 sa))"

definition no_client_interfaces :: "interface list" where
  "no_client_interfaces = replicate FD_SETSIZE \<lparr>label = -1, address = [], networkMask = []\<rparr>"

text \<open>
  \<open>adr\<close> and \<open>msk\<close> are the contents of \<^verbatim>\<open>interfaceIPAddressStr\<close> and \<^verbatim>\<open>interfaceNetworkMask\<close>, which an interface without
  an address would not set.  The subnet address is only printed.
\<close>

definition ntop_or_old :: "byte list option \<Rightarrow> string \<Rightarrow> string" where
  "ntop_or_old sa old = (case sa of Some sa \<Rightarrow> sock_ntop_host sa | None \<Rightarrow> old)"

fun client_interfaces :: "ifi_info list \<Rightarrow> string \<Rightarrow> string \<Rightarrow> interface list \<Rightarrow> interface list" where
  "client_interfaces [] adr msk arr = arr"
| "client_interfaces (ifi # ifis) adr msk arr =
     (let adr = ntop_or_old (ifi_addr ifi) adr; msk = ntop_or_old (ifi_ntmaddr ifi) msk
      in client_interfaces ifis adr msk
           (case find_index (\<lambda>i. label i < 0) arr of
              None \<Rightarrow> arr
            | Some j \<Rightarrow> arr[j := \<lparr>label = 1, address = adr, networkMask = msk\<rparr>]))"

section \<open>What the kernel answers\<close>

text \<open>An entry of the kernel's list: the name and the address of an interface, in a structure that is zero elsewhere.\<close>

definition ifreq :: "nat \<Rightarrow> byte list \<times> byte list \<Rightarrow> byte list" where
  "ifreq sz e = fst e @ [2, 0, 0, 0] @ snd e @ replicate 8 0 @ replicate (sz - 32) 0"

text \<open>As many whole entries as fit into the buffer (netdevice(7)).\<close>

definition answers :: "kernel \<Rightarrow> nat \<Rightarrow> (byte list \<times> byte list) list \<Rightarrow> bool" where
  "answers k sz es \<longleftrightarrow> (\<forall>i len. SIOCGIFCONF k i len = Filled (concat (map (ifreq sz) (take (len div sz) es))))"

definition name_ok :: "byte list \<Rightarrow> bool" where
  "name_ok name \<longleftrightarrow> length name = 16 \<and> 32 \<le> uint (name ! 0) \<and> name ! 8 = 0 \<and> name ! 9 = 0"

lemma length_ifreq [simp]: "length (fst e) = 16 \<Longrightarrow> length (snd e) = 4 \<Longrightarrow> 32 \<le> sz \<Longrightarrow> length (ifreq sz e) = sz"
  by (simp add: ifreq_def)

lemma length_ifreqs:
  "\<forall>e \<in> set es. length (fst e) = 16 \<and> length (snd e) = 4 \<Longrightarrow> 32 \<le> sz \<Longrightarrow> length (concat (map (ifreq sz) es)) = sz * length es"
  by (induction es) auto

text \<open>The loop ends with the whole list.\<close>

lemma ifconf_loop_from:
  assumes "answers k sz es" "\<forall>e \<in> set es. length (fst e) = 16 \<and> length (snd e) = 4" "32 \<le> sz"
  shows "ifconf_loop k sz i (sz * min m (length es)) (sz * (m + 10)) = Some (Conf (concat (map (ifreq sz) es)))"
proof (induction "length es - m" arbitrary: i m rule: less_induct)
  case less
  let ?bs = "concat (map (ifreq sz) (take (m + 10) es))"
  have f: "SIOCGIFCONF k i (sz * (m + 10)) = Filled ?bs" using assms(1,3) by (simp add: answers_def)
  have l: "length ?bs = sz * min (m + 10) (length es)"
    using length_ifreqs [of "take (m + 10) es" sz] assms(2,3) by (auto simp: min.commute dest: in_set_takeD)
  show ?case
  proof (cases "length es \<le> m")
    case True
    then have "take (m + 10) es = es" "min (m + 10) (length es) = min m (length es)" by auto
    then show ?thesis using f l by (simp add: ifconf_loop.simps [of k sz i])
  next
    case False
    then have "length ?bs \<noteq> sz * min m (length es)" using l assms(3) by auto
    then have "ifconf_loop k sz i (sz * min m (length es)) (sz * (m + 10))
        = ifconf_loop k sz (Suc i) (length ?bs) (sz * (m + 10) + 10 * sz)"
      using f by (simp add: ifconf_loop.simps [of k sz i])
    also have "\<dots> = ifconf_loop k sz (Suc i) (sz * min (m + 10) (length es)) (sz * ((m + 10) + 10))"
      unfolding l by (simp add: algebra_simps)
    also have "\<dots> = Some (Conf (concat (map (ifreq sz) es)))" using False by (intro less) simp
    finally show ?thesis .
  qed
qed

lemma ifconf_loop_all:
  assumes "answers k sz es" "\<forall>e \<in> set es. length (fst e) = 16 \<and> length (snd e) = 4" "32 \<le> sz"
  shows "ifconf_loop k sz 0 0 (100 * sz) = Some (Conf (concat (map (ifreq sz) es)))"
proof (cases "es = []")
  case True
  then show ?thesis using assms(1) by (simp add: ifconf_loop.simps answers_def)
next
  case False
  let ?bs = "concat (map (ifreq sz) (take 100 es))"
  have f: "SIOCGIFCONF k 0 (100 * sz) = Filled ?bs" using assms(1,3) by (simp add: answers_def)
  have l: "length ?bs = sz * min 100 (length es)"
    using length_ifreqs [of "take 100 es" sz] assms(2,3) by (auto simp: min.commute dest: in_set_takeD)
  moreover have "min 100 (length es) \<noteq> 0" using False by simp
  ultimately have "length ?bs \<noteq> 0" using assms(3) by auto
  then have "ifconf_loop k sz 0 0 (100 * sz) = ifconf_loop k sz 1 (sz * min 100 (length es)) (sz * (100 + 10))"
    using f l by (simp add: ifconf_loop.simps [of k sz 0] algebra_simps min_def del: length_concat)
  also have "\<dots> = Some (Conf (concat (map (ifreq sz) es)))" by (rule ifconf_loop_from [OF assms])
  finally show ?thesis .
qed

section \<open>The list\<close>

text \<open>What the kernel knows of the entries: every call for a name it has listed succeeds.\<close>

definition up :: "kernel \<Rightarrow> byte list \<times> byte list \<Rightarrow> bool" where
  "up k e \<longleftrightarrow> (case SIOCGIFFLAGS k (fst e) of Some flags \<Rightarrow> flags AND IFF_UP \<noteq> 0 | None \<Rightarrow> False)"

definition kernel_ok :: "kernel \<Rightarrow> (byte list \<times> byte list) list \<Rightarrow> bool" where
  "kernel_ok k es \<longleftrightarrow> list_all (\<lambda>(name, ip). length name = 16 \<and> length ip = 4 \<and> SIOCGIFFLAGS k name \<noteq> None \<and> SIOCGIFMTU k name \<noteq> None
     \<and> SIOCGIFBRDADDR k name \<noteq> None \<and> SIOCGIFDSTADDR k name \<noteq> None \<and> SIOCGIFNETMASK k name \<noteq> None) es"

text \<open>The structure describes the entry; what the client's array holds of it.\<close>

definition described :: "kernel \<Rightarrow> byte list \<times> byte list \<Rightarrow> ifi_info \<Rightarrow> bool" where
  "described k e ifi \<longleftrightarrow> ifi_name ifi = take 15 (fst e) @ [0] \<and> SIOCGIFFLAGS k (fst e) = Some (ifi_flags ifi)
     \<and> length (snd e) = 4 \<and> ifi_addr ifi = Some ([2, 0, 0, 0] @ snd e @ replicate 8 0)
     \<and> ifi_ntmaddr ifi = SIOCGIFNETMASK k (fst e) \<and> ifi_ntmaddr ifi \<noteq> None"

definition own_mask :: "kernel \<Rightarrow> byte list \<times> byte list \<Rightarrow> string" where
  "own_mask k e = ntop_or_old (SIOCGIFNETMASK k (fst e)) []"

definition client_entry :: "kernel \<Rightarrow> byte list \<times> byte list \<Rightarrow> interface" where
  "client_entry k e = \<lparr>label = 1, address = ip_ntop (snd e), networkMask = own_mask k e\<rparr>"

lemma sa_family_ifreq: "length (fst e) = 16 \<Longrightarrow> sa_family (ifreq 32 e @ rest) = AF_INET"
  by (simp add: sa_family_def ifreq_def AF_INET_def nth_append)

lemma ifi_entry_described:
  assumes "kernel_ok k (e # es)" "SIOCGIFFLAGS k (fst e) = Some flags"
  shows "\<exists>ifi. ifi_entry k ipv6 (ifreq 32 e @ rest) flags myflags = Some ifi \<and> described k e ifi"
proof -
  obtain name ip where e: "e = (name, ip)" by force
  then have l: "length name = 16" "length ip = 4" using assms(1) by (auto simp: kernel_ok_def)
  obtain mtu brd dst ntm where "SIOCGIFMTU k name = Some mtu" "SIOCGIFBRDADDR k name = Some brd"
    "SIOCGIFDSTADDR k name = Some dst" "SIOCGIFNETMASK k name = Some ntm"
    using assms(1) e by (auto simp: kernel_ok_def)
  moreover have "take 16 (ifreq 32 e @ rest) = name" "take 15 (take 16 (ifreq 32 e @ rest)) = take 15 name"
    "take 16 (drop 16 (ifreq 32 e @ rest)) = [2, 0, 0, 0] @ ip @ replicate 8 0"
    using e l by (auto simp: ifreq_def)
  ultimately show ?thesis
    using assms(2) e l sa_family_ifreq [of e rest] by (simp add: ifi_entry_def Let_def described_def)
qed

lemma walk_entry:
  assumes "kernel_ok k (e # es)" "0 < n"
    and "ifi_walk k AF_INET ipv6 True (fst e) (n - 32) rest = Some ifis" "list_all2 (described k) es' ifis"
  shows "\<exists>ifis'. ifi_walk k AF_INET ipv6 True lastname n (ifreq 32 e @ rest) = Some ifis'
    \<and> list_all2 (described k) (filter (up k) [e] @ es') ifis'"
proof -
  have l: "length (fst e) = 16" "length (snd e) = 4" using assms(1) by (auto simp: kernel_ok_def)
  then have t: "take 16 (ifreq 32 e @ rest) = fst e" "length (ifreq 32 e) = 32" by (simp_all add: ifreq_def)
  obtain flags where f: "SIOCGIFFLAGS k (fst e) = Some flags" using assms(1) by (auto simp: kernel_ok_def)
  let ?my = "if c_name lastname = c_name (fst e) then IFI_ALIAS else 0"
  obtain ifi where i: "ifi_entry k ipv6 (ifreq 32 e @ rest) flags ?my = Some ifi" "described k e ifi"
    using ifi_entry_described [OF assms(1) f] by blast
  have "ifi_walk k AF_INET ipv6 True lastname n (ifreq 32 e @ rest)
      = (if up k e then Some (ifi # ifis) else Some ifis)"
    using assms(2,3) t f i(1) sa_family_ifreq [of e rest] l
    by (simp add: ifi_walk.simps [of k _ _ _ lastname] up_def AF_INET_def AF_INET6_def)
  then show ?thesis using i(2) assms(4) by simp
qed

lemma walk_other:
  assumes "0 < n" "32 \<le> length buf" "sa_family buf \<noteq> AF_INET" "sa_family buf \<noteq> AF_INET6 \<or> n \<le> 32"
  shows "ifi_walk k AF_INET ipv6 True lastname n buf = ifi_walk k AF_INET ipv6 True lastname (n - 32) (drop 32 buf)"
proof (cases "n \<le> 32")
  case True
  then have "n - 32 = 0" "n - 44 = 0" by simp_all
  then show ?thesis using assms(1-3) by (auto simp: ifi_walk.simps [of k _ _ _ lastname] Let_def)
next
  case False
  then show ?thesis using assms by (simp add: ifi_walk.simps [of k _ _ _ lastname n] Let_def)
qed

text \<open>Entries of 32 bytes: the walk meets every one.\<close>

lemma kernel_okD: "kernel_ok k es \<Longrightarrow> \<forall>e \<in> set es. length (fst e) = 16 \<and> length (snd e) = 4"
  by (auto simp: kernel_ok_def list_all_iff)

lemma kernel_ok_Cons: "kernel_ok k (e # es) \<Longrightarrow> kernel_ok k es"
  by (auto simp: kernel_ok_def)

lemma walk_32:
  "kernel_ok k es \<Longrightarrow> \<exists>ifis. ifi_walk k AF_INET ipv6 True lastname (32 * length es) (concat (map (ifreq 32) es) @ junk) = Some ifis
     \<and> list_all2 (described k) (filter (up k) es) ifis"
proof (induction es arbitrary: lastname)
  case Nil
  then show ?case by (simp add: ifi_walk.simps)
next
  case (Cons e es)
  obtain ifis where w: "ifi_walk k AF_INET ipv6 True (fst e) (32 * length es) (concat (map (ifreq 32) es) @ junk) = Some ifis"
    and d: "list_all2 (described k) (filter (up k) es) ifis"
    using Cons.IH [OF kernel_ok_Cons [OF Cons.prems]] by blast
  have "32 * length (e # es) - 32 = 32 * length es" by simp
  then show ?case
    using walk_entry [OF Cons.prems, of "32 * length (e # es)" ipv6 "concat (map (ifreq 32) es) @ junk" ifis, OF _ _ d] w by (cases "up k e") simp_all
qed

text \<open>
  Entries of 40 bytes: the walk goes on by 32, so after an entry it reads the family in the middle of a name, at the
  start of a name, in the padding and in the zeros of an address, and is at the start of an entry again four entries
  later.
\<close>

fun every_fourth :: "'a list \<Rightarrow> 'a list" where
  "every_fourth (a # b # c # d # rest) = a # every_fourth rest"
| "every_fourth [a] = [a]"
| "every_fourth [a, b] = [a]"
| "every_fourth [a, b, c] = [a]"
| "every_fourth [] = []"

definition junk_ok :: "byte list \<Rightarrow> bool" where
  "junk_ok junk \<longleftrightarrow> 32 \<le> length junk \<and> take 2 junk \<noteq> [2, 0] \<and> take 2 (drop 8 junk) \<noteq> [2, 0]"

lemma ifreq_40: "ifreq 40 e = ifreq 32 e @ replicate 8 0"
  by (simp add: ifreq_def flip: replicate_add)

lemma family_bytes: "sa_family buf = AF_INET \<longleftrightarrow> buf ! 16 = 2 \<and> buf ! 17 = 0"
proof -
  have "(x + 256 * y = 2) = (x = 2 \<and> y = 0)" if "0 \<le> x" "x < 256" "0 \<le> y" for x y :: int
    using that by (cases "y = 0") auto
  from this [of "uint (buf ! 16)" "uint (buf ! 17)"]
  have "sa_family buf = AF_INET \<longleftrightarrow> uint (buf ! 16) = 2 \<and> uint (buf ! 17) = 0"
    using uint_bounded [of "buf ! 16"] unfolding sa_family_def AF_INET_def by simp
  also have "\<dots> \<longleftrightarrow> buf ! 16 = 2 \<and> buf ! 17 = 0" by (simp add: word_uint_eq_iff)
  finally show ?thesis .
qed

lemma walk_skips:
  assumes "length (fst e) = 16" "length (snd e) = 4" "name_ok (fst e)" "0 < n" "32 \<le> length rest"
  shows "ifi_walk k AF_INET ipv6 True lastname n (replicate 8 0 @ ifreq 40 e @ rest)
      = ifi_walk k AF_INET ipv6 True lastname (n - 32) (drop 24 (ifreq 40 e) @ rest)"
    and "length xs = 16 \<Longrightarrow> ifi_walk k AF_INET ipv6 True lastname n (xs @ ifreq 40 e @ rest)
      = ifi_walk k AF_INET ipv6 True lastname (n - 32) (drop 16 (ifreq 40 e) @ rest)"
    and "ifi_walk k AF_INET ipv6 True lastname n (drop 16 (ifreq 40 e) @ rest)
      = ifi_walk k AF_INET ipv6 True lastname (n - 32) (drop 8 rest)"
    and "ifi_walk k AF_INET ipv6 True lastname n (drop 8 (ifreq 40 e) @ rest)
      = ifi_walk k AF_INET ipv6 True lastname (n - 32) rest"
proof -
  have l: "length (ifreq 40 e) = 40" using assms(1,2) by simp
  have r: "8 \<le> length rest" using assms(5) by simp
  have z: "ifreq 40 e ! 8 = 0" "ifreq 40 e ! 9 = 0" "32 \<le> uint (ifreq 40 e ! 0)"
    using assms(1,3) by (auto simp: ifreq_def nth_append name_ok_def)
  have p: "ifreq 40 e ! 32 = 0" "ifreq 40 e ! 33 = 0" "ifreq 40 e ! 24 = 0" "ifreq 40 e ! 25 = 0"
    using assms(1,2) by (auto simp: ifreq_def nth_append)
  have d: "drop 8 (ifreq 40 e) ! 16 = 0" "drop 8 (ifreq 40 e) ! 17 = 0" "drop 16 (ifreq 40 e) ! 16 = 0" "drop 16 (ifreq 40 e) ! 17 = 0"
    using l p by simp_all
  show "ifi_walk k AF_INET ipv6 True lastname n (replicate 8 0 @ ifreq 40 e @ rest)
      = ifi_walk k AF_INET ipv6 True lastname (n - 32) (drop 24 (ifreq 40 e) @ rest)"
    using l z by (subst walk_other) (simp_all add: assms sa_family_def nth_append AF_INET_def AF_INET6_def)
  show "ifi_walk k AF_INET ipv6 True lastname n (xs @ ifreq 40 e @ rest)
      = ifi_walk k AF_INET ipv6 True lastname (n - 32) (drop 16 (ifreq 40 e) @ rest)" if x: "length xs = 16"
  proof -
    have s: "sa_family (xs @ ifreq 40 e @ rest) = uint (ifreq 40 e ! 0) + 256 * uint (ifreq 40 e ! 1)"
      using x l by (simp add: sa_family_def nth_append)
    have "32 \<le> sa_family (xs @ ifreq 40 e @ rest)" unfolding s using z(3) by (simp add: add_increasing2)
    then show ?thesis using l x by (subst walk_other) (simp_all add: assms AF_INET_def AF_INET6_def)
  qed
  show "ifi_walk k AF_INET ipv6 True lastname n (drop 16 (ifreq 40 e) @ rest)
      = ifi_walk k AF_INET ipv6 True lastname (n - 32) (drop 8 rest)"
    using l d by (subst walk_other) (simp_all add: assms r sa_family_def nth_append AF_INET_def AF_INET6_def)
  show "ifi_walk k AF_INET ipv6 True lastname n (drop 8 (ifreq 40 e) @ rest)
      = ifi_walk k AF_INET ipv6 True lastname (n - 32) rest"
    using l d by (subst walk_other) (simp_all add: assms sa_family_def nth_append AF_INET_def AF_INET6_def)
qed

lemma walk_junk:
  assumes "junk_ok junk"
  shows "ifi_walk k AF_INET ipv6 True lastname 8 (replicate 8 0 @ junk) = Some []"
    and "length xs = 16 \<Longrightarrow> ifi_walk k AF_INET ipv6 True lastname 16 (xs @ junk) = Some []"
proof -
  have two: "\<exists>a b js. xs = a # b # js" if "2 \<le> length xs" for xs :: "byte list"
    using that by (auto simp: Suc_le_length_iff numeral_eq_Suc)
  obtain a b js where j: "junk = a # b # js" using two [of junk] assms by (auto simp: junk_ok_def)
  have "2 \<le> length (drop 8 junk)" using assms by (auto simp: junk_ok_def)
  then obtain c d ks where d: "drop 8 junk = c # d # ks" using two by blast
  then have n: "junk ! 8 = c" "junk ! 9 = d"
    using assms nth_drop [of 8 junk 0] nth_drop [of 8 junk 1] by (auto simp: junk_ok_def)
  have "sa_family (replicate 8 0 @ junk) \<noteq> AF_INET"
    using assms d n unfolding family_bytes by (auto simp: junk_ok_def nth_append)
  then show "ifi_walk k AF_INET ipv6 True lastname 8 (replicate 8 0 @ junk) = Some []"
    using assms by (subst walk_other) (auto simp: junk_ok_def ifi_walk.simps)
  assume x: "length xs = 16"
  then have "sa_family (xs @ junk) \<noteq> AF_INET"
    using assms j unfolding family_bytes by (auto simp: junk_ok_def nth_append)
  then show "ifi_walk k AF_INET ipv6 True lastname 16 (xs @ junk) = Some []"
    using assms x by (subst walk_other) (auto simp: junk_ok_def ifi_walk.simps)
qed

lemma walk_three:
  assumes "\<And>e. e \<in> {b, c, d} \<Longrightarrow> length (fst e) = 16 \<and> length (snd e) = 4 \<and> name_ok (fst e)" "32 \<le> length R" "128 \<le> n"
  shows "ifi_walk k AF_INET ipv6 True lastname n (replicate 8 0 @ ifreq 40 b @ ifreq 40 c @ ifreq 40 d @ R)
    = ifi_walk k AF_INET ipv6 True lastname (n - 128) R"
proof -
  have l: "length (fst e) = 16" "length (snd e) = 4" "name_ok (fst e)" "length (ifreq 40 e) = 40" if "e \<in> {b, c, d}" for e
    using assms(1) [OF that] by auto
  have "ifi_walk k AF_INET ipv6 True lastname n (replicate 8 0 @ ifreq 40 b @ ifreq 40 c @ ifreq 40 d @ R)
      = ifi_walk k AF_INET ipv6 True lastname (n - 32) (drop 24 (ifreq 40 b) @ ifreq 40 c @ ifreq 40 d @ R)"
    using l [of b] l [of c] assms by (intro walk_skips(1)) auto
  also have "\<dots> = ifi_walk k AF_INET ipv6 True lastname (n - 32 - 32) (drop 16 (ifreq 40 c) @ ifreq 40 d @ R)"
    using l [of b] l [of c] l [of d] assms by (intro walk_skips(2)) auto
  also have "\<dots> = ifi_walk k AF_INET ipv6 True lastname (n - 32 - 32 - 32) (drop 8 (ifreq 40 d @ R))"
    using l [of c] l [of d] assms by (intro walk_skips(3)) auto
  also have "\<dots> = ifi_walk k AF_INET ipv6 True lastname (n - 32 - 32 - 32) (drop 8 (ifreq 40 d) @ R)"
    using l [of d] by simp
  also have "\<dots> = ifi_walk k AF_INET ipv6 True lastname (n - 32 - 32 - 32 - 32) R"
    using l [of d] assms by (intro walk_skips(4)) auto
  finally show ?thesis by (simp add: diff_diff_left)
qed

lemma walk_40:
  "kernel_ok k es \<Longrightarrow> list_all (\<lambda>e. name_ok (fst e)) es \<Longrightarrow> junk_ok junk \<Longrightarrow>
   \<exists>ifis. ifi_walk k AF_INET ipv6 True lastname (40 * length es) (concat (map (ifreq 40) es) @ junk) = Some ifis
     \<and> list_all2 (described k) (filter (up k) (every_fourth es)) ifis"
proof (induction es arbitrary: lastname rule: every_fourth.induct)
  case (1 a b c d rest)
  let ?R = "concat (map (ifreq 40) rest) @ junk"
  have l: "length (fst e) = 16" "length (snd e) = 4" "name_ok (fst e)" "length (ifreq 40 e) = 40" if "e \<in> {a, b, c, d}" for e
    using kernel_okD [OF 1(2)] 1(3) that by auto
  have r: "32 \<le> length ?R" using 1(4) by (auto simp: junk_ok_def)
  obtain ifis where w: "ifi_walk k AF_INET ipv6 True (fst a) (40 * length rest) ?R = Some ifis"
    and d: "list_all2 (described k) (filter (up k) (every_fourth rest)) ifis"
    using 1(1) [of "fst a"] 1(2-4) by (auto dest!: kernel_ok_Cons)
  let ?n = "40 * length (a # b # c # d # rest) - 32"
  have "ifi_walk k AF_INET ipv6 True (fst a) ?n (replicate 8 0 @ ifreq 40 b @ ifreq 40 c @ ifreq 40 d @ ?R)
      = ifi_walk k AF_INET ipv6 True (fst a) (?n - 128) ?R"
    using l r by (intro walk_three) auto
  also have "\<dots> = Some ifis" using w by simp
  finally have "ifi_walk k AF_INET ipv6 True (fst a) ?n (replicate 8 0 @ ifreq 40 b @ ifreq 40 c @ ifreq 40 d @ ?R) = Some ifis" .
  from walk_entry [OF 1(2) _ this d, of lastname] show ?case
    by (cases "up k a") (simp_all add: ifreq_40 [of a])
next
  case (2 a)
  have "ifi_walk k AF_INET ipv6 True (fst a) (40 - 32) (replicate 8 0 @ junk) = Some []" using walk_junk(1) 2 by simp
  from walk_entry [OF 2(1) _ this, of "[]" lastname] show ?case by (cases "up k a") (simp_all add: ifreq_40 [of a])
next
  case (3 a b)
  have l: "length (fst b) = 16" "length (snd b) = 4" "name_ok (fst b)" "length (ifreq 40 b) = 40"
    using kernel_okD [OF 3(1)] 3(2) by auto
  have "ifi_walk k AF_INET ipv6 True (fst a) (80 - 32) (replicate 8 0 @ ifreq 40 b @ junk)
      = ifi_walk k AF_INET ipv6 True (fst a) (80 - 32 - 32) (drop 24 (ifreq 40 b) @ junk)"
    using l 3(3) by (intro walk_skips(1)) (auto simp: junk_ok_def)
  also have "\<dots> = Some []" using walk_junk(2) [OF 3(3), of "drop 24 (ifreq 40 b)"] l by simp
  finally show ?case using walk_entry [OF 3(1) _ _, of "80" ipv6 "replicate 8 0 @ ifreq 40 b @ junk" "[]" "[]" lastname]
    by (cases "up k a") (simp_all add: ifreq_40 [of a])
next
  case (4 a b c)
  have l: "length (fst e) = 16" "length (snd e) = 4" "name_ok (fst e)" "length (ifreq 40 e) = 40" if "e \<in> {b, c}" for e
    using kernel_okD [OF 4(1)] 4(2) that by auto
  have "ifi_walk k AF_INET ipv6 True (fst a) (120 - 32) (replicate 8 0 @ ifreq 40 b @ ifreq 40 c @ junk)
      = ifi_walk k AF_INET ipv6 True (fst a) (120 - 32 - 32) (drop 24 (ifreq 40 b) @ ifreq 40 c @ junk)"
    using l [of b] l [of c] by (intro walk_skips(1)) auto
  also have "\<dots> = ifi_walk k AF_INET ipv6 True (fst a) (120 - 32 - 32 - 32) (drop 16 (ifreq 40 c) @ junk)"
    using l [of b] l [of c] 4(3) by (intro walk_skips(2)) (auto simp: junk_ok_def)
  also have "\<dots> = ifi_walk k AF_INET ipv6 True (fst a) (120 - 32 - 32 - 32 - 32) (drop 8 junk)"
    using l [of c] 4(3) by (intro walk_skips(3)) (auto simp: junk_ok_def)
  also have "\<dots> = Some []" by (simp add: ifi_walk.simps)
  finally show ?case using walk_entry [OF 4(1) _ _, of "120" ipv6 "replicate 8 0 @ ifreq 40 b @ ifreq 40 c @ junk" "[]" "[]" lastname]
    by (cases "up k a") (simp_all add: ifreq_40 [of a])
next
  case 5
  then show ?case by (simp add: ifi_walk.simps)
qed

section \<open>The client's array\<close>

lemma described_shown:
  assumes "described k e ifi"
  shows "ntop_or_old (ifi_addr ifi) adr = ip_ntop (snd e)" "ntop_or_old (ifi_ntmaddr ifi) msk = own_mask k e"
  using assms by (auto simp: described_def ntop_or_old_def sock_ntop_host_def own_mask_def split: option.splits)

lemma client_interfaces_fill:
  assumes "list_all2 (described k) es ifis" "length old + length es \<le> FD_SETSIZE"
  shows "client_interfaces ifis adr msk (map (client_entry k) old @ drop (length old) no_client_interfaces)
    = map (client_entry k) (old @ es) @ drop (length old + length es) no_client_interfaces"
  using assms
proof (induction es ifis arbitrary: old adr msk rule: list_all2_induct)
  case Nil
  then show ?case by simp
next
  case (Cons e es ifi ifis)
  let ?free = "\<lparr>label = -1, address = [], networkMask = []\<rparr>"
  have free: "drop (length old) no_client_interfaces = ?free # drop (Suc (length old)) no_client_interfaces"
    using Cons.prems by (simp add: no_client_interfaces_def Cons_nth_drop_Suc flip: Cons_replicate_eq) (simp add: Suc_diff_Suc flip: replicate_Suc)
  have used: "find_index (\<lambda>i. label i < 0) (map (client_entry k) old) = None"
    by (simp add: find_index_None client_entry_def)
  note shown = described_shown [OF Cons.hyps(1)]
  show ?case
    using Cons.IH [of "old @ [e]" "ip_ntop (snd e)" "own_mask k e"] Cons.prems
    by (simp add: free find_index_append used shown Let_def list_update_append client_entry_def [of k e, symmetric])
qed

text \<open>The whole call, for the entries \<open>seen\<close> by the walk.\<close>

lemma Get_ifi_info_plus_listed:
  assumes "answers k sz es" "kernel_ok k es" "32 \<le> sz" "\<exists>e \<in> set seen. up k e"
    and w: "\<exists>ifis. ifi_walk k AF_INET ipv6 True [0] (sz * length es) (concat (map (ifreq sz) es) @ junk) = Some ifis
      \<and> list_all2 (described k) (filter (up k) seen) ifis"
  shows "\<exists>ifis. Get_ifi_info_plus k sz junk AF_INET ipv6 True = Some (Listed ifis)
    \<and> list_all2 (described k) (filter (up k) seen) ifis
    \<and> (length (filter (up k) seen) \<le> FD_SETSIZE \<longrightarrow> client_interfaces ifis adr msk no_client_interfaces
         = map (client_entry k) (filter (up k) seen) @ drop (length (filter (up k) seen)) no_client_interfaces)"
proof -
  obtain ifis where i: "ifi_walk k AF_INET ipv6 True [0] (sz * length es) (concat (map (ifreq sz) es) @ junk) = Some ifis"
    "list_all2 (described k) (filter (up k) seen) ifis" using w by blast
  have "filter (up k) seen \<noteq> []" using assms(4) by (simp add: filter_empty_conv)
  then have "ifis \<noteq> []" using i(2) by auto
  then have "Get_ifi_info_plus k sz junk AF_INET ipv6 True = Some (Listed ifis)"
    using ifconf_loop_all [OF assms(1) kernel_okD [OF assms(2)] assms(3)] i(1) length_ifreqs [OF kernel_okD [OF assms(2)] assms(3)]
    by (simp add: Get_ifi_info_plus_def del: length_concat)
  then show ?thesis using i(2) client_interfaces_fill [OF i(2), of "[]" adr msk] by auto
qed

text \<open>
  C26 (every interface is listed where entries have 32 bytes): whatever the number of interfaces the kernel has, the loop
  that enlarges the buffer ends, the list is that of the interfaces that are up, in the kernel's order and with their
  names, flags, addresses and masks, and the client's array holds the printed address and mask of each, followed by unused
  elements.
\<close>

theorem interfaces_listed:
  assumes "answers k 32 es" "kernel_ok k es" "\<exists>e \<in> set es. up k e"
  shows "\<exists>ifis. Get_ifi_info_plus k 32 junk AF_INET ipv6 True = Some (Listed ifis)
    \<and> list_all2 (described k) (filter (up k) es) ifis
    \<and> (length (filter (up k) es) \<le> FD_SETSIZE \<longrightarrow> client_interfaces ifis adr msk no_client_interfaces
         = map (client_entry k) (filter (up k) es) @ drop (length (filter (up k) es)) no_client_interfaces)"
  by (rule Get_ifi_info_plus_listed [OF assms(1,2) _ assms(3) walk_32 [OF assms(2)]]) simp

text \<open>A machine with the loopback interface and \<^verbatim>\<open>eth0\<close>.\<close>

definition lo_eth0 :: "(byte list \<times> byte list) list" where
  "lo_eth0 = [([108, 111] @ replicate 14 0, [127, 0, 0, 1]), ([101, 116, 104, 48] @ replicate 12 0, [130, 245, 1, 20])]"

definition example_kernel :: "nat \<Rightarrow> kernel" where
  "example_kernel sz = \<lparr>SIOCGIFCONF = (\<lambda>i len. Filled (concat (map (ifreq sz) (take (len div sz) lo_eth0)))),
     SIOCGIFFLAGS = (\<lambda>name. Some (if hd name = 108 then 73 else 67)), SIOCGIFMTU = (\<lambda>name. Some 1500),
     SIOCGIFBRDADDR = (\<lambda>name. Some (replicate 16 0)), SIOCGIFDSTADDR = (\<lambda>name. Some (replicate 16 0)),
     SIOCGIFNETMASK = (\<lambda>name. Some ([2, 0, 0, 0] @ (if hd name = 108 then [255, 0, 0, 0] else [255, 255, 255, 0]) @ replicate 8 0)),
     SIOCGIFHWADDR = (\<lambda>name. Some ([1, 0] @ (if hd name = 108 then replicate 6 0 else [0, 12, 41, 217, 8, 236]) @ replicate 8 0)),
     SIOCGIFINDEX = (\<lambda>name. Some (if hd name = 108 then 1 else 2))\<rparr>"

lemma example_answers: "answers (example_kernel sz) sz lo_eth0"
  by (simp add: answers_def example_kernel_def)

lemma example_ok: "kernel_ok (example_kernel sz) lo_eth0"
  by (simp add: kernel_ok_def example_kernel_def lo_eth0_def)

lemma example_up: "filter (up (example_kernel sz)) lo_eth0 = lo_eth0"
  by (simp add: up_def example_kernel_def lo_eth0_def IFF_UP_def)

theorem interfaces_listed_witness:
  "\<exists>ifis. Get_ifi_info_plus (example_kernel 32) 32 (replicate 40 0) AF_INET False True = Some (Listed ifis)
    \<and> list_all2 (described (example_kernel 32)) lo_eth0 ifis
    \<and> take 3 (client_interfaces ifis [] [] no_client_interfaces)
       = [\<lparr>label = 1, address = ''127.0.0.1'', networkMask = ''255.0.0.0''\<rparr>,
          \<lparr>label = 1, address = ''130.245.1.20'', networkMask = ''255.255.255.0''\<rparr>,
          \<lparr>label = -1, address = [], networkMask = []\<rparr>]"
proof -
  have "\<exists>e \<in> set lo_eth0. up (example_kernel 32) e" using example_up [of 32] by (metis filter_False lo_eth0_def list.distinct(1))
  moreover have "length lo_eth0 = 2" by (simp add: lo_eth0_def)
  moreover have "take 3 (map (client_entry (example_kernel 32)) lo_eth0 @ drop 2 no_client_interfaces)
       = [\<lparr>label = 1, address = ''127.0.0.1'', networkMask = ''255.0.0.0''\<rparr>,
          \<lparr>label = 1, address = ''130.245.1.20'', networkMask = ''255.255.255.0''\<rparr>,
          \<lparr>label = -1, address = [], networkMask = []\<rparr>]"
    by code_simp
  ultimately show ?thesis
    using interfaces_listed [OF example_answers [of 32] example_ok, of "replicate 40 0" False "[]" "[]"]
    unfolding example_up by (auto simp: FD_SETSIZE_def)
qed

text \<open>A client that knows only the loopback interface has no address for a server elsewhere.\<close>

lemma select_interface_loopback_only:
  assumes "snd lo = [127, 0, 0, 1]" "own_mask k lo = ''255.0.0.0''" "getLongest LOOPBACK serv = Some m" "m < 8" "serv \<noteq> LOOPBACK"
  shows "select_interface serv (client_entry k lo # drop 1 no_client_interfaces) = Some (serv, None)"
proof -
  have e: "client_entry k lo = \<lparr>label = 1, address = LOOPBACK, networkMask = ''255.0.0.0''\<rparr>"
  proof -
    have "ip_ntop [127, 0, 0, 1] = LOOPBACK" by code_simp
    then show ?thesis using assms(1,2) by (simp add: client_entry_def)
  qed
  have "getNetworkMaskNum ''255.0.0.0'' = Some 8" by code_simp
  moreover have "drop 1 no_client_interfaces = \<lparr>label = -1, address = [], networkMask = []\<rparr> # drop 2 no_client_interfaces"
    by (simp add: no_client_interfaces_def FD_SETSIZE_def flip: replicate_Suc)
  ultimately have "longest_match serv 0 (client_entry k lo # drop 1 no_client_interfaces) (-1, 0) = Some (-1, 0)"
    using assms(3,4) e by simp
  moreover have "find_index (\<lambda>i. label i > 0 \<and> address i \<noteq> LOOPBACK) (client_entry k lo # drop 1 no_client_interfaces) = None"
    unfolding find_index_None using e by (auto simp: no_client_interfaces_def)
  ultimately show ?thesis using assms(5) by (simp add: select_interface_def)
qed

text \<open>
  C27 (interfaces are missed where entries have 40 bytes): on a machine whose \<^verbatim>\<open>struct ifreq\<close> is longer than a name and an
  address, as on a 64-bit Linux, the list is that of the interfaces that are up among the first, the fifth, the ninth and so
  on: with up to four interfaces, the loopback interface first, the client knows only that one and has no address of its
  own towards any server that is not on the loopback network.
\<close>

theorem interfaces_missed:
  assumes "answers k 40 es" "kernel_ok k es" "list_all (\<lambda>e. name_ok (fst e)) es" "junk_ok junk"
    and "es = lo # rest" "length rest \<le> 3" "up k lo" "snd lo = [127, 0, 0, 1]" "own_mask k lo = ''255.0.0.0''"
    and "getLongest LOOPBACK serv = Some m" "m < 8" "serv \<noteq> LOOPBACK"
  shows "\<exists>ifi. Get_ifi_info_plus k 40 junk AF_INET ipv6 True = Some (Listed [ifi]) \<and> described k lo ifi
    \<and> select_interface serv (client_interfaces [ifi] adr msk no_client_interfaces) = Some (serv, None)"
proof -
  have ef: "every_fourth es = [lo]"
    using assms(5,6) by (cases es rule: every_fourth.cases) auto
  have f: "filter (up k) (every_fourth es) = [lo]" using ef assms(7) by simp
  have "\<exists>e \<in> set (every_fourth es). up k e" using ef assms(7) by simp
  from Get_ifi_info_plus_listed [OF assms(1,2) _ this walk_40 [OF assms(2-4)], where adr = adr and msk = msk] obtain ifis
    where "Get_ifi_info_plus k 40 junk AF_INET ipv6 True = Some (Listed ifis)" "list_all2 (described k) [lo] ifis"
      and "client_interfaces ifis adr msk no_client_interfaces = client_entry k lo # drop 1 no_client_interfaces"
    unfolding f by (auto simp: FD_SETSIZE_def)
  then show ?thesis
    using select_interface_loopback_only [OF assms(8-12)] by (auto simp: list_all2_Cons1)
qed

theorem interfaces_missed_witness:
  "\<exists>ifi. Get_ifi_info_plus (example_kernel 40) 40 (replicate 32 0) AF_INET False True = Some (Listed [ifi])
    \<and> described (example_kernel 40) (hd lo_eth0) ifi
    \<and> select_interface ''130.245.1.7'' (client_interfaces [ifi] [] [] no_client_interfaces) = Some (''130.245.1.7'', None)"
proof -
  have n: "list_all (\<lambda>e. name_ok (fst e)) lo_eth0" "junk_ok (replicate 32 0)" "lo_eth0 = hd lo_eth0 # tl lo_eth0" "length (tl lo_eth0) \<le> 3"
    "snd (hd lo_eth0) = [127, 0, 0, 1]" "own_mask (example_kernel 40) (hd lo_eth0) = ''255.0.0.0''"
    "getLongest LOOPBACK ''130.245.1.7'' = Some 0" "(0 :: nat) < 8" "''130.245.1.7'' \<noteq> LOOPBACK"
    by code_simp+
  have u: "up (example_kernel 40) (hd lo_eth0)" by code_simp
  show ?thesis
    using interfaces_missed [OF example_answers example_ok n(1-4) u n(5-9), of False "[]" "[]"] by blast
qed

end
