(* ===== verification/Client_Start.thy ===== *)
theory Client_Start
  imports Params Ifi_Info
begin






section \<open>Printing and parsing addresses\<close>




section \<open>The choice always succeeds\<close>





section \<open>Property\<close>





end
