(* ===== verification/Srv_Listen.thy ===== *)
theory Srv_Listen
  imports Ifi_Info
begin

text \<open>
  The start of the file server and its outer loop (\<^verbatim>\<open>main\<close> of \<^verbatim>\<open>udpserv.c\<close>): a socket for each interface, entered into
  \<^verbatim>\<open>interfaceArray\<close> and into the set that \<^verbatim>\<open>select\<close> watches, and the pass that calls \<^verbatim>\<open>mydg_echo\<close> for the sockets that are
  readable.  The counter \<^verbatim>\<open>nready\<close> is declared and decremented but never set: its first value is a parameter.
\<close>

section \<open>The sockets\<close>

text \<open>The server opens a socket for each interface; \<open>fds\<close> are the descriptors \<^verbatim>\<open>Socket\<close> gives.\<close>

record listeners =
  interfaceArray :: "srv_interface list"
  allset :: "int list"
  maxfd :: int
  maxi :: int

definition no_listeners :: listeners where
  "no_listeners = \<lparr>interfaceArray = replicate FD_SETSIZE \<lparr>sockFd = -1, s_address = [], s_networkMask = []\<rparr>,
     allset = [], maxfd = -99, maxi = -1\<rparr>"

definition listen_on :: "int \<Rightarrow> string \<Rightarrow> string \<Rightarrow> listeners \<Rightarrow> listeners" where
  "listen_on sockfd adr msk l =
     (let j = (case find_index (\<lambda>i. sockFd i < 0) (interfaceArray l) of Some j \<Rightarrow> j | None \<Rightarrow> FD_SETSIZE)
      in l\<lparr>interfaceArray := (interfaceArray l)[j := \<lparr>sockFd = sockfd, s_address = adr, s_networkMask = msk\<rparr>],
           allset := sockfd # allset l, maxfd := max (maxfd l) sockfd, maxi := max (maxi l) (int j)\<rparr>)"

fun srv_interfaces :: "ifi_info list \<Rightarrow> int list \<Rightarrow> string \<Rightarrow> string \<Rightarrow> listeners \<Rightarrow> listeners" where
  "srv_interfaces (ifi # ifis) (fd # fds) adr msk l =
     (let adr = ntop_or_old (ifi_addr ifi) adr; msk = ntop_or_old (ifi_ntmaddr ifi) msk
      in srv_interfaces ifis fds adr msk (listen_on fd adr msk l))"
| "srv_interfaces _ _ adr msk l = l"

section \<open>The pass\<close>

text \<open>The calls of \<^verbatim>\<open>mydg_echo\<close>: the socket and the address it was bound to.\<close>

fun check_listeners :: "srv_interface list \<Rightarrow> int list \<Rightarrow> srv_interface list \<Rightarrow> 32 word \<Rightarrow> (int \<times> string) list \<times> 32 word" where
  "check_listeners arr rset [] nready = ([], nready)"
| "check_listeners arr rset (i # more_ifs) nready =
     (if sockFd i < 0 \<or> sockFd i \<notin> set rset then check_listeners arr rset more_ifs nready
      else let tmpAddress = (case find_index (\<lambda>x. sockFd x = sockFd i) arr of Some p \<Rightarrow> s_address (arr ! p) | None \<Rightarrow> []);
               call = (sockFd i, tmpAddress); nready = nready - 1
           in if sint nready \<le> 0 then ([call], nready)
              else let (calls, n) = check_listeners arr rset more_ifs nready in (call # calls, n))"

text \<open>
  \<^verbatim>\<open>select\<close> reports the sockets with a datagram waiting, \<open>pending\<close> counts them; each call takes one, when the client it
  comes from answers.
\<close>

definition served :: "(int \<times> string) list \<Rightarrow> (int \<Rightarrow> nat) \<Rightarrow> int \<Rightarrow> nat" where
  "served calls pending fd = pending fd - length (filter (\<lambda>c. fst c = fd) calls)"

definition listen_pass :: "listeners \<Rightarrow> (int \<Rightarrow> nat) \<times> 32 word \<Rightarrow> (int \<times> string) list \<times> (int \<Rightarrow> nat) \<times> 32 word" where
  "listen_pass l s =
     (let rset = filter (\<lambda>fd. 0 < fst s fd) (allset l);
          (calls, nready) = check_listeners (interfaceArray l) rset (take (nat (maxi l + 1)) (interfaceArray l)) (snd s)
      in (calls, served calls (fst s), nready))"

fun listen_passes :: "nat \<Rightarrow> listeners \<Rightarrow> (int \<Rightarrow> nat) \<times> 32 word \<Rightarrow> (int \<times> string) list \<times> (int \<Rightarrow> nat) \<times> 32 word" where
  "listen_passes 0 l s = ([], s)"
| "listen_passes (Suc n) l s =
     (let (calls, s1) = listen_pass l s; (calls', s2) = listen_passes n l s1 in (calls @ calls', s2))"

section \<open>The array\<close>

definition srv_entry :: "kernel \<Rightarrow> byte list \<times> byte list \<Rightarrow> int \<Rightarrow> srv_interface" where
  "srv_entry k e fd = \<lparr>sockFd = fd, s_address = ip_ntop (snd e), s_networkMask = own_mask k e\<rparr>"

definition listening :: "srv_interface list \<Rightarrow> listeners \<Rightarrow> bool" where
  "listening used l \<longleftrightarrow> interfaceArray l = used @ drop (length used) (interfaceArray no_listeners)
     \<and> set (allset l) = sockFd ` set used \<and> maxi l = int (length used) - 1"

lemma listening_none: "listening [] no_listeners"
  by (simp add: listening_def no_listeners_def)

lemma listen_on_next:
  assumes "listening used l" "\<forall>i \<in> set used. 0 \<le> sockFd i" "length used < FD_SETSIZE"
  shows "listening (used @ [\<lparr>sockFd = fd, s_address = adr, s_networkMask = msk\<rparr>]) (listen_on fd adr msk l)"
proof -
  let ?free = "\<lparr>sockFd = -1, s_address = [], s_networkMask = []\<rparr>"
  have d: "drop (length used) (interfaceArray no_listeners) = ?free # drop (Suc (length used)) (interfaceArray no_listeners)"
    using assms(3) by (simp add: no_listeners_def Suc_diff_Suc flip: replicate_Suc)
  have "find_index (\<lambda>i. sockFd i < 0) used = None" using assms(2) by (auto simp: find_index_None)
  then have "find_index (\<lambda>i. sockFd i < 0) (interfaceArray l) = Some (length used)"
    using assms(1) by (simp add: listening_def find_index_append d)
  then show ?thesis
    using assms(1) by (simp add: listening_def listen_on_def Let_def d list_update_append max_def)
qed

lemma srv_interfaces_listening:
  assumes "list_all2 (described k) es ifis" "length fds = length es" "\<forall>fd \<in> set fds. 0 \<le> fd"
    and "listening used l" "\<forall>i \<in> set used. 0 \<le> sockFd i" "length used + length es \<le> FD_SETSIZE"
  shows "listening (used @ map2 (srv_entry k) es fds) (srv_interfaces ifis fds adr msk l)"
  using assms
proof (induction es ifis arbitrary: fds used l adr msk rule: list_all2_induct)
  case Nil
  then show ?case by simp
next
  case (Cons e es ifi ifis)
  obtain fd fds' where f: "fds = fd # fds'" using Cons.prems(1) by (cases fds) auto
  note shown = described_shown [OF Cons.hyps(1)]
  have "listening (used @ [srv_entry k e fd]) (listen_on fd (ip_ntop (snd e)) (own_mask k e) l)"
    unfolding srv_entry_def using Cons.prems by (intro listen_on_next) auto
  from Cons.IH [OF _ _ this] show ?case
    using Cons.prems f shown by (simp add: srv_entry_def Let_def)
qed

section \<open>Every request is served\<close>

definition bound :: "srv_interface list \<Rightarrow> bool" where
  "bound used \<longleftrightarrow> distinct (map sockFd used) \<and> (\<forall>i \<in> set used. 0 \<le> sockFd i)"

definition call_of :: "srv_interface \<Rightarrow> int \<times> string" where
  "call_of i = (sockFd i, s_address i)"

lemma find_own:
  assumes "bound used" "i \<in> set used"
  shows "\<exists>p. find_index (\<lambda>x. sockFd x = sockFd i) (used @ free) = Some p \<and> (used @ free) ! p = i"
proof -
  have "find_index (\<lambda>x. sockFd x = sockFd i) used \<noteq> None" using assms(2) by (auto simp: find_index_None)
  then obtain p where p: "find_index (\<lambda>x. sockFd x = sockFd i) used = Some p" by auto
  then have "p < length used" "sockFd (used ! p) = sockFd i" by (auto simp: find_index_Some)
  moreover from this have "used ! p = i"
    using assms by (auto simp: bound_def distinct_map dest: inj_onD [where x = "used ! p" and y = i])
  ultimately show ?thesis using p by (auto simp: find_index_append nth_append)
qed

lemma check_listeners_calls:
  assumes "bound used" "set ifs \<subseteq> set used" "distinct ifs" "check_listeners (used @ free) rset ifs nready = (calls, n)"
  shows "\<exists>js. calls = map call_of js \<and> set js \<subseteq> {i \<in> set ifs. sockFd i \<in> set rset} \<and> distinct js"
    and "(\<exists>i \<in> set ifs. sockFd i \<in> set rset) \<Longrightarrow> calls \<noteq> []"
proof -
  have "(\<exists>js. calls = map call_of js \<and> set js \<subseteq> {i \<in> set ifs. sockFd i \<in> set rset} \<and> distinct js)
    \<and> ((\<exists>i \<in> set ifs. sockFd i \<in> set rset) \<longrightarrow> calls \<noteq> [])"
    using assms(2-4)
  proof (induction ifs arbitrary: nready calls n)
    case (Cons i ifs)
    have nn: "0 \<le> sockFd i" using Cons.prems(1) assms(1) by (auto simp: bound_def)
    obtain p where p: "find_index (\<lambda>x. sockFd x = sockFd i) (used @ free) = Some p" "(used @ free) ! p = i"
      using find_own [OF assms(1), of i free] Cons.prems(1) by auto
    obtain calls' n' where r: "check_listeners (used @ free) rset ifs (nready - 1) = (calls', n')" by force
    show ?case
    proof (cases "sockFd i \<in> set rset")
      case False
      then show ?thesis using Cons.IH [of nready calls n] Cons.prems by auto
    next
      case True
      obtain js where js: "calls' = map call_of js" "set js \<subseteq> {i \<in> set ifs. sockFd i \<in> set rset}" "distinct js"
        using Cons.IH [of "nready - 1" calls' n'] Cons.prems r by auto
      show ?thesis
      proof (cases "sint (nready - 1) \<le> 0")
        case True
        then have "calls = map call_of [i]" using Cons.prems(3) \<open>sockFd i \<in> set rset\<close> nn p by (auto simp: Let_def call_of_def)
        then show ?thesis using \<open>sockFd i \<in> set rset\<close> by (intro conjI exI [of _ "[i]"]) auto
      next
        case False
        then have "calls = map call_of (i # js)"
          using Cons.prems(3) \<open>sockFd i \<in> set rset\<close> nn p r js(1) by (auto simp: Let_def call_of_def)
        moreover have "i \<notin> set js" using js(2) Cons.prems(2) by auto
        ultimately show ?thesis using \<open>sockFd i \<in> set rset\<close> js by (intro conjI exI [of _ "i # js"]) auto
      qed
    qed
  qed simp
  then show "\<exists>js. calls = map call_of js \<and> set js \<subseteq> {i \<in> set ifs. sockFd i \<in> set rset} \<and> distinct js"
    and "(\<exists>i \<in> set ifs. sockFd i \<in> set rset) \<Longrightarrow> calls \<noteq> []" by blast+
qed

definition calls_for :: "int \<Rightarrow> (int \<times> string) list \<Rightarrow> nat" where
  "calls_for fd calls = length (filter (\<lambda>c. fst c = fd) calls)"

definition waiting :: "srv_interface list \<Rightarrow> (int \<Rightarrow> nat) \<Rightarrow> nat" where
  "waiting used pending = sum_list (map (\<lambda>i. pending (sockFd i)) used)"

lemma calls_for_append: "calls_for fd (xs @ ys) = calls_for fd xs + calls_for fd ys"
  by (simp add: calls_for_def)

lemma calls_for_once: "distinct (map fst calls) \<Longrightarrow> calls_for fd calls = of_bool (fd \<in> fst ` set calls)"
  by (induction calls) (auto simp: calls_for_def)

text \<open>One pass: some waiting datagram is taken, none is lost, each by the call for its socket and the address of its interface.\<close>

lemma listen_pass_step:
  assumes "listening used l" "bound used" "listen_pass l (pending, nready) = (calls, pending', nready')"
  shows "\<forall>i \<in> set used. pending' (sockFd i) + calls_for (sockFd i) calls = pending (sockFd i)"
    and "set calls \<subseteq> call_of ` set used"
    and "0 < waiting used pending \<Longrightarrow> waiting used pending' < waiting used pending"
proof -
  let ?rset = "filter (\<lambda>fd. 0 < pending fd) (allset l)" and ?free = "drop (length used) (interfaceArray no_listeners)"
  have arr: "interfaceArray l = used @ ?free" "take (nat (maxi l + 1)) (interfaceArray l) = used" "set (allset l) = sockFd ` set used"
    using assms(1) by (auto simp: listening_def)
  obtain n where c: "check_listeners (used @ ?free) ?rset used nready = (calls, n)" "pending' = served calls pending"
    using assms(3) arr by (auto simp: listen_pass_def Let_def split: prod.splits)
  have d: "distinct used" using assms(2) by (simp add: bound_def distinct_map)
  obtain js where js: "calls = map call_of js" "set js \<subseteq> {i \<in> set used. sockFd i \<in> set ?rset}" "distinct js"
    using check_listeners_calls(1) [OF assms(2) subset_refl d c(1)] by blast
  have "inj_on sockFd (set js)" using assms(2) js(2) by (auto simp: bound_def distinct_map intro: inj_on_subset)
  then have dc: "distinct (map fst calls)" using js(1,3) by (auto simp: distinct_map call_of_def inj_on_def)
  have pos: "0 < pending fd" if "fd \<in> fst ` set calls" for fd using that js(1,2) by (auto simp: call_of_def)
  have one: "pending' fd + calls_for fd calls = pending fd" for fd
    using pos [of fd] calls_for_once [OF dc, of fd] unfolding c(2) served_def calls_for_def by auto
  then show "\<forall>i \<in> set used. pending' (sockFd i) + calls_for (sockFd i) calls = pending (sockFd i)" by blast
  show "set calls \<subseteq> call_of ` set used" using js(1,2) by auto
  assume "0 < waiting used pending"
  then obtain i where i: "i \<in> set used" "0 < pending (sockFd i)" by (force simp: waiting_def sum_list_eq_0_iff simp flip: neq0_conv)
  then have "calls \<noteq> []" using check_listeners_calls(2) [OF assms(2) subset_refl d c(1)] arr(3) by force
  then obtain j where j: "j \<in> set used" "sockFd j \<in> fst ` set calls" using js(1,2) by (cases js) (auto simp: call_of_def)
  have "pending' (sockFd j) < pending (sockFd j)" using one [of "sockFd j"] calls_for_once [OF dc, of "sockFd j"] j(2) by simp
  moreover have "\<And>i. pending' (sockFd i) \<le> pending (sockFd i)" using one by (metis le_add1)
  ultimately show "waiting used pending' < waiting used pending"
    unfolding waiting_def using j(1) d
    by (simp add: sum_list_distinct_conv_sum_set) (rule sum_strict_mono_ex1, auto)
qed

lemma listen_passes_serve:
  assumes "listening used l" "bound used"
  shows "waiting used pending \<le> n \<Longrightarrow> listen_passes n l (pending, nready) = (calls, pending', nready') \<Longrightarrow>
    (\<forall>i \<in> set used. pending' (sockFd i) = 0 \<and> calls_for (sockFd i) calls = pending (sockFd i)) \<and> set calls \<subseteq> call_of ` set used"
proof (induction n arbitrary: pending nready calls)
  case 0
  then show ?case by (auto simp: waiting_def calls_for_def)
next
  case (Suc n)
  obtain c1 p1 n1 where p: "listen_pass l (pending, nready) = (c1, p1, n1)" by (metis prod.exhaust)
  obtain c2 where r: "listen_passes n l (p1, n1) = (c2, pending', nready')" "calls = c1 @ c2"
    using Suc.prems(2) p by (auto split: prod.splits)
  note step = listen_pass_step [OF assms p]
  have "waiting used p1 \<le> n"
  proof (cases "0 < waiting used pending")
    case True
    then show ?thesis using step(3) Suc.prems(1) by linarith
  next
    case False
    then have "\<forall>i \<in> set used. pending (sockFd i) = 0" by (simp add: waiting_def)
    then have "waiting used p1 = 0" using step(1) by (auto simp: waiting_def)
    then show ?thesis by simp
  qed
  from Suc.IH [OF this r(1)] show ?case using step(1,2) r(2) by (auto simp: calls_for_append)
qed

section \<open>Property\<close>

text \<open>
  C25 (the server serves every interface, whatever \<^verbatim>\<open>nready\<close> holds): started on a kernel whose entries have 32 bytes (as on a 32-bit
  Linux; with entries of 40 bytes interfaces are missed, see \<open>interfaces_missed\<close>) and with at most \<^verbatim>\<open>FD_SETSIZE\<close> interfaces up, the server
  has one socket for each interface that is up, with its address and mask in the array; and if each call of
  \<^verbatim>\<open>mydg_echo\<close> takes one datagram, then for any number of datagrams waiting at the sockets and any first value of the counter, after as
  many passes as there are datagrams each has been served, by calls for the socket it came in on and the address of that
  socket's interface.
\<close>

theorem requests_served:
  assumes "answers k 32 es" "kernel_ok k es" "\<exists>e \<in> set es. up k e" "length (filter (up k) es) \<le> FD_SETSIZE"
    and "length fds = length (filter (up k) es)" "distinct fds" "\<forall>fd \<in> set fds. 0 \<le> fd"
    and "waiting (map2 (srv_entry k) (filter (up k) es) fds) pending \<le> n"
  shows "\<exists>ifis l calls pending' nready'. Get_ifi_info_plus k 32 junk AF_INET ipv6 True = Some (Listed ifis)
    \<and> l = srv_interfaces ifis fds adr msk no_listeners
    \<and> interfaceArray l = map2 (srv_entry k) (filter (up k) es) fds @ drop (length fds) (interfaceArray no_listeners)
    \<and> listen_passes n l (pending, nready) = (calls, pending', nready')
    \<and> (\<forall>fd \<in> set fds. pending' fd = 0 \<and> calls_for fd calls = pending fd)
    \<and> set calls \<subseteq> set (zip fds (map (\<lambda>e. ip_ntop (snd e)) (filter (up k) es)))"
proof -
  let ?es = "filter (up k) es" and ?used = "map2 (srv_entry k) (filter (up k) es) fds"
  obtain ifis where i: "Get_ifi_info_plus k 32 junk AF_INET ipv6 True = Some (Listed ifis)" "list_all2 (described k) ?es ifis"
    using Get_ifi_info_plus_listed [OF assms(1,2) _ assms(3) walk_32 [OF assms(2), of ipv6 "[0]" junk]] by auto
  let ?l = "srv_interfaces ifis fds adr msk no_listeners"
  have l: "listening ?used ?l"
    using srv_interfaces_listening [OF i(2) assms(5,7) listening_none] assms(4) by simp
  have s: "map sockFd ?used = fds" "map call_of ?used = zip fds (map (\<lambda>e. ip_ntop (snd e)) ?es)"
    using assms(5) by (auto simp: srv_entry_def call_of_def intro!: nth_equalityI)
  then have im: "sockFd ` set ?used = set fds" "call_of ` set ?used = set (zip fds (map (\<lambda>e. ip_ntop (snd e)) ?es))"
    by (metis set_map)+
  then have b: "bound ?used" unfolding bound_def s(1) using assms(6,7) by (metis imageI)
  obtain calls pending' nready' where p: "listen_passes n ?l (pending, nready) = (calls, pending', nready')" by (metis prod.exhaust)
  have "\<forall>fd \<in> sockFd ` set ?used. pending' fd = 0 \<and> calls_for fd calls = pending fd" "set calls \<subseteq> call_of ` set ?used"
    using listen_passes_serve [OF l b assms(8) p] by auto
  moreover have "interfaceArray ?l = ?used @ drop (length fds) (interfaceArray no_listeners)"
    using l assms(5) by (simp add: listening_def)
  ultimately show ?thesis using i(1) p unfolding im by blast
qed

theorem requests_served_witness:
  "\<exists>ifis l calls pending' nready'. Get_ifi_info_plus (example_kernel 32) 32 (replicate 40 0) AF_INET False True = Some (Listed ifis)
    \<and> l = srv_interfaces ifis [5, 6] [] [] no_listeners
    \<and> listen_passes 5 l ((\<lambda>fd. 2), 0) = (calls, pending', nready')
    \<and> calls_for 5 calls = 2 \<and> calls_for 6 calls = 2
    \<and> set calls \<subseteq> {(5, ''127.0.0.1''), (6, ''130.245.1.20'')}"
proof -
  have u: "\<exists>e \<in> set lo_eth0. up (example_kernel 32) e" using example_up [of 32] by (metis filter_False lo_eth0_def list.distinct(1))
  have a: "map (\<lambda>e. ip_ntop (snd e)) lo_eth0 = [''127.0.0.1'', ''130.245.1.20'']" by code_simp
  have w: "waiting (map2 (srv_entry (example_kernel 32)) lo_eth0 [5, 6]) (\<lambda>fd. 2) \<le> 5" "length lo_eth0 = 2"
    by (simp_all add: waiting_def lo_eth0_def)
  show ?thesis
    using requests_served [OF example_answers example_ok u, of "[5, 6]" "\<lambda>fd. 2" 5 "replicate 40 0" False "[]" "[]" 0] w
    unfolding example_up a by (simp add: FD_SETSIZE_def) blast
qed

end
