(* ===== verification/Tour.thy ===== *)
theory Tour
  imports Wire Hw_Addr "HOL-Library.Monad_Syntax"
begin

text \<open>
  The tour program (\<^verbatim>\<open>tour_chechung.c\<close>): the list of nodes from the command line, the source-routed packet that
  carries it from node to node, the pings of the preceding nodes, and the multicast messages that end the
  tour.  The names and addresses of the nodes (\<^verbatim>\<open>gethostbyname\<close>, \<^verbatim>\<open>gethostbyaddr\<close>) are in \<open>tour_config\<close>.  On a
  64-bit machine \<^verbatim>\<open>int *hostArray[70]\<close> is an array of 70 numbers of eight bytes, and the structure has 592 bytes.
  A handler returns \<open>None\<close> where the code has undefined behaviour, otherwise the new state and what it does.
\<close>

definition TOTAL_VM_SIZE :: nat where "TOTAL_VM_SIZE = 70"
definition PING_SIZE :: nat where "PING_SIZE = 11"
definition IP_WHOLE_PACK_SIZE :: nat where "IP_WHOLE_PACK_SIZE = 2000"
definition IP_IDENTIFICATION :: nat where "IP_IDENTIFICATION = 5914"

section \<open>Data\<close>

record payload =
  next_ip_idx :: int
  multi_port :: string
  multi_ip :: string
  hostArray :: "int list"

record tour_config =
  vm_addr :: "string \<Rightarrow> byte list option"
  addr_name :: "byte list \<Rightarrow> string option"
  localHost :: string

record tour =
  previous_vmNum_static :: int
  if_last_node :: int
  if_ping :: "int list"
  ping_counter_array :: "int list"
  ping_switch :: int
  ifVisit :: int

definition tour_init :: tour where
  "tour_init = \<lparr>previous_vmNum_static = -1, if_last_node = -1, if_ping = replicate PING_SIZE 0,
     ping_counter_array = replicate PING_SIZE 0, ping_switch = -1, ifVisit = 0\<rparr>"

datatype tour_effect =
    SendRT "byte list" "byte list"
  | JoinGroup string string
  | PingVm nat
  | SendMulticast string
  | SetAlarm nat

text \<open>An array access with an index of type \<^verbatim>\<open>int\<close>.\<close>

definition load_int :: "'a list \<Rightarrow> int \<Rightarrow> 'a option" where
  "load_int xs i = (if 0 \<le> i then load xs (nat i) else None)"

section \<open>The command line\<close>

datatype args_result = InvalidTour | ArgsFault | Numbers "int list"

text \<open>\<^verbatim>\<open>host[0] = '0'; host[1] = '0'\<close> in the array itself: the next argument is compared with the changed one.\<close>

definition zeroed :: "string \<Rightarrow> string" where
  "zeroed host = CHR ''0'' # CHR ''0'' # drop 2 host"

fun number_args :: "nat \<Rightarrow> string \<Rightarrow> string list \<Rightarrow> args_result" where
  "number_args i prev [] = Numbers []"
| "number_args i prev (a # rest) =
     (if a = prev then InvalidTour
      else if length a < 2 \<or> TOTAL_VM_SIZE \<le> i then ArgsFault
      else case number_args (Suc i) (zeroed a) rest of Numbers ns \<Rightarrow> Numbers (atoi (zeroed a) # ns) | r \<Rightarrow> r)"

text \<open>
  The array is a local variable of the function, which returns its address: the caller gets an expired pointer to what the array
  held.
\<close>

datatype array_result = Array_Exit | Array_Fault | Expired "int list"

definition hostNameToNumberArray :: "string \<Rightarrow> string \<Rightarrow> string list \<Rightarrow> array_result" where
  "hostNameToNumberArray hostname argv0 args =
     (if length hostname < 2 then Array_Fault
      else case number_args 1 argv0 args of
        Numbers ns \<Rightarrow> Expired (atoi (zeroed hostname) # ns @ replicate (TOTAL_VM_SIZE - 1 - length ns) 0)
      | InvalidTour \<Rightarrow> Array_Exit
      | ArgsFault \<Rightarrow> Array_Fault)"

section \<open>The packet\<close>

fun le_bytes :: "nat \<Rightarrow> int \<Rightarrow> byte list" where
  "le_bytes 0 x = []"
| "le_bytes (Suc n) x = word_of_int x # le_bytes n (drop_bit 8 x)"

fun le_val :: "byte list \<Rightarrow> int" where
  "le_val [] = 0"
| "le_val (b # bs) = uint b + 256 * le_val bs"

fun read_words :: "nat \<Rightarrow> byte list \<Rightarrow> int list" where
  "read_words 0 bs = []"
| "read_words (Suc n) bs = le_val (take 8 bs) # read_words n (drop 8 bs)"

text \<open>\<open>junk\<close> is what the memory of the structure held before; two bytes of padding stand before the numbers.\<close>

definition encode_payload :: "memory \<Rightarrow> payload \<Rightarrow> byte list" where
  "encode_payload junk p = le_bytes 4 (next_ip_idx p) @ put_str 10 (\<lambda>i. junk (4 + i)) (multi_port p)
     @ put_str 16 (\<lambda>i. junk (14 + i)) (multi_ip p) @ [junk 30, junk 31] @ concat (map (le_bytes 8) (hostArray p))"

definition decode_payload :: "byte list \<Rightarrow> payload option" where
  "decode_payload bs =
     (if length bs < 592 then None
      else do {
        (port, r1) \<leftarrow> get_str 10 (drop 4 bs);
        (ip, r2) \<leftarrow> get_str 16 r1;
        Some \<lparr>next_ip_idx = to_int32 (le_val (take 4 bs)), multi_port = port, multi_ip = ip,
               hostArray = read_words TOTAL_VM_SIZE (drop 2 r2)\<rparr>
      })"

text \<open>The Internet header: version 4, five words, length 612, identification 5914, time to live 1, protocol 201.\<close>

definition rt_header :: "byte list \<Rightarrow> byte list \<Rightarrow> byte list" where
  "rt_header sip dip = [0x45, 0, 0x02, 0x64, 0x17, 0x1A, 0, 0, 1, 201, 0, 0] @ sip @ dip"

definition vm_full :: "int \<Rightarrow> string" where
  "vm_full k = ''vm'' @ dec k"

text \<open>
  \<^verbatim>\<open>sendRTpacket\<close>: the bytes and the address they are sent to.  The length handed to \<^verbatim>\<open>Sendto\<close> is the size of the
  payload, so that the last twenty bytes of it are not sent.
\<close>

definition sendRTpacket :: "tour_config \<Rightarrow> memory \<Rightarrow> payload \<Rightarrow> (byte list \<times> byte list) option" where
  "sendRTpacket cfg junk p =
     do {
       h1 \<leftarrow> load_int (hostArray p) (next_ip_idx p);
       sip \<leftarrow> vm_addr cfg (vm_full (to_int32 h1));
       h2 \<leftarrow> load_int (hostArray p) (next_ip_idx p + 1);
       dip \<leftarrow> vm_addr cfg (vm_full (to_int32 h2));
       let buf = rt_header sip dip @ encode_payload junk (p\<lparr>next_ip_idx := next_ip_idx p + 1\<rparr>);
       Some (dip, take 592 buf)
     }"

text \<open>\<^verbatim>\<open>receiveRTpacket\<close>: the buffer holds \<open>old\<close> bytes behind the packet.\<close>

definition receiveRTpacket :: "tour_config \<Rightarrow> byte list \<Rightarrow> byte list \<Rightarrow> payload option" where
  "receiveRTpacket cfg old bytes =
     (let buff = take IP_WHOLE_PACK_SIZE (bytes @ old)
      in do {
        _ \<leftarrow> addr_name cfg (take 4 (drop 12 buff));
        decode_payload (drop 20 buff)
      })"

section \<open>Handlers\<close>

text \<open>
  The first node: \<open>tour_send\<close> is what \<^verbatim>\<open>main\<close> does with the 70 numbers of the list, the group it joins and what it sends.  But
  \<^verbatim>\<open>main\<close> reads the numbers through the expired pointer, which is undefined behaviour: as the program is written every start with
  arguments that are not rejected is a \<open>StartFault\<close>.
\<close>

datatype start_result = StartExit | StartFault | Started tour "tour_effect list"

definition tour_send :: "tour_config \<Rightarrow> memory \<Rightarrow> int list \<Rightarrow> start_result" where
  "tour_send cfg junk ns =
     (case sendRTpacket cfg junk \<lparr>next_ip_idx = 0, multi_port = ''9821'', multi_ip = ''234.245.209.121'', hostArray = ns\<rparr> of
        None \<Rightarrow> StartFault
      | Some (dst, raw) \<Rightarrow>
          Started (tour_init\<lparr>ifVisit := 1\<rparr>) [JoinGroup ''234.245.209.121'' ''9821'', SendRT dst raw])"

definition tour_start :: "tour_config \<Rightarrow> string \<Rightarrow> string list \<Rightarrow> start_result" where
  "tour_start cfg argv0 args =
     (case hostNameToNumberArray (localHost cfg) argv0 args of
        Array_Exit \<Rightarrow> StartExit
      | Array_Fault \<Rightarrow> StartFault
      | Expired ns \<Rightarrow> StartFault)"

definition last_index :: "int list \<Rightarrow> int" where
  "last_index hosts = (case find_index (\<lambda>h. h = 0) hosts of None \<Rightarrow> int (length hosts) | Some q \<Rightarrow> int q) - 1"

text \<open>\<^verbatim>\<open>if (FD_ISSET(rtsockfd, &rset))\<close>: the preceding node is pinged from now on.\<close>

definition note_previous :: "int \<Rightarrow> tour \<Rightarrow> tour option" where
  "note_previous previous_vmNum st =
     do {
       pinged \<leftarrow> load_int (if_ping st) previous_vmNum;
       Some (if pinged = 0
             then st\<lparr>ping_switch := 1, if_ping := (if_ping st)[nat previous_vmNum := 1], previous_vmNum_static := previous_vmNum\<rparr>
             else st)
     }"

definition tour_packet :: "tour_config \<Rightarrow> byte list \<Rightarrow> memory \<Rightarrow> byte list \<Rightarrow> tour \<Rightarrow> (tour \<times> tour_effect list) option" where
  "tour_packet cfg old junk bytes st =
     do {
       p \<leftarrow> receiveRTpacket cfg old bytes;
       prev \<leftarrow> load_int (hostArray p) (next_ip_idx p - 1);
       st1 \<leftarrow> note_previous (to_int32 prev) st;
       let (st2, fx) = (if ifVisit st = 0 then (st1\<lparr>ifVisit := 1\<rparr>, [JoinGroup (multi_ip p) (multi_port p)]) else (st1, []));
       if next_ip_idx p = last_index (hostArray p)
       then Some (st2\<lparr>if_last_node := 1\<rparr>, fx)
       else do {
         (dst, raw) \<leftarrow> sendRTpacket cfg junk p;
         Some (st2, fx @ [SendRT dst raw])
       }
     }"

text \<open>The two multicast messages (\<^verbatim>\<open>sprintf\<close> with three strings separated by blanks).\<close>

definition end_message :: "string \<Rightarrow> string" where
  "end_message host = ''<<<<< This is node '' @ '' '' @ host @ '' '' @
     '' . Tour has ended . Group members please identify yourselves. >>>>>'' @ [CHR 0x0A]"

definition member_message :: "string \<Rightarrow> string" where
  "member_message host = ''<<<<< Node '' @ '' '' @ host @ '' '' @ '' . I am a member of the group. >>>>>'' @ [CHR 0x0A]"

text \<open>A second without input.\<close>

definition tour_tick :: "tour_config \<Rightarrow> tour \<Rightarrow> (tour \<times> tour_effect list) option" where
  "tour_tick cfg st =
     (if ping_switch st = 1
      then do {
        c \<leftarrow> load_int (ping_counter_array st) (previous_vmNum_static st);
        if c \<ge> 5 \<and> if_last_node st = 1
        then Some (st\<lparr>ping_switch := -1\<rparr>, [SendMulticast (end_message (localHost cfg))])
        else Some (st, map PingVm (filter (\<lambda>k. if_ping st ! k \<noteq> 0) [1..<PING_SIZE]))
      }
      else Some (st, []))"

text \<open>\<^verbatim>\<open>proc_v4\<close>: an echo reply with our identification counts for the node that sent it.\<close>

definition proc_v4 :: "tour_config \<Rightarrow> byte list \<Rightarrow> tour \<Rightarrow> tour option" where
  "proc_v4 cfg bs st =
     (if length bs < 20 then None
      else let hlen1 = 4 * nat (uint (bs ! 0) mod 16)
           in if bs ! 9 \<noteq> 1 \<or> length bs < hlen1 + 8 \<or> bs ! hlen1 \<noteq> 0 \<or>
                 256 * nat (uint (bs ! (hlen1 + 4))) + nat (uint (bs ! (hlen1 + 5))) \<noteq> IP_IDENTIFICATION
              then Some st
              else do {
                h_name \<leftarrow> addr_name cfg (take 4 (drop 12 bs));
                if length h_name < 2 \<or> 20 \<le> length h_name then None
                else do {
                  c \<leftarrow> load_int (ping_counter_array st) (atoi (zeroed h_name));
                  Some (st\<lparr>ping_counter_array := (ping_counter_array st)[nat (atoi (zeroed h_name)) := c + 1]\<rparr>)
                }
              })"

text \<open>A multicast message: the line printed has to fit into its array; the seventh character decides.\<close>

definition recv_multicast :: "tour_config \<Rightarrow> string \<Rightarrow> tour \<Rightarrow> (tour \<times> tour_effect list) option" where
  "recv_multicast cfg line st =
     (if length line < 6 \<or> MAXLINE \<le> length line + length (localHost cfg) + 20 then None
      else Some (st\<lparr>ping_switch := -1\<rparr>,
        if char_at line 6 = 84 then [SendMulticast (member_message (localHost cfg))]
        else if char_at line 6 = 78 then [SetAlarm 5]
        else []))"

datatype tour_event =
    RtPacket "byte list" memory "byte list"
  | Tick
  | PingReply "byte list"
  | GroupMessage string

fun tour_step :: "tour_config \<Rightarrow> tour \<Rightarrow> tour_event \<Rightarrow> (tour \<times> tour_effect list) option" where
  "tour_step cfg st (RtPacket old junk bytes) = tour_packet cfg old junk bytes st"
| "tour_step cfg st Tick = tour_tick cfg st"
| "tour_step cfg st (PingReply bs) = map_option (\<lambda>st'. (st', [])) (proc_v4 cfg bs st)"
| "tour_step cfg st (GroupMessage line) = recv_multicast cfg line st"

end
