(* ===== verification/Tour_Props.thy ===== *)
theory Tour_Props
  imports Tour
begin

text \<open>
  What the tour program guarantees: a tour of at most 65 stops visits its nodes in the order of the command
  line and ends at the last one, although the packet is sent twenty bytes too short, and the test for repeated
  nodes never fires.  The end of a tour is in theory \<open>Tour_Net\<close>.
\<close>

section \<open>Bytes\<close>

lemma length_le_bytes [simp]: "length (le_bytes n x) = n"
  by (induction n x rule: le_bytes.induct) simp_all

lemma le_val_bytes: "le_val (le_bytes n x) = take_bit (8 * n) x"
proof (induction n x rule: le_bytes.induct)
  case (2 n x)
  have "uint (word_of_int x :: byte) = take_bit 8 x" by (simp add: unsigned_of_int)
  then have "le_val (le_bytes (Suc n) x) = take_bit 8 x + 2 ^ 8 * take_bit (8 * n) (drop_bit 8 x)" using 2 by simp
  also have "\<dots> = take_bit 8 x + push_bit 8 (take_bit (8 * n) (drop_bit 8 x))" by (simp add: push_bit_eq_mult)
  also have "\<dots> = take_bit 8 x OR push_bit 8 (take_bit (8 * n) (drop_bit 8 x))"
    by (rule disjunctive_add) (auto simp: bit_simps)
  also have "\<dots> = take_bit (8 * Suc n) x" by (rule bit_eqI) (auto simp: bit_simps)
  finally show ?case .
qed simp

lemma le_val_range: "0 \<le> le_val bs \<and> le_val bs < 256 ^ length bs"
proof (induction bs)
  case (Cons b bs)
  have "0 \<le> uint b" "uint b < 256" using unsigned_less [of b, where ?'a = int] by simp_all
  then show ?case using Cons by simp
qed simp

definition word64 :: "int \<Rightarrow> bool" where
  "word64 x \<longleftrightarrow> 0 \<le> x \<and> x < 2 ^ 64"

lemma le_val_64: "word64 x \<Longrightarrow> le_val (le_bytes 8 x) = x"
  by (simp add: le_val_bytes word64_def take_bit_int_eq_self)

lemma length_concat_words [simp]: "length (concat (map (le_bytes 8) xs)) = 8 * length xs"
  by (induction xs) simp_all

lemma read_words_append:
  "list_all word64 xs \<Longrightarrow> read_words (length xs + n) (concat (map (le_bytes 8) xs) @ rest) = xs @ read_words n rest"
  by (induction xs) (simp_all add: le_val_64)

lemma length_read_words [simp]: "length (read_words n bs) = n"
  by (induction n bs rule: read_words.induct) simp_all

lemma read_words_range: "list_all word64 (read_words n bs)"
proof (induction n bs rule: read_words.induct)
  case (2 n bs)
  have "le_val (take 8 bs) < 256 ^ 8"
    using le_val_range [of "take 8 bs"] power_increasing [of "length (take 8 bs)" 8 "256::int"] by simp
  then show ?case using 2 le_val_range [of "take 8 bs"] by (simp add: word64_def)
qed simp

section \<open>The packet\<close>

text \<open>A packet of the tour \<open>hs\<close> on its way to the node with index \<open>k\<close>: the list and a zero are intact.\<close>

definition tour_payload :: "int list \<Rightarrow> nat \<Rightarrow> payload \<Rightarrow> bool" where
  "tour_payload hs k p \<longleftrightarrow> next_ip_idx p = int k \<and> length (multi_port p) < 10 \<and> length (multi_ip p) < 16
     \<and> nul \<notin> set (multi_port p) \<and> nul \<notin> set (multi_ip p)
     \<and> length (hostArray p) = TOTAL_VM_SIZE \<and> list_all word64 (hostArray p) \<and> take (Suc (length hs)) (hostArray p) = hs @ [0]"

lemma tour_payload_nth: "tour_payload hs k p \<Longrightarrow> i < length hs \<Longrightarrow> hostArray p ! i = hs ! i"
proof -
  assume p: "tour_payload hs k p" and i: "i < length hs"
  then have "take (Suc (length hs)) (hostArray p) ! i = hs ! i" by (simp add: tour_payload_def nth_append)
  then show ?thesis using i by simp
qed

lemma tour_payload_last: "tour_payload hs k p \<Longrightarrow> 0 \<notin> set hs \<Longrightarrow> last_index (hostArray p) = int (length hs) - 1"
proof -
  assume p: "tour_payload hs k p" and z: "0 \<notin> set hs"
  have h: "hostArray p = hs @ 0 # drop (Suc (length hs)) (hostArray p)"
    using p append_take_drop_id [of "Suc (length hs)" "hostArray p"] by (simp add: tour_payload_def)
  have "find_index (\<lambda>h. h = 0) hs = None" using z by (auto simp: find_index_None)
  then have "find_index (\<lambda>h. h = 0) (hostArray p) = Some (length hs)" by (subst h) (simp add: find_index_append)
  then show ?thesis by (simp add: last_index_def)
qed

lemma decode_truncated:
  assumes "tour_payload hs k p" "length hs \<le> 66" "20 \<le> length old" "int32 (next_ip_idx p)"
  shows "\<exists>q. decode_payload (take 572 (encode_payload junk p) @ old) = Some q \<and> tour_payload hs k q"
proof -
  let ?h = "hostArray p"
  have t: "length (multi_port p) < 10" "length (multi_ip p) < 16" "nul \<notin> set (multi_port p)" "nul \<notin> set (multi_ip p)"
    "length ?h = 70" "list_all word64 ?h" "next_ip_idx p = int k" "take (Suc (length hs)) ?h = hs @ [0]"
    using assms(1) by (simp_all add: tour_payload_def TOTAL_VM_SIZE_def)
  let ?rest = "take 4 (concat (map (le_bytes 8) (drop 67 ?h))) @ old"
  have "concat (map (le_bytes 8) ?h) = concat (map (le_bytes 8) (take 67 ?h)) @ concat (map (le_bytes 8) (drop 67 ?h))"
    by (metis append_take_drop_id concat_append map_append)
  then have c: "take 572 (encode_payload junk p) @ old = le_bytes 4 (next_ip_idx p) @ put_str 10 (\<lambda>i. junk (4 + i)) (multi_port p)
      @ put_str 16 (\<lambda>i. junk (14 + i)) (multi_ip p) @ [junk 30, junk 31] @ concat (map (le_bytes 8) (take 67 ?h)) @ ?rest"
    using t(1,2,5) by (simp add: encode_payload_def)
  have "list_all word64 (take 67 ?h)" using t(6) by (auto simp: list_all_iff dest: in_set_takeD)
  then have w: "read_words 70 (concat (map (le_bytes 8) (take 67 ?h)) @ ?rest) = take 67 ?h @ read_words 3 ?rest"
    using read_words_append [of "take 67 ?h" 3 ?rest] t(5) by (simp add: min_def)
  have i: "to_int32 (le_val (le_bytes 4 (next_ip_idx p))) = next_ip_idx p"
    using assms(4) by (simp add: le_val_bytes to_int32_eq signed_take_bit_take_bit int32_def signed_take_bit_int_eq_self)
  have "decode_payload (take 572 (encode_payload junk p) @ old)
      = Some \<lparr>next_ip_idx = next_ip_idx p, multi_port = multi_port p, multi_ip = multi_ip p, hostArray = take 67 ?h @ read_words 3 ?rest\<rparr>"
    unfolding c using assms(3) t(1-5) w i by (simp add: decode_payload_def wire_simps TOTAL_VM_SIZE_def)
  moreover have "take (Suc (length hs)) (take 67 ?h @ read_words 3 ?rest) = hs @ [0]"
    using assms(2) t(5,8) by (simp add: min_def)
  moreover have "list_all word64 (take 67 ?h @ read_words 3 ?rest)"
    using t(6) read_words_range by (auto simp: list_all_iff dest: in_set_takeD)
  ultimately show ?thesis using t by (simp add: tour_payload_def TOTAL_VM_SIZE_def)
qed

section \<open>From node to node\<close>

definition tour_ok :: "tour_config \<Rightarrow> (int \<Rightarrow> byte list) \<Rightarrow> int list \<Rightarrow> bool" where
  "tour_ok cfg addr hs \<longleftrightarrow> 2 \<le> length hs \<and> length hs \<le> 66
     \<and> (\<forall>h \<in> set hs. 1 \<le> h \<and> h \<le> 10 \<and> vm_addr cfg (vm_full h) = Some (addr h) \<and> length (addr h) = 4 \<and> addr_name cfg (addr h) \<noteq> None)"

lemma tour_ok_nth:
  assumes "tour_ok cfg addr hs" "i < length hs"
  shows "1 \<le> hs ! i" "hs ! i \<le> 10" "vm_addr cfg (vm_full (hs ! i)) = Some (addr (hs ! i))" "length (addr (hs ! i)) = 4"
    "addr_name cfg (addr (hs ! i)) \<noteq> None" "to_int32 (hs ! i) = hs ! i"
proof -
  have h: "hs ! i \<in> set hs" using assms(2) by simp
  then show "1 \<le> hs ! i" "hs ! i \<le> 10" "vm_addr cfg (vm_full (hs ! i)) = Some (addr (hs ! i))" "length (addr (hs ! i)) = 4"
    "addr_name cfg (addr (hs ! i)) \<noteq> None" using assms(1) by (simp_all add: tour_ok_def)
  then show "to_int32 (hs ! i) = hs ! i" by (simp add: to_int32_id int32_def)
qed

lemma tour_ok_zero: "tour_ok cfg addr hs \<Longrightarrow> 0 \<notin> set hs"
  by (auto simp: tour_ok_def)

text \<open>A packet that is sent arrives at the next node with its list intact.\<close>

lemma send_receive:
  assumes "tour_ok cfg addr hs" "tour_payload hs k p" "Suc k < length hs" "20 \<le> length old"
  shows "\<exists>raw q. sendRTpacket cfg junk p = Some (addr (hs ! Suc k), raw) \<and> receiveRTpacket cfg old raw = Some q \<and> tour_payload hs (Suc k) q"
proof -
  note n = tour_ok_nth [OF assms(1)]
  have k: "next_ip_idx p = int k" "length (hostArray p) = 70" using assms(2) by (simp_all add: tour_payload_def TOTAL_VM_SIZE_def)
  have len: "length hs \<le> 66" using assms(1) by (simp add: tour_ok_def)
  have h: "load_int (hostArray p) (int k) = Some (hs ! k)" "load_int (hostArray p) (int k + 1) = Some (hs ! Suc k)"
    using tour_payload_nth [OF assms(2)] assms(3) len k(2) by (simp_all add: load_int_def load_def nat_add_distrib)
  let ?q = "p\<lparr>next_ip_idx := int k + 1\<rparr>"
  let ?raw = "rt_header (addr (hs ! k)) (addr (hs ! Suc k)) @ take 572 (encode_payload junk ?q)"
  have lr: "length (rt_header (addr (hs ! k)) (addr (hs ! Suc k))) = 20" using n(4) assms(3) by (simp add: rt_header_def)
  then have s: "sendRTpacket cfg junk p = Some (addr (hs ! Suc k), ?raw)"
    using h n(3,6) assms(3) k(1) by (simp add: sendRTpacket_def)
  have q: "tour_payload hs (Suc k) ?q" using assms(2) by (simp add: tour_payload_def)
  have "int32 (next_ip_idx ?q)" using assms(3) len by (simp add: int32_def)
  have "length (encode_payload junk ?q) = 592"
    using assms(2) by (simp add: encode_payload_def tour_payload_def TOTAL_VM_SIZE_def)
  then have b: "take IP_WHOLE_PACK_SIZE (?raw @ old) = ?raw @ take 1408 old" using lr by (simp add: IP_WHOLE_PACK_SIZE_def)
  have "take 4 (drop 12 (?raw @ take 1408 old)) = addr (hs ! k)" using n(4) assms(3) by (simp add: rt_header_def)
  moreover have "drop 20 (?raw @ take 1408 old) = take 572 (encode_payload junk ?q) @ take 1408 old" using lr by simp
  moreover obtain q where "decode_payload (take 572 (encode_payload junk ?q) @ take 1408 old) = Some q" "tour_payload hs (Suc k) q"
    using decode_truncated [OF q len _ \<open>int32 _\<close>, of "take 1408 old" junk] assms(4) by auto
  moreover have "addr_name cfg (addr (hs ! k)) \<noteq> None" using n(5) assms(3) by simp
  ultimately have "receiveRTpacket cfg old ?raw = Some q" unfolding receiveRTpacket_def Let_def b by auto
  with s \<open>tour_payload hs (Suc k) q\<close> show ?thesis by blast
qed

fun rt_sends :: "tour_effect list \<Rightarrow> (byte list \<times> byte list) list" where
  "rt_sends [] = []"
| "rt_sends (SendRT dst raw # fx) = (dst, raw) # rt_sends fx"
| "rt_sends (f # fx) = rt_sends fx"

definition sane :: "tour \<Rightarrow> bool" where
  "sane st \<longleftrightarrow> length (if_ping st) = PING_SIZE \<and> length (ping_counter_array st) = PING_SIZE"

text \<open>What a node does with the packet, whatever its state.\<close>

lemma tour_packet_forwards:
  assumes "tour_ok cfg addr hs" "receiveRTpacket cfg old raw = Some p" "tour_payload hs k p" "0 < k" "k < length hs" "sane st"
  shows "\<exists>st' fx. tour_packet cfg old junk raw st = Some (st', fx)
    \<and> (Suc k = length hs \<longrightarrow> rt_sends fx = [] \<and> if_last_node st' = 1)
    \<and> (Suc k < length hs \<longrightarrow> rt_sends fx = [the (sendRTpacket cfg junk p)])
    \<and> (\<exists>st1. note_previous (hs ! (k - 1)) st = Some st1
        \<and> st' = st1\<lparr>if_last_node := (if Suc k = length hs then 1 else if_last_node st1), ifVisit := (if ifVisit st = 0 then 1 else ifVisit st1)\<rparr>)"
proof -
  have len: "length hs \<le> 66" "length (hostArray p) = 70" "next_ip_idx p = int k"
    using assms(1,3) by (simp_all add: tour_ok_def tour_payload_def TOTAL_VM_SIZE_def)
  have k1: "k - 1 < length hs" using assms(5) by simp
  note n = tour_ok_nth [OF assms(1) k1]
  have h: "load_int (hostArray p) (int k - 1) = Some (hs ! (k - 1))"
    using tour_payload_nth [OF assms(3) k1] assms(4,5) len by (simp add: load_int_def load_def nat_diff_distrib)
  have np: "\<exists>st1. note_previous (hs ! (k - 1)) st = Some st1"
    using n(1,2) assms(6) by (simp add: note_previous_def load_int_def load_def sane_def PING_SIZE_def)
  then obtain st1 where np: "note_previous (hs ! (k - 1)) st = Some st1" by blast
  note l = tour_payload_last [OF assms(3) tour_ok_zero [OF assms(1)]]
  show ?thesis
  proof (cases "Suc k = length hs")
    case True
    then have "next_ip_idx p = last_index (hostArray p)" using l len(3) by simp
    then show ?thesis using assms(2) h np n(6) True len(3) by (simp add: tour_packet_def)
  next
    case False
    then have "Suc k < length hs" using assms(5) by simp
    then obtain raw' where "sendRTpacket cfg junk p = Some (addr (hs ! Suc k), raw')"
      using send_receive [OF assms(1,3), of "replicate 20 0"] by (metis length_replicate order_refl)
    moreover have "next_ip_idx p \<noteq> last_index (hostArray p)" using l len(3) False by simp
    ultimately show ?thesis using assms(2) h np n(6) False len(3) by (simp add: tour_packet_def)
  qed
qed

text \<open>
  The way of a packet: at each hop the node it is addressed to is in some state and its buffers hold some bytes;
  the addresses at which the packet arrives.
\<close>

fun tour_trace :: "tour_config \<Rightarrow> (nat \<Rightarrow> tour \<times> byte list \<times> memory) \<Rightarrow> nat \<Rightarrow> byte list \<times> byte list \<Rightarrow> byte list list option" where
  "tour_trace cfg env 0 s = None"
| "tour_trace cfg env (Suc fuel) (dst, raw) =
     (case env fuel of (st, old, junk) \<Rightarrow>
      (case tour_packet cfg old junk raw st of
         None \<Rightarrow> None
       | Some (st', fx) \<Rightarrow>
           (case rt_sends fx of [] \<Rightarrow> Some [dst] | s # _ \<Rightarrow> map_option (Cons dst) (tour_trace cfg env fuel s))))"

definition env_ok :: "(nat \<Rightarrow> tour \<times> byte list \<times> memory) \<Rightarrow> bool" where
  "env_ok env \<longleftrightarrow> (\<forall>i. sane (fst (env i)) \<and> 20 \<le> length (fst (snd (env i))))"

lemma tour_trace_from:
  assumes "tour_ok cfg addr hs" "env_ok env"
  shows "tour_payload hs k p \<Longrightarrow> Suc k < length hs \<Longrightarrow> length hs - Suc k \<le> fuel \<Longrightarrow>
    \<exists>raw. sendRTpacket cfg junk p = Some (addr (hs ! Suc k), raw)
      \<and> tour_trace cfg env fuel (addr (hs ! Suc k), raw) = Some (map addr (drop (Suc k) hs))"
proof (induction fuel arbitrary: k p junk)
  case (Suc fuel)
  obtain st old j where e: "env fuel = (st, old, j)" by (cases "env fuel")
  have ok: "sane st" "20 \<le> length old" using assms(2) e by (auto simp: env_ok_def dest: spec [of _ fuel])
  obtain raw q where s: "sendRTpacket cfg junk p = Some (addr (hs ! Suc k), raw)" and r: "receiveRTpacket cfg old raw = Some q"
    and q: "tour_payload hs (Suc k) q"
    using send_receive [OF assms(1) Suc.prems(1,2) ok(2)] by blast
  obtain st' fx where f: "tour_packet cfg old j raw st = Some (st', fx)"
    "Suc (Suc k) = length hs \<longrightarrow> rt_sends fx = []" "Suc (Suc k) < length hs \<longrightarrow> rt_sends fx = [the (sendRTpacket cfg j q)]"
    using tour_packet_forwards [OF assms(1) r q _ Suc.prems(2) ok(1)] by blast
  show ?case
  proof (cases "Suc (Suc k) = length hs")
    case True
    then have "drop (Suc k) hs = [hs ! Suc k]" using Suc.prems(2) by (metis Cons_nth_drop_Suc drop_all order_refl)
    then show ?thesis using s e f True by simp
  next
    case False
    then have lt: "Suc (Suc k) < length hs" using Suc.prems(2) by simp
    have "length hs - Suc (Suc k) \<le> fuel" using Suc.prems(3) by linarith
    from Suc.IH [OF q lt this, of j] obtain raw' where n: "sendRTpacket cfg j q = Some (addr (hs ! Suc (Suc k)), raw')"
      "tour_trace cfg env fuel (addr (hs ! Suc (Suc k)), raw') = Some (map addr (drop (Suc (Suc k)) hs))"
      by blast
    have "drop (Suc k) hs = hs ! Suc k # drop (Suc (Suc k)) hs" using Suc.prems(2) by (simp add: Cons_nth_drop_Suc)
    then show ?thesis using s e f(1,3) lt n by simp
  qed
qed simp

section \<open>The command line\<close>

lemma number_args_numbers:
  "\<forall>a \<in> set args. 2 \<le> length a \<and> hd a \<noteq> CHR ''0'' \<Longrightarrow> i + length args \<le> TOTAL_VM_SIZE \<Longrightarrow> args = [] \<or> hd args \<noteq> prev \<Longrightarrow>
    number_args i prev args = Numbers (map (\<lambda>a. atoi (zeroed a)) args)"
proof (induction args arbitrary: i prev)
  case (Cons a args)
  have "args = [] \<or> hd args \<noteq> zeroed a" using Cons.prems(1) by (cases args) (auto simp: zeroed_def)
  then have "number_args (Suc i) (zeroed a) args = Numbers (map (\<lambda>a. atoi (zeroed a)) args)"
    using Cons.IH [of "Suc i" "zeroed a"] Cons.prems(1,2) by simp
  moreover have "a \<noteq> prev" "2 \<le> length a" "i < TOTAL_VM_SIZE" using Cons.prems by auto
  ultimately show ?case by simp
qed simp

lemma zeroed_vm: "0 \<le> h \<Longrightarrow> h < 2 ^ 31 \<Longrightarrow> atoi (zeroed (vm_full h)) = h"
  using atoi_dec by (simp add: zeroed_def vm_full_def)

lemma start_numbers:
  assumes "hs = h # rest" "\<forall>h \<in> set hs. 0 \<le> h \<and> h < 2 ^ 31" "length hs \<le> TOTAL_VM_SIZE" "rest = [] \<or> argv0 \<noteq> vm_full (hd rest)"
  shows "hostNameToNumberArray (vm_full h) argv0 (map vm_full rest) = Expired (hs @ replicate (TOTAL_VM_SIZE - length hs) 0)"
proof -
  have "number_args 1 argv0 (map vm_full rest) = Numbers (map (\<lambda>a. atoi (zeroed a)) (map vm_full rest))"
    using assms(1,3,4) by (intro number_args_numbers) (auto simp: vm_full_def dec_def hd_map)
  also have "map (\<lambda>a. atoi (zeroed a)) (map vm_full rest) = rest"
    using assms(1,2) zeroed_vm by (simp add: map_idI)
  finally have n: "number_args 1 argv0 (map vm_full rest) = Numbers rest" .
  have "\<not> length (vm_full h) < 2" by (simp add: vm_full_def)
  then show ?thesis using assms zeroed_vm [of h] unfolding hostNameToNumberArray_def n by simp
qed

text \<open>The start of a tour puts its list into the first packet.\<close>

definition tour_list :: "int list \<Rightarrow> int list" where
  "tour_list hs = hs @ replicate (TOTAL_VM_SIZE - length hs) 0"

lemma tour_list_args:
  assumes "tour_ok cfg addr hs" and "localHost cfg = vm_full (hd hs)" and "argv0 \<noteq> vm_full (hs ! 1)"
  shows "hostNameToNumberArray (localHost cfg) argv0 (map vm_full (tl hs)) = Expired (tour_list hs)"
proof -
  have len: "2 \<le> length hs" "length hs \<le> 66" and hr: "\<forall>h \<in> set hs. 0 \<le> h \<and> h < 2 ^ 31"
    using assms(1) by (auto simp: tour_ok_def)
  then obtain h rest where hs: "hs = h # rest" by (cases hs) auto
  have a: "rest = [] \<or> argv0 \<noteq> vm_full (hd rest)" using assms(3) hs len by (cases rest) auto
  show ?thesis using start_numbers [OF hs hr _ a] assms(2) hs len by (simp add: TOTAL_VM_SIZE_def tour_list_def)
qed

lemma tour_starts:
  assumes "tour_ok cfg addr hs"
  shows "\<exists>p. tour_payload hs 0 p \<and> (\<forall>dst raw. sendRTpacket cfg junk p = Some (dst, raw) \<longrightarrow> tour_send cfg junk (tour_list hs)
      = Started (tour_init\<lparr>ifVisit := 1\<rparr>) [JoinGroup ''234.245.209.121'' ''9821'', SendRT dst raw])"
proof -
  let ?p = "\<lparr>next_ip_idx = 0, multi_port = ''9821'', multi_ip = ''234.245.209.121'', hostArray = tour_list hs\<rparr>"
  have len: "2 \<le> length hs" "length hs \<le> 66" and hr: "\<forall>h \<in> set hs. 0 \<le> h \<and> h < 2 ^ 31"
    using assms(1) by (auto simp: tour_ok_def)
  have "list_all word64 hs" using hr by (force simp: list_all_iff word64_def)
  moreover obtain m where "TOTAL_VM_SIZE - length hs = Suc m" using len by (cases "TOTAL_VM_SIZE - length hs") (auto simp: TOTAL_VM_SIZE_def)
  ultimately have p: "tour_payload hs 0 ?p"
    using len by (simp add: tour_payload_def tour_list_def nul_def TOTAL_VM_SIZE_def word64_def list_all_iff)
  show ?thesis by (rule exI [of _ ?p]) (simp add: p tour_send_def)
qed

section \<open>Properties\<close>

text \<open>
  C19 (the tour visits its nodes in order).  The command line of a tour over at most 66 nodes whose names are known gives the list of
  its nodes.  As the program is written, \<^verbatim>\<open>main\<close> reads this list through a pointer to an array that no longer exists, so that the start is
  undefined behaviour (\<open>StartFault\<close>).  From the list on: \<^verbatim>\<open>main\<close> sends the first packet, and whatever the states of the nodes and whatever
  their buffers and structures held before, the packet arrives
  at the other nodes in the order of the command line and stops at the last one.  Although the packet is
  sent twenty bytes too short, the list is intact at each node.
\<close>

theorem tour_visits_in_order:
  assumes "tour_ok cfg addr hs" and "localHost cfg = vm_full (hd hs)" and "argv0 \<noteq> vm_full (hs ! 1)" and "env_ok env"
    and "length hs \<le> fuel"
  shows "hostNameToNumberArray (localHost cfg) argv0 (map vm_full (tl hs)) = Expired (tour_list hs)
    \<and> tour_start cfg argv0 (map vm_full (tl hs)) = StartFault
    \<and> (\<exists>dst raw. tour_send cfg junk (tour_list hs)
          = Started (tour_init\<lparr>ifVisit := 1\<rparr>) [JoinGroup ''234.245.209.121'' ''9821'', SendRT dst raw]
        \<and> tour_trace cfg env fuel (dst, raw) = Some (map addr (tl hs)))"
proof -
  have len: "2 \<le> length hs" using assms(1) by (simp add: tour_ok_def)
  have n: "hostNameToNumberArray (localHost cfg) argv0 (map vm_full (tl hs)) = Expired (tour_list hs)"
    using tour_list_args [OF assms(1-3)] .
  obtain p where p: "tour_payload hs 0 p" and start: "\<And>dst raw. sendRTpacket cfg junk p = Some (dst, raw) \<Longrightarrow> tour_send cfg junk (tour_list hs)
      = Started (tour_init\<lparr>ifVisit := 1\<rparr>) [JoinGroup ''234.245.209.121'' ''9821'', SendRT dst raw]"
    using tour_starts [OF assms(1), of junk] by blast
  have "Suc 0 < length hs" "length hs - Suc 0 \<le> fuel" using len assms(5) by linarith+
  from tour_trace_from [OF assms(1,4) p this, of junk] obtain raw where "sendRTpacket cfg junk p = Some (addr (hs ! Suc 0), raw)"
    "tour_trace cfg env fuel (addr (hs ! Suc 0), raw) = Some (map addr (drop (Suc 0) hs))"
    by blast
  then show ?thesis using start n by (simp add: drop_Suc tour_start_def)
qed

definition lan_addr :: "string \<Rightarrow> byte list option" where
  "lan_addr name = (if take 2 name = ''vm'' then Some [130, 245, 156, word_of_int (20 + atoi (zeroed name))] else None)"

definition tour_vm1 :: tour_config where
  "tour_vm1 = \<lparr>vm_addr = lan_addr, addr_name = (\<lambda>a. Some (vm_full (uint (a ! 3) - 20))), localHost = ''vm1''\<rparr>"

theorem tour_visits_in_order_witness:
  "hostNameToNumberArray ''vm1'' ''tour_chechung'' [''vm2'', ''vm10'', ''vm2''] = Expired (tour_list [1, 2, 10, 2])
    \<and> (\<exists>dst raw. tour_send tour_vm1 (\<lambda>i. of_nat (i * i)) (tour_list [1, 2, 10, 2])
          = Started (tour_init\<lparr>ifVisit := 1\<rparr>) [JoinGroup ''234.245.209.121'' ''9821'', SendRT dst raw]
        \<and> tour_trace tour_vm1 (\<lambda>_. (tour_init, replicate 1408 9, \<lambda>i. of_nat i)) 4 (dst, raw)
          = Some [[130, 245, 156, 22], [130, 245, 156, 30], [130, 245, 156, 22]])"
proof -
  let ?addr = "\<lambda>h. [130, 245, 156, word_of_int (20 + h)] :: byte list"
  have v: "vm_full 1 = ''vm1''" "vm_full 2 = ''vm2''" "vm_full 10 = ''vm10''" by code_simp+
  have a: "lan_addr ''vm1'' = Some [130, 245, 156, 21]" "lan_addr ''vm2'' = Some [130, 245, 156, 22]" "lan_addr ''vm10'' = Some [130, 245, 156, 30]"
    by code_simp+
  have ok: "tour_ok tour_vm1 ?addr [1, 2, 10, 2]" by (simp add: tour_ok_def tour_vm1_def v a)
  have env: "env_ok (\<lambda>_. (tour_init, replicate 1408 9, \<lambda>i. of_nat i))" by (simp add: env_ok_def sane_def tour_init_def)
  show ?thesis
    using tour_visits_in_order [OF ok _ _ env, of "''tour_chechung''" 4 "\<lambda>i. of_nat (i * i)"] by (simp add: tour_vm1_def v)
qed

text \<open>No start with arguments is defined behaviour, except where the program exits.\<close>

lemma no_start_is_defined: "tour_start cfg argv0 args \<in> {StartExit, StartFault}"
  by (simp add: tour_start_def split: array_result.split)

text \<open>
  Repeated nodes are accepted.  The program means to reject a tour with the same node twice in a row, but the
  preceding argument has already been overwritten when it is compared: with names that do not begin with a
  zero the tour is always accepted.
\<close>

theorem repeated_nodes_accepted:
  assumes "\<forall>a \<in> set args. 2 \<le> length a \<and> hd a \<noteq> CHR ''0''" and "length args < TOTAL_VM_SIZE"
    and "args = [] \<or> hd args \<noteq> argv0" and "2 \<le> length hostname"
  shows "hostNameToNumberArray hostname argv0 args =
    Expired (atoi (zeroed hostname) # map (\<lambda>a. atoi (zeroed a)) args @ replicate (TOTAL_VM_SIZE - 1 - length args) 0)"
  using number_args_numbers [OF assms(1) _ assms(3), of 1] assms(2,4) by (simp add: hostNameToNumberArray_def)

theorem repeated_nodes_accepted_witness:
  "hostNameToNumberArray ''vm3'' ''tour'' [''vm2'', ''vm2''] = Expired (3 # 2 # 2 # replicate 67 0)"
proof -
  have "atoi (zeroed ''vm3'') = 3" "atoi (zeroed ''vm2'') = 2" by code_simp+
  then show ?thesis
    using repeated_nodes_accepted [of "[''vm2'', ''vm2'']" "''tour''" "''vm3''"] by (simp add: TOTAL_VM_SIZE_def)
qed

lemma message_chars: "char_at (end_message host) 6 = 84" "char_at (member_message host) 6 = 78"
proof -
  have "sint (byte_of CHR ''T'') = 84" "sint (byte_of CHR ''N'') = 78" by code_simp+
  then show "char_at (end_message host) 6 = 84" "char_at (member_message host) 6 = 78"
    by (simp_all add: char_at_def end_message_def member_message_def)
qed

end
