(* ===== verification/Dg_Send_Recv.thy ===== *)
theory Dg_Send_Recv
  imports Tour_Props
begin

text \<open>
  A request and its reply over UDP with retransmission (\<^verbatim>\<open>dg_send_recv.c\<close>, linked into the client of the file transfer).  The
  functions of the timer library, \<^verbatim>\<open>unprtt.h\<close>, are not in the repository: they are the record \<open>rtt_lib\<close>, over any type of
  timer states.  Header fields are in the byte order of the machine, little-endian here.  What happens while the
  function waits is a list of events with their times: an alarm, or a datagram.
\<close>

section \<open>The function\<close>

record 'r rtt_lib =
  lib_init :: "nat \<Rightarrow> 'r"
  lib_newpack :: "'r \<Rightarrow> 'r"
  lib_ts :: "'r \<Rightarrow> nat \<Rightarrow> 32 word"
  lib_start :: "'r \<Rightarrow> nat"
  lib_timeout :: "'r \<Rightarrow> 'r option"
  lib_stop :: "'r \<Rightarrow> 32 word \<Rightarrow> 'r"

text \<open>The static variables: the timer, \<open>None\<close> while \<^verbatim>\<open>rttinit\<close> is zero, and the sequence number of \<^verbatim>\<open>sendhdr\<close>.\<close>

record 'r dg_state =
  rttinfo :: "'r option"
  sent_seq :: "32 word"

definition hdr :: "32 word \<Rightarrow> 32 word \<Rightarrow> byte list" where
  "hdr seq ts = le_bytes 4 (uint seq) @ le_bytes 4 (uint ts)"

definition hdr_word :: "byte list \<Rightarrow> 32 word" where
  "hdr_word bs = word_of_int (le_val bs)"

datatype dg_event = Alrm | Datagram "byte list"

datatype 'r dg_result = Waits | GaveUp | Reply "byte list" 'r

text \<open>The steps at \<^verbatim>\<open>sendagain\<close>: the message that is sent and the seconds after which the alarm goes off.\<close>

definition dg_sendagain :: "'r rtt_lib \<Rightarrow> 32 word \<Rightarrow> byte list \<Rightarrow> 'r \<Rightarrow> nat \<Rightarrow> byte list \<times> nat" where
  "dg_sendagain lib seq out r now = (hdr seq (lib_ts lib r now) @ out, lib_start lib r)"

text \<open>
  The part from \<^verbatim>\<open>sigsetjmp\<close> on: the messages sent again, and the result.  \<^verbatim>\<open>Recvmsg\<close> delivers at most the header and \<open>inbytes\<close>
  bytes behind it.
\<close>

fun dg_wait :: "'r rtt_lib \<Rightarrow> 32 word \<Rightarrow> byte list \<Rightarrow> nat \<Rightarrow> 'r \<Rightarrow> (nat \<times> dg_event) list
    \<Rightarrow> (byte list \<times> nat) list \<times> 'r dg_result" where
  "dg_wait lib seq out inbytes r [] = ([], Waits)"
| "dg_wait lib seq out inbytes r ((now, Alrm) # es) =
     (case lib_timeout lib r of
        None \<Rightarrow> ([], GaveUp)
      | Some r' \<Rightarrow> (let (ms, res) = dg_wait lib seq out inbytes r' es in (dg_sendagain lib seq out r' now # ms, res)))"
| "dg_wait lib seq out inbytes r ((now, Datagram bs) # es) =
     (let bs = take (8 + inbytes) bs
      in if length bs < 8 \<or> hdr_word (take 4 bs) \<noteq> seq then dg_wait lib seq out inbytes r es
         else ([], Reply (drop 8 bs) (lib_stop lib r (lib_ts lib r now - hdr_word (take 4 (drop 4 bs))))))"

definition dg_send_recv :: "'r rtt_lib \<Rightarrow> nat \<Rightarrow> byte list \<Rightarrow> nat \<Rightarrow> (nat \<times> dg_event) list \<Rightarrow> 'r dg_state
    \<Rightarrow> (byte list \<times> nat) list \<times> 'r dg_result \<times> 'r dg_state" where
  "dg_send_recv lib now out inbytes es st =
     (let r0 = (case rttinfo st of None \<Rightarrow> lib_init lib now | Some r \<Rightarrow> r);
          seq = sent_seq st + 1;
          r = lib_newpack lib r0;
          (ms, res) = dg_wait lib seq out inbytes r es
      in (dg_sendagain lib seq out r now # ms, res,
          \<lparr>rttinfo = (case res of Reply _ r' \<Rightarrow> Some r' | GaveUp \<Rightarrow> None | Waits \<Rightarrow> Some r), sent_seq = seq\<rparr>))"

text \<open>The wrapper ends the program, \<open>Inl\<close>, when the request is given up; \<open>None\<close> while the call still waits.\<close>

definition Dg_send_recv :: "'r rtt_lib \<Rightarrow> nat \<Rightarrow> byte list \<Rightarrow> nat \<Rightarrow> (nat \<times> dg_event) list \<Rightarrow> 'r dg_state
    \<Rightarrow> (string + byte list \<times> 'r dg_state) option" where
  "Dg_send_recv lib now out inbytes es st =
     (case dg_send_recv lib now out inbytes es st of
        (ms, GaveUp, st') \<Rightarrow> Some (Inl ''dg_send_recv error'')
      | (ms, Reply bs r, st') \<Rightarrow> Some (Inr (bs, st'))
      | (ms, Waits, st') \<Rightarrow> None)"

text \<open>
  \<^verbatim>\<open>dg_cli2\<close> of \<^verbatim>\<open>udpcli.c\<close>: each line of the input is a request, and what comes back is printed up to its first zero.  A line comes with the
  time and the events of its call.
\<close>

datatype cli_end = Input_End | Waiting | Err_Quit string

fun dg_cli2 :: "'r rtt_lib \<Rightarrow> (nat \<times> byte list \<times> (nat \<times> dg_event) list) list \<Rightarrow> 'r dg_state \<Rightarrow> byte list list \<times> cli_end" where
  "dg_cli2 lib [] st = ([], Input_End)"
| "dg_cli2 lib ((now, sendline, es) # input) st =
     (case Dg_send_recv lib now (takeWhile (\<lambda>b. b \<noteq> 0) sendline) MAXLINE es st of
        None \<Rightarrow> ([], Waiting)
      | Some (Inl msg) \<Rightarrow> ([], Err_Quit msg)
      | Some (Inr (recvline, st')) \<Rightarrow>
          (let (out, e) = dg_cli2 lib input st' in (takeWhile (\<lambda>b. b \<noteq> 0) recvline # out, e)))"

section \<open>Facts\<close>

text \<open>What the library documents: after \<^verbatim>\<open>rtt_newpack\<close> the timer may run out \<open>n\<close> times, then \<^verbatim>\<open>rtt_timeout\<close> fails.\<close>

definition retries :: "'r rtt_lib \<Rightarrow> ('r \<Rightarrow> nat) \<Rightarrow> nat \<Rightarrow> bool" where
  "retries lib left n \<longleftrightarrow> (\<forall>r. left (lib_newpack lib r) = n)
     \<and> (\<forall>r. case lib_timeout lib r of None \<Rightarrow> left r = 0 | Some r' \<Rightarrow> left r = Suc (left r'))"

definition alarms :: "(nat \<times> dg_event) list \<Rightarrow> nat" where
  "alarms es = length (filter (\<lambda>e. snd e = Alrm) es)"

text \<open>A datagram that ends the wait.\<close>

definition answers_seq :: "32 word \<Rightarrow> dg_event \<Rightarrow> bool" where
  "answers_seq seq e = (case e of Alrm \<Rightarrow> False
     | Datagram bs \<Rightarrow> 8 \<le> length bs \<and> hdr_word (take 4 bs) = seq)"

lemma hdr_word_bytes: "hdr_word (le_bytes 4 (uint w)) = w"
proof -
  have "take_bit 32 (uint w) = uint w" using uint_bounded [of w] by (simp add: take_bit_int_eq_self_iff)
  then show ?thesis by (simp add: hdr_word_def le_val_bytes)
qed

lemma length_hdr [simp]: "length (hdr s t) = 8"
  by (simp add: hdr_def)

lemma hdr_fields: "hdr_word (take 4 (hdr s t)) = s" "hdr_word (take 4 (drop 4 (hdr s t))) = t"
  by (simp_all add: hdr_def hdr_word_bytes)

text \<open>Up to the first answer, with no more alarms than the timer allows, and with one more.\<close>

definition repeats :: "32 word \<Rightarrow> byte list \<Rightarrow> (byte list \<times> nat) list \<Rightarrow> bool" where
  "repeats seq out ms \<longleftrightarrow> (\<forall>m \<in> set ms. \<exists>t. fst m = hdr seq t @ out)"

lemma dg_wait_pre:
  assumes "retries lib left n" "\<forall>e \<in> set pre. \<not> answers_seq seq (snd e)"
  shows "alarms pre \<le> left r \<Longrightarrow> \<exists>ms r'. left r' + alarms pre = left r \<and> length ms = alarms pre \<and> repeats seq out ms
    \<and> (\<forall>es. dg_wait lib seq out inbytes r (pre @ es) = (ms @ fst (dg_wait lib seq out inbytes r' es), snd (dg_wait lib seq out inbytes r' es)))"
  using assms(2)
proof (induction pre arbitrary: r)
  case Nil
  then show ?case by (intro exI [of _ "[]"] exI [of _ r]) (simp add: alarms_def repeats_def)
next
  case (Cons e pre)
  obtain now ev where e: "e = (now, ev)" by force
  show ?case
  proof (cases ev)
    case Alrm
    then have "left r \<noteq> 0" using Cons.prems(1) e by (simp add: alarms_def)
    then obtain r1 where r1: "lib_timeout lib r = Some r1" "left r = Suc (left r1)"
      using assms(1) by (auto simp: retries_def split: option.splits dest!: spec [of _ r])
    then have "alarms pre \<le> left r1" using Cons.prems(1) e Alrm by (simp add: alarms_def)
    from Cons.IH [OF this] Cons.prems(2) obtain ms r' where m: "left r' + alarms pre = left r1" "length ms = alarms pre" "repeats seq out ms"
      "\<forall>es. dg_wait lib seq out inbytes r1 (pre @ es) = (ms @ fst (dg_wait lib seq out inbytes r' es), snd (dg_wait lib seq out inbytes r' es))"
      by auto
    let ?m = "dg_sendagain lib seq out r1 now"
    have "repeats seq out (?m # ms)" using m(3) by (auto simp: repeats_def dg_sendagain_def)
    then show ?thesis using m r1 e Alrm by (intro exI [of _ "?m # ms"] exI [of _ r']) (simp add: alarms_def)
  next
    case (Datagram bs)
    then have "\<not> (8 \<le> length bs \<and> hdr_word (take 4 bs) = seq)" using Cons.prems(2) e by (auto simp: answers_seq_def)
    then have "dg_wait lib seq out inbytes r ((e # pre) @ es) = dg_wait lib seq out inbytes r (pre @ es)" for es
      using e Datagram by (auto simp: Let_def min_def)
    moreover have "alarms (e # pre) = alarms pre" using e Datagram by (simp add: alarms_def)
    ultimately show ?thesis using Cons by auto
  qed
qed

lemma answered_or_given_up:
  assumes "retries lib left n" "seq = sent_seq st + 1" "\<forall>e \<in> set pre. \<not> answers_seq seq (snd e)"
  shows "(alarms pre \<le> n \<and> answers_seq seq (Datagram bs) \<longrightarrow>
      (\<exists>ms r st'. dg_send_recv lib now out inbytes (pre @ (t, Datagram bs) # post) st = (ms, Reply (take inbytes (drop 8 bs)) r, st')
        \<and> Dg_send_recv lib now out inbytes (pre @ (t, Datagram bs) # post) st = Some (Inr (take inbytes (drop 8 bs), st'))
        \<and> length ms = Suc (alarms pre) \<and> repeats seq out ms \<and> st' = \<lparr>rttinfo = Some r, sent_seq = seq\<rparr>))
    \<and> (alarms pre = n \<longrightarrow>
      (\<exists>ms. dg_send_recv lib now out inbytes (pre @ (t, Alrm) # post) st = (ms, GaveUp, \<lparr>rttinfo = None, sent_seq = seq\<rparr>)
        \<and> Dg_send_recv lib now out inbytes (pre @ (t, Alrm) # post) st = Some (Inl ''dg_send_recv error'')
        \<and> length ms = Suc n \<and> repeats seq out ms))
    \<and> \<not> answers_seq seq (Datagram (hdr (sent_seq st) ts @ x))"
proof -
  define r where "r = lib_newpack lib (case rttinfo st of None \<Rightarrow> lib_init lib now | Some r \<Rightarrow> r)"
  have l: "left r = n" using assms(1) by (simp add: retries_def r_def)
  let ?first = "dg_sendagain lib seq out r now"
  have call: "dg_send_recv lib now out inbytes es st = (let (ms, res) = dg_wait lib seq out inbytes r es
      in (?first # ms, res, \<lparr>rttinfo = (case res of Reply _ r' \<Rightarrow> Some r' | GaveUp \<Rightarrow> None | Waits \<Rightarrow> Some r), sent_seq = seq\<rparr>))" for es
    using assms(2) unfolding dg_send_recv_def r_def Let_def by simp
  have f: "repeats seq out (?first # ms)" if "repeats seq out ms" for ms using that by (auto simp: repeats_def dg_sendagain_def)
  note pre = dg_wait_pre [OF assms(1,3), of r out inbytes, unfolded l]
  show ?thesis
  proof (intro conjI impI; (elim conjE)?)
    assume a: "alarms pre \<le> n" "answers_seq seq (Datagram bs)"
    obtain ms r' where m: "length ms = alarms pre" "repeats seq out ms"
      "\<forall>es. dg_wait lib seq out inbytes r (pre @ es) = (ms @ fst (dg_wait lib seq out inbytes r' es), snd (dg_wait lib seq out inbytes r' es))"
      using pre [OF a(1)] by blast
    have "\<exists>r''. dg_wait lib seq out inbytes r' ((t, Datagram bs) # post) = ([], Reply (take inbytes (drop 8 bs)) r'')"
      using a(2) by (auto simp: answers_seq_def Let_def min_def drop_take)
    then show "\<exists>ms r st'. dg_send_recv lib now out inbytes (pre @ (t, Datagram bs) # post) st = (ms, Reply (take inbytes (drop 8 bs)) r, st')
        \<and> Dg_send_recv lib now out inbytes (pre @ (t, Datagram bs) # post) st = Some (Inr (take inbytes (drop 8 bs), st'))
        \<and> length ms = Suc (alarms pre) \<and> repeats seq out ms \<and> st' = \<lparr>rttinfo = Some r, sent_seq = seq\<rparr>"
      using m f [OF m(2)] by (auto simp: call Dg_send_recv_def simp del: dg_wait.simps)
  next
    assume a: "alarms pre = n"
    obtain ms r' where m: "left r' + alarms pre = n" "length ms = alarms pre" "repeats seq out ms"
      "\<forall>es. dg_wait lib seq out inbytes r (pre @ es) = (ms @ fst (dg_wait lib seq out inbytes r' es), snd (dg_wait lib seq out inbytes r' es))"
      using pre a by blast
    have "case lib_timeout lib r' of None \<Rightarrow> left r' = 0 | Some r'' \<Rightarrow> left r' = Suc (left r'')"
      using assms(1) by (simp add: retries_def)
    then have "lib_timeout lib r' = None" using m(1) a by (cases "lib_timeout lib r'") auto
    then show "\<exists>ms. dg_send_recv lib now out inbytes (pre @ (t, Alrm) # post) st = (ms, GaveUp, \<lparr>rttinfo = None, sent_seq = seq\<rparr>)
        \<and> Dg_send_recv lib now out inbytes (pre @ (t, Alrm) # post) st = Some (Inl ''dg_send_recv error'')
        \<and> length ms = Suc n \<and> repeats seq out ms"
      using m f [OF m(3)] a by (simp add: call Dg_send_recv_def)
  next
    show "\<not> answers_seq seq (Datagram (hdr (sent_seq st) ts @ x))" using assms(2) by (simp add: answers_seq_def hdr_fields)
  qed
qed

text \<open>
  A dialogue: each request is answered in time, after alarms and datagrams that are no answer to it.  The lines printed are the
  texts of the answers, in order.
\<close>

fun dialogue :: "nat \<Rightarrow> 32 word \<Rightarrow> (nat \<times> byte list \<times> (nat \<times> dg_event) list) list \<Rightarrow> byte list list \<Rightarrow> bool" where
  "dialogue n seq [] ts = (ts = [])"
| "dialogue n seq ((now, line, es) # input) ts =
     (\<exists>pre t stamp body post ts'. es = pre @ (t, Datagram (hdr (seq + 1) stamp @ body)) # post \<and> alarms pre \<le> n
       \<and> (\<forall>e \<in> set pre. \<not> answers_seq (seq + 1) (snd e)) \<and> length body \<le> MAXLINE \<and> 0 \<notin> set body \<and> ts = body # ts'
       \<and> dialogue n (seq + 1) input ts')"

theorem dg_cli2_prints:
  assumes "retries lib left n"
  shows "dialogue n (sent_seq st) input ts \<Longrightarrow> dg_cli2 lib input st = (ts, Input_End)"
proof (induction input arbitrary: st ts)
  case (Cons x input)
  obtain now line es where x: "x = (now, line, es)" by (cases x)
  let ?seq = "sent_seq st + 1"
  obtain pre t stamp body post ts' where d: "es = pre @ (t, Datagram (hdr ?seq stamp @ body)) # post" "alarms pre \<le> n"
    "\<forall>e \<in> set pre. \<not> answers_seq ?seq (snd e)" "length body \<le> MAXLINE" "0 \<notin> set body" "ts = body # ts'" "dialogue n ?seq input ts'"
    using Cons.prems x by auto
  have a: "answers_seq ?seq (Datagram (hdr ?seq stamp @ body))" by (simp add: answers_seq_def hdr_fields)
  obtain st' where st': "Dg_send_recv lib now (takeWhile (\<lambda>b. b \<noteq> 0) line) MAXLINE es st = Some (Inr (body, st'))" "sent_seq st' = ?seq"
    using answered_or_given_up [OF assms refl d(3), THEN conjunct1,
        of "hdr ?seq stamp @ body" now "takeWhile (\<lambda>b. b \<noteq> 0) line" MAXLINE t post] a d(1,2,4) by auto
  have "takeWhile (\<lambda>b. b \<noteq> 0) body = body" using d(5) by (auto simp: takeWhile_eq_all_conv)
  then show ?case using Cons.IH [of st' ts'] st' d(6,7) x by simp
qed simp

section \<open>Property\<close>

text \<open>
  C37 (a request is answered or given up).  If the library allows \<open>n\<close> repetitions and the reply comes after at most \<open>n\<close> alarms, whatever
  other datagrams come before it, the call returns what stands behind the header of the reply, cut to the caller's
  buffer, and has sent the request once and once more for each alarm, always with the same sequence number; late
  replies to the preceding request are not taken for it.  With one alarm more the call gives up after \<open>n + 1\<close> messages,
  the next call would start with a new timer, and the wrapper ends the program.
\<close>

theorem request_answered_or_given_up:
  assumes "retries lib left n" "seq = sent_seq st + 1" "\<forall>e \<in> set pre. \<not> answers_seq seq (snd e)"
  shows "(alarms pre \<le> n \<and> answers_seq seq (Datagram bs) \<longrightarrow>
      (\<exists>ms r st'. dg_send_recv lib now out inbytes (pre @ (t, Datagram bs) # post) st = (ms, Reply (take inbytes (drop 8 bs)) r, st')
        \<and> Dg_send_recv lib now out inbytes (pre @ (t, Datagram bs) # post) st = Some (Inr (take inbytes (drop 8 bs), st'))
        \<and> length ms = Suc (alarms pre) \<and> repeats seq out ms \<and> st' = \<lparr>rttinfo = Some r, sent_seq = seq\<rparr>))
    \<and> (alarms pre = n \<longrightarrow>
      (\<exists>ms. dg_send_recv lib now out inbytes (pre @ (t, Alrm) # post) st = (ms, GaveUp, \<lparr>rttinfo = None, sent_seq = seq\<rparr>)
        \<and> Dg_send_recv lib now out inbytes (pre @ (t, Alrm) # post) st = Some (Inl ''dg_send_recv error'')
        \<and> length ms = Suc n \<and> repeats seq out ms))
    \<and> \<not> answers_seq seq (Datagram (hdr (sent_seq st) ts @ x))"
  by (rule answered_or_given_up [OF assms])

text \<open>A library that counts up to three repetitions.\<close>

definition three_times :: "nat rtt_lib" where
  "three_times = \<lparr>lib_init = (\<lambda>now. 0), lib_newpack = (\<lambda>r. 0), lib_ts = (\<lambda>r now. of_nat now), lib_start = (\<lambda>r. 2 ^ r),
     lib_timeout = (\<lambda>r. if r < 3 then Some (Suc r) else None), lib_stop = (\<lambda>r d. r)\<rparr>"

theorem request_answered_or_given_up_witness:
  "(\<exists>ms r st'. dg_send_recv three_times 5 [1, 2] 10 [(6, Alrm), (7, Datagram (hdr 41 0 @ [9])), (8, Datagram (hdr 42 6 @ [3, 4]))]
      \<lparr>rttinfo = None, sent_seq = 41\<rparr> = (ms, Reply [3, 4] r, st') \<and> length ms = 2)
   \<and> (\<exists>ms. dg_send_recv three_times 5 [1, 2] 10 [(6, Alrm), (9, Alrm), (15, Alrm), (27, Alrm)] \<lparr>rttinfo = None, sent_seq = 41\<rparr>
      = (ms, GaveUp, \<lparr>rttinfo = None, sent_seq = 42\<rparr>) \<and> length ms = 4)"
proof -
  let ?st = "\<lparr>rttinfo = None, sent_seq = 41\<rparr> :: nat dg_state"
  have r: "retries three_times (\<lambda>r. 3 - r) 3" "42 = sent_seq ?st + 1" by (auto simp: retries_def three_times_def)
  have a: "answers_seq 42 (Datagram (hdr 42 6 @ [3, 4]))" "\<not> answers_seq 42 (Datagram (hdr 41 0 @ [9]))" "\<not> answers_seq 42 Alrm"
    by (simp_all add: answers_seq_def hdr_fields)
  have p: "\<forall>e \<in> set [(6, Alrm), (7, Datagram (hdr 41 0 @ [9]))]. \<not> answers_seq 42 (snd e)"
    "\<forall>e \<in> set [(6, Alrm), (9, Alrm), (15, Alrm)]. \<not> answers_seq 42 (snd e)" using a by auto
  note w = request_answered_or_given_up [OF r p(1), of "hdr 42 6 @ [3, 4]" 5 "[1, 2]" 10 8 "[]" 0 "[]"]
    request_answered_or_given_up [OF r p(2), of "[]" 5 "[1, 2]" 10 27 "[]" 0 "[]"]
  show ?thesis
    using w(1) [THEN conjunct1] w(2) [THEN conjunct2, THEN conjunct1] a(1)
    by (fastforce simp: alarms_def)
qed

end
