(* ===== verification/Hello_Demo.thy ===== *)
theory Hello_Demo
  imports Arp
begin

text \<open>
  The example programs beside the file transfer, \<^verbatim>\<open>client.c\<close> and \<^verbatim>\<open>server.c\<close>: the client greets the server, a child process of the server
  answers from a socket of its own, and the client sends ten numbered messages to that socket.  The calls on sockets
  succeed; the kernel takes datagrams for the address \<open>0.0.0.0\<close> to the host itself.
\<close>

record sockaddr =
  sin_addr :: "byte list"
  sin_port :: int

section \<open>Client\<close>

text \<open>
  \<^verbatim>\<open>inet_ntop\<close> where \<^verbatim>\<open>inet_pton\<close> was meant: the address of the server is still zero, and its text is written over the argument.  The
  size passed is that of a pointer, eight; \<open>arg\<close> is the memory of the argument with its terminating zero.
\<close>

definition demo_server_addr :: "string \<Rightarrow> sockaddr \<times> string" where
  "demo_server_addr arg =
     (let servaddr = \<lparr>sin_addr = [0, 0, 0, 0], sin_port = 5000\<rparr>; text = ip_ntop (sin_addr servaddr)
      in (servaddr, if length text < 8 then text @ nul # drop (Suc (length text)) arg else arg))"

text \<open>What the client sends, as far as it gets: the greeting, and the numbered messages when an answer has come.\<close>

definition demo_client :: "string \<Rightarrow> (sockaddr \<times> string) option \<Rightarrow> (sockaddr \<times> string) list" where
  "demo_client arg answer =
     (fst (demo_server_addr arg), ''hello'') #
     (case answer of None \<Rightarrow> [] | Some (fromaddr, bytes) \<Rightarrow> map (\<lambda>i. (fromaddr, ''shit '' @ dec (int i))) [0..<10])"

section \<open>Server\<close>

text \<open>A datagram read into an array of 100 zeros and printed as a string; \<open>None\<close> when no zero is left behind it.\<close>

definition demo_shown :: "string \<Rightarrow> string option" where
  "demo_shown bytes = (let buf = take 100 bytes in if length buf < 100 \<or> nul \<in> set buf then Some (cstr buf) else None)"

text \<open>The parent: each datagram is printed and starts a child that knows its sender.\<close>

fun demo_parent :: "(sockaddr \<times> string) list \<Rightarrow> (string list \<times> sockaddr list) option" where
  "demo_parent [] = Some ([], [])"
| "demo_parent ((fromaddr, bytes) # rest) =
     (case (demo_shown bytes, demo_parent rest) of
        (Some t, Some (ts, cs)) \<Rightarrow> Some (t # ts, fromaddr # cs)
      | _ \<Rightarrow> None)"

text \<open>The child: its answer, and what it prints of the datagrams it gets.\<close>

fun demo_prints :: "(sockaddr \<times> string) list \<Rightarrow> string list option" where
  "demo_prints [] = Some []"
| "demo_prints ((fromaddr, bytes) # rest) =
     (case (demo_shown bytes, demo_prints rest) of (Some t, Some ts) \<Rightarrow> Some (t # ts) | _ \<Rightarrow> None)"

definition demo_child :: "sockaddr \<Rightarrow> (sockaddr \<times> string) list \<Rightarrow> (sockaddr \<times> string) \<times> string list option" where
  "demo_child fromaddr datagrams = ((fromaddr, ''world''), demo_prints datagrams)"

section \<open>The programs together\<close>

lemma demo_shown_plain: "nul \<notin> set t \<Longrightarrow> length t < 100 \<Longrightarrow> demo_shown t = Some t"
  by (auto simp: demo_shown_def cstr_def takeWhile_eq_all_conv)

lemma demo_prints_plain:
  "\<forall>d \<in> set ds. nul \<notin> set (snd d) \<and> length (snd d) < 100 \<Longrightarrow> demo_prints ds = Some (map snd ds)"
  by (induction ds rule: demo_prints.induct) (simp_all add: demo_shown_plain)

text \<open>
  The argument of the client has no influence on where it sends; with the server on the same host the exchange runs to its end, and the
  child prints the ten messages in order.
\<close>

theorem demo_exchange:
  fixes own :: sockaddr and child :: sockaddr
  assumes "client_out = demo_client arg (Some (child, ''world''))"
  shows "hd client_out = (\<lparr>sin_addr = [0, 0, 0, 0], sin_port = 5000\<rparr>, ''hello'')
    \<and> demo_parent [(own, snd (hd client_out))] = Some ([''hello''], [own])
    \<and> map fst (tl client_out) = replicate 10 child
    \<and> demo_child own (map (Pair own) (map snd (tl client_out))) = ((own, ''world''), Some (map (\<lambda>i. ''shit '' @ dec (int i)) [0..<10]))"
proof -
  have d: "nul \<notin> set (''shit '' @ dec (int i)) \<and> length (''shit '' @ dec (int i)) < 100" if "i < 10" for i
    using nul_not_dec [of "int i"] dec_nat_length [of i 1] that by (simp add: dec_def nul_def)
  have h: "demo_shown ''hello'' = Some ''hello''" by (simp add: demo_shown_plain nul_def)
  have "demo_prints (map (Pair own) (map (\<lambda>i. ''shit '' @ dec (int i)) [0..<10])) = Some (map (\<lambda>i. ''shit '' @ dec (int i)) [0..<10])"
    by (subst demo_prints_plain) (use d in \<open>auto simp: comp_def\<close>)
  then show ?thesis using h
    by (simp add: assms demo_client_def demo_server_addr_def demo_child_def Let_def comp_def map_replicate_const del: upt_Suc upt_rec_numeral)
qed

end
