(* ===== verification/Get_Hw_Addrs.thy ===== *)
theory Get_Hw_Addrs
  imports Ifi_Info
begin

text \<open>
  The list of interfaces of the daemons (\<^verbatim>\<open>get_hw_addrs.c\<close>, the same file in both directories): the loop that asks the
  kernel is that of the file transfer programs, the walk indexes the array of structures.  The bytes of a name are turned
  into text, and the address is the text that \<^verbatim>\<open>Sock_ntop_host\<close> makes of it, the only use the daemons have for it.
\<close>

record hwa_entry = hwa_info +
  ip_alias :: bool

definition name_text :: "byte list \<Rightarrow> string" where
  "name_text name = map char_of_byte (c_name name)"

text \<open>\<^verbatim>\<open>strchr\<close> finds a colon before the end of the name; it is overwritten with a zero.\<close>

definition cut_colon :: "byte list \<Rightarrow> byte list" where
  "cut_colon name = (case find_index (\<lambda>b. b = 58 \<or> b = 0) name of
     Some i \<Rightarrow> if name ! i = 58 then name[i := 0] else name
   | None \<Rightarrow> name)"

text \<open>
  A failing call is only reported: the union of the structure then keeps its bytes, the address of the entry.
\<close>

definition le_int :: "byte list \<Rightarrow> int" where
  "le_int bs = sint (ucast (bs ! 0) OR push_bit 8 (ucast (bs ! 1)) OR push_bit 16 (ucast (bs ! 2)) OR push_bit 24 (ucast (bs ! 3)) :: 32 word)"

definition hwa_of :: "kernel \<Rightarrow> byte list \<Rightarrow> byte list \<Rightarrow> hwa_entry" where
  "hwa_of k lastname item =
     (let name = cut_colon (take 16 item);
          ifru = (case SIOCGIFHWADDR k name of Some sa \<Rightarrow> sa | None \<Rightarrow> take 16 (drop 16 item))
      in \<lparr>if_name = name_text (take 15 (take 16 item)), if_haddr = take 6 (drop 2 ifru),
          hwa_index = (case SIOCGIFINDEX k name of Some i \<Rightarrow> i | None \<Rightarrow> le_int ifru),
          ip_addr = sock_ntop_host (take 16 (drop 16 item)), ip_alias = (c_name lastname = c_name name)\<rparr>)"

fun hwa_walk :: "kernel \<Rightarrow> nat \<Rightarrow> byte list \<Rightarrow> nat \<Rightarrow> byte list \<Rightarrow> hwa_entry list" where
  "hwa_walk k sz lastname 0 buf = []"
| "hwa_walk k sz lastname (Suc n) buf =
     hwa_of k lastname (take sz buf) # hwa_walk k sz (cut_colon (take 16 buf)) n (drop sz buf)"

datatype hwa_out = HwListed "hwa_entry list" | HwStopped

definition Get_hw_addrs :: "kernel \<Rightarrow> nat \<Rightarrow> hwa_out option" where
  "Get_hw_addrs k sz =
     do {
       r \<leftarrow> ifconf_loop k sz 0 0 (100 * sz);
       Some (case r of
               ConfExit \<Rightarrow> HwStopped
             | Conf bs \<Rightarrow> (case hwa_walk k sz [0] (length bs div sz) bs of [] \<Rightarrow> HwStopped | hwas \<Rightarrow> HwListed hwas))
     }"

section \<open>The list\<close>

text \<open>The entry of an interface, after one whose (cut) name is \<open>prev\<close>, when the kernel answers.\<close>

definition hw_ok :: "kernel \<Rightarrow> (byte list \<times> byte list) list \<Rightarrow> bool" where
  "hw_ok k es \<longleftrightarrow> list_all (\<lambda>(name, ip). length name = 16 \<and> length ip = 4
     \<and> SIOCGIFHWADDR k (cut_colon name) \<noteq> None \<and> SIOCGIFINDEX k (cut_colon name) \<noteq> None) es"

definition listed :: "kernel \<Rightarrow> byte list \<Rightarrow> byte list \<times> byte list \<Rightarrow> hwa_entry" where
  "listed k prev e = \<lparr>if_name = name_text (take 15 (fst e)), if_haddr = take 6 (drop 2 (the (SIOCGIFHWADDR k (cut_colon (fst e))))),
     hwa_index = the (SIOCGIFINDEX k (cut_colon (fst e))), ip_addr = ip_ntop (snd e), ip_alias = (c_name prev = c_name (cut_colon (fst e)))\<rparr>"

fun listing :: "kernel \<Rightarrow> byte list \<Rightarrow> (byte list \<times> byte list) list \<Rightarrow> hwa_entry list" where
  "listing k prev [] = []"
| "listing k prev (e # es) = listed k prev e # listing k (cut_colon (fst e)) es"

lemma hwa_of_ifreq: "hw_ok k (e # es) \<Longrightarrow> hwa_of k prev (ifreq sz e) = listed k prev e"
proof -
  assume a: "hw_ok k (e # es)"
  obtain name ip where e: "e = (name, ip)" by force
  then have l: "length name = 16" "length ip = 4" using a by (auto simp: hw_ok_def)
  then have "take 16 (ifreq sz e) = name" "take 16 (drop 16 (ifreq sz e)) = [2, 0, 0, 0] @ ip @ replicate 8 0"
    using e by (auto simp: ifreq_def)
  moreover obtain sa i where "SIOCGIFHWADDR k (cut_colon name) = Some sa" "SIOCGIFINDEX k (cut_colon name) = Some i"
    using a e by (auto simp: hw_ok_def)
  ultimately show ?thesis using e l by (simp add: hwa_of_def listed_def Let_def sock_ntop_host_def)
qed

lemma hwa_walk_listing:
  "hw_ok k es \<Longrightarrow> 32 \<le> sz \<Longrightarrow> hwa_walk k sz prev (length es) (concat (map (ifreq sz) es)) = listing k prev es"
proof (induction es arbitrary: prev)
  case (Cons e es)
  have l: "length (fst e) = 16" "length (snd e) = 4" "hw_ok k es" using Cons.prems(1) by (auto simp: hw_ok_def)
  then have "take sz (ifreq sz e @ r) = ifreq sz e" "drop sz (ifreq sz e @ r) = r" for r using Cons.prems(2) by simp_all
  moreover have "take 16 (ifreq sz e @ r) = fst e" for r using l by (simp add: ifreq_def)
  ultimately show ?case using Cons.IH [OF l(3) Cons.prems(2)] hwa_of_ifreq [OF Cons.prems(1)] by simp
qed simp

text \<open>The resolution daemon takes \<^verbatim>\<open>eth0\<close> from the list.\<close>

lemma arp_without_eth0: "\<forall>h \<in> set hs. if_name h \<noteq> ''eth0'' \<Longrightarrow> Arp.getAllMacAddress hs arr = arr"
  by (induction hs arbitrary: arr) auto

lemma arp_eth0:
  assumes "\<forall>h \<in> set (xs @ ys). if_name h \<noteq> ''eth0''" "if_name h = ''eth0''"
  shows "Arp.getAllMacAddress (xs @ h # ys) Arp.no_interfaces
    = \<lparr>i_macAddr = if_haddr h, i_ipAddr = ip_addr h, i_interfaceNum = hwa_index h\<rparr> # tl Arp.no_interfaces"
proof -
  have "Arp.getAllMacAddress (xs @ hs) arr = Arp.getAllMacAddress hs arr" for hs arr
    using assms(1) by (induction xs) auto
  moreover have "find_index (\<lambda>i. i_interfaceNum i = -1) Arp.no_interfaces = Some 0"
    by (simp add: Arp.no_interfaces_def INTERFACE_SIZE_def numeral_eq_Suc)
  ultimately show ?thesis
    using assms arp_without_eth0 [of ys] by (simp add: Arp.no_interfaces_def INTERFACE_SIZE_def numeral_eq_Suc)
qed

lemma listing_append:
  "\<exists>p. listing k prev (xs @ e # ys) = listing k prev xs @ listed k p e # listing k (cut_colon (fst e)) ys"
  by (induction xs arbitrary: prev) auto

lemma listing_names: "h \<in> set (listing k prev es) \<Longrightarrow> \<exists>e \<in> set es. if_name h = name_text (take 15 (fst e))"
  by (induction es arbitrary: prev) (auto simp: listed_def)

lemma truncate_fields [simp]:
  "if_name (hwa_info.truncate h) = if_name h" "if_haddr (hwa_info.truncate h) = if_haddr h"
  "hwa_index (hwa_info.truncate h) = hwa_index h" "ip_addr (hwa_info.truncate h) = ip_addr h"
  by (simp_all add: hwa_info.truncate_def)

text \<open>
  C28 (the daemons see every interface): whatever the length of a kernel entry and the number of interfaces, the list has one
  entry per interface, in order, with its name, hardware address, index and printed address, marked as an alias exactly
  when its name up to a colon is that of the entry before it; and out of this list the resolution daemon takes the
  hardware address, the address and the index of \<^verbatim>\<open>eth0\<close>.
\<close>

theorem hw_addrs_listed:
  assumes "answers k sz es" "32 \<le> sz" "hw_ok k es" "es = xs @ e # ys" "name_text (take 15 (fst e)) = ''eth0''"
    and "\<forall>x \<in> set (xs @ ys). name_text (take 15 (fst x)) \<noteq> ''eth0''"
  shows "Get_hw_addrs k sz = Some (HwListed (listing k [0] es))
    \<and> Arp.getAllMacAddress (map hwa_info.truncate (listing k [0] es)) Arp.no_interfaces
      = \<lparr>i_macAddr = take 6 (drop 2 (the (SIOCGIFHWADDR k (cut_colon (fst e))))), i_ipAddr = ip_ntop (snd e),
         i_interfaceNum = the (SIOCGIFINDEX k (cut_colon (fst e)))\<rparr> # tl Arp.no_interfaces"
proof -
  have l: "\<forall>e \<in> set es. length (fst e) = 16 \<and> length (snd e) = 4" using assms(3) by (auto simp: hw_ok_def list_all_iff)
  have d: "length (concat (map (ifreq sz) es)) div sz = length es"
    using length_ifreqs [OF l assms(2)] assms(2) by (simp del: length_concat)
  have n: "listing k [0] es \<noteq> []" using assms(4) by (cases xs) auto
  have "Get_hw_addrs k sz = Some (HwListed (listing k [0] es))"
    using ifconf_loop_all [OF assms(1) l assms(2)] hwa_walk_listing [OF assms(3,2), of "[0]"] d n
    by (simp add: Get_hw_addrs_def del: length_concat split: list.split)
  moreover obtain p where a: "listing k [0] es = listing k [0] xs @ listed k p e # listing k (cut_colon (fst e)) ys"
    using listing_append [of k "[0]" xs e ys] assms(4) by auto
  have "if_name h \<noteq> ''eth0''" if "h \<in> set (listing k prev zs)" "set zs \<subseteq> set (xs @ ys)" for h prev zs
    using listing_names [OF that(1)] that(2) assms(6) by fastforce
  then have "Arp.getAllMacAddress (map hwa_info.truncate (listing k [0] es)) Arp.no_interfaces
      = \<lparr>i_macAddr = if_haddr (listed k p e), i_ipAddr = ip_addr (listed k p e), i_interfaceNum = hwa_index (listed k p e)\<rparr> # tl Arp.no_interfaces"
    unfolding a map_append list.map using assms(5) by (subst arp_eth0) (auto simp: listed_def)
  ultimately show ?thesis by (simp add: listed_def)
qed

theorem hw_addrs_listed_witness:
  "Get_hw_addrs (example_kernel 40) 40 = Some (HwListed (listing (example_kernel 40) [0] lo_eth0))
   \<and> Arp.getAllMacAddress (map hwa_info.truncate (listing (example_kernel 40) [0] lo_eth0)) Arp.no_interfaces
     = \<lparr>i_macAddr = [0, 12, 41, 217, 8, 236], i_ipAddr = ''130.245.1.20'', i_interfaceNum = 2\<rparr> # tl Arp.no_interfaces"
proof -
  let ?k = "example_kernel 40" and ?e = "lo_eth0 ! 1"
  have "hw_ok ?k lo_eth0" "lo_eth0 = [hd lo_eth0] @ ?e # []" "name_text (take 15 (fst ?e)) = ''eth0''"
    "name_text (take 15 (fst (hd lo_eth0))) \<noteq> ''eth0''" by code_simp+
  moreover have "take 6 (drop 2 (the (SIOCGIFHWADDR ?k (cut_colon (fst ?e))))) = [0, 12, 41, 217, 8, 236]"
    "ip_ntop (snd ?e) = ''130.245.1.20''" "the (SIOCGIFINDEX ?k (cut_colon (fst ?e))) = 2" by code_simp+
  ultimately show ?thesis
    using hw_addrs_listed [OF example_answers, of "40" "[hd lo_eth0]" ?e "[]"] by simp
qed

end
