(* ===== verification/Odr_Packet.thy ===== *)
theory Odr_Packet
  imports Wire Hw_Addr
begin

text \<open>
  Packets and frames of the on-demand routing daemon (\<^verbatim>\<open>odr.h\<close>, \<^verbatim>\<open>odr_chechung.c\<close>): the structure
  \<^verbatim>\<open>SELF_DEFINED_PF_Packet\<close>, whose numbers travel in network order and whose character arrays travel with
  whatever stands behind the terminating zero, and the Ethernet frame around it.
\<close>

definition ETH_FRAME_LEN1 :: nat where "ETH_FRAME_LEN1 = 1370"
definition ETH_FRAME_LEN :: nat where "ETH_FRAME_LEN = 1514"
definition DATA_SIZE :: nat where "DATA_SIZE = 1300"
definition IPAddr_SIZE :: nat where "IPAddr_SIZE = 20"
definition PACKET_SIZE :: nat where "PACKET_SIZE = 1356"

lemmas odr_sizes = ETH_FRAME_LEN1_def ETH_FRAME_LEN_def DATA_SIZE_def IPAddr_SIZE_def PACKET_SIZE_def

record packet =
  ptype :: int
  source_ipAddr :: string
  source_port :: int
  destination_ipAddr :: string
  destination_port :: int
  hop_count :: int
  application_msg :: string

definition zero_packet :: packet where
  "zero_packet = \<lparr>ptype = 0, source_ipAddr = [], source_port = 0, destination_ipAddr = [], destination_port = 0,
     hop_count = 0, application_msg = []\<rparr>"

text \<open>\<^verbatim>\<open>strcpy\<close> into an array that is too short is undefined behaviour: \<open>None\<close>.\<close>

definition createPF_Packet :: "int \<Rightarrow> string \<Rightarrow> int \<Rightarrow> string \<Rightarrow> int \<Rightarrow> int \<Rightarrow> string \<Rightarrow> packet option" where
  "createPF_Packet ty src sport dst dport hops msg =
     (if length (cstr src) < IPAddr_SIZE \<and> length (cstr dst) < IPAddr_SIZE \<and> length (cstr msg) < DATA_SIZE
      then Some \<lparr>ptype = ty, source_ipAddr = cstr src, source_port = sport, destination_ipAddr = cstr dst,
                 destination_port = dport, hop_count = hops, application_msg = cstr msg\<rparr>
      else None)"

text \<open>\<^verbatim>\<open>htonl\<close> on the fields of the structure itself, as \<^verbatim>\<open>sendMessage\<close> leaves them behind.\<close>

definition htonl_int :: "int \<Rightarrow> int" where
  "htonl_int x = (case rev (be32_bytes x) of [a, b, c, d] \<Rightarrow> be32_val a b c d | _ \<Rightarrow> 0)"

definition swap_packet :: "packet \<Rightarrow> packet" where
  "swap_packet p = p\<lparr>ptype := htonl_int (ptype p), source_port := htonl_int (source_port p),
     destination_port := htonl_int (destination_port p), hop_count := htonl_int (hop_count p)\<rparr>"

section \<open>Wire form\<close>

text \<open>\<open>junk\<close> is what the memory of the structure held before, at the 1356 offsets of the structure.\<close>

definition encode_packet :: "memory \<Rightarrow> packet \<Rightarrow> byte list" where
  "encode_packet junk p =
     be32_bytes (ptype p) @ put_str IPAddr_SIZE (\<lambda>i. junk (4 + i)) (source_ipAddr p) @ be32_bytes (source_port p) @
     put_str IPAddr_SIZE (\<lambda>i. junk (28 + i)) (destination_ipAddr p) @ be32_bytes (destination_port p) @
     be32_bytes (hop_count p) @ put_str DATA_SIZE (\<lambda>i. junk (56 + i)) (application_msg p)"

definition decode_packet :: "byte list \<Rightarrow> packet option" where
  "decode_packet buf =
     (case be32_read buf of None \<Rightarrow> None | Some (ty, b1) \<Rightarrow>
     (case get_str IPAddr_SIZE b1 of None \<Rightarrow> None | Some (src, b2) \<Rightarrow>
     (case be32_read b2 of None \<Rightarrow> None | Some (sport, b3) \<Rightarrow>
     (case get_str IPAddr_SIZE b3 of None \<Rightarrow> None | Some (dst, b4) \<Rightarrow>
     (case be32_read b4 of None \<Rightarrow> None | Some (dport, b5) \<Rightarrow>
     (case be32_read b5 of None \<Rightarrow> None | Some (hops, b6) \<Rightarrow>
     (case get_str DATA_SIZE b6 of None \<Rightarrow> None | Some (msg, _) \<Rightarrow>
        Some \<lparr>ptype = ty, source_ipAddr = src, source_port = sport, destination_ipAddr = dst,
              destination_port = dport, hop_count = hops, application_msg = msg\<rparr>)))))))"

definition wf_packet :: "packet \<Rightarrow> bool" where
  "wf_packet p \<longleftrightarrow> int32 (ptype p) \<and> int32 (source_port p) \<and> int32 (destination_port p) \<and> int32 (hop_count p)
     \<and> length (source_ipAddr p) < IPAddr_SIZE \<and> length (destination_ipAddr p) < IPAddr_SIZE
     \<and> length (application_msg p) < DATA_SIZE
     \<and> nul \<notin> set (source_ipAddr p) \<and> nul \<notin> set (destination_ipAddr p) \<and> nul \<notin> set (application_msg p)"

record frame =
  dest_mac :: "byte list"
  src_mac :: "byte list"
  if_index :: int
  body :: packet

text \<open>
  The bytes handed to \<^verbatim>\<open>sendto\<close>: the buffer of \<^verbatim>\<open>ETH_FRAME_LEN1\<close> bytes, and, because the length given is
  \<^verbatim>\<open>ETH_FRAME_LEN\<close>, the bytes \<open>beyond\<close> the end of it.
\<close>

definition frame_bytes :: "memory \<Rightarrow> byte list \<Rightarrow> frame \<Rightarrow> byte list" where
  "frame_bytes junk beyond f = dest_mac f @ src_mac f @ SELF_PROTOCOL @ encode_packet junk (body f) @ beyond"

text \<open>\<^verbatim>\<open>receivePacket\<close>: the sender's address and the packet; the buffer is zeroed before the read.\<close>

definition receivePacket :: "byte list \<Rightarrow> (byte list \<times> packet) option" where
  "receivePacket bytes =
     (let buffer = take ETH_FRAME_LEN1 (bytes @ replicate ETH_FRAME_LEN1 0)
      in map_option (\<lambda>p. (take 6 (drop 6 buffer), p)) (decode_packet (drop 14 buffer)))"

section \<open>Facts\<close>

lemma decode_encode_packet: "wf_packet p \<Longrightarrow> decode_packet (encode_packet junk p @ rest) = Some p"
  by (simp add: decode_packet_def encode_packet_def wf_packet_def wire_simps)

lemma length_encode_packet: "wf_packet p \<Longrightarrow> length (encode_packet junk p) = PACKET_SIZE"
  by (simp add: encode_packet_def wf_packet_def odr_sizes)

lemma decode_packet_wf: "decode_packet bs = Some p \<Longrightarrow> wf_packet p"
  by (auto simp: decode_packet_def wf_packet_def odr_sizes dest: be32_read_int32 get_str_wf split: option.splits prod.splits)

interpretation odr: wire_codec "encode_packet junk" decode_packet wf_packet PACKET_SIZE for junk
  by unfold_locales
    (use decode_encode_packet [where rest = "[]"] in \<open>simp_all add: length_encode_packet decode_packet_wf\<close>)

lemma frame_received:
  assumes "wf_packet (body f)" and "length (dest_mac f) = 6" and "length (src_mac f) = 6"
  shows "receivePacket (frame_bytes junk beyond f) = Some (src_mac f, body f)"
proof -
  have l: "length (encode_packet junk (body f)) = 1356" using odr.enc_length [OF assms(1)] by (simp add: PACKET_SIZE_def)
  let ?buf = "dest_mac f @ src_mac f @ SELF_PROTOCOL @ encode_packet junk (body f)"
  have b: "take ETH_FRAME_LEN1 (frame_bytes junk beyond f @ zs) = ?buf" for zs
    using assms(2,3) l by (simp add: frame_bytes_def SELF_PROTOCOL_def ETH_FRAME_LEN1_def)
  have "drop 14 ?buf = encode_packet junk (body f)" "take 6 (drop 6 ?buf) = src_mac f"
    using assms(2,3) by (simp_all add: SELF_PROTOCOL_def)
  then show ?thesis
    using odr.dec_enc [OF assms(1)] by (simp only: receivePacket_def Let_def b) simp
qed

section \<open>Properties\<close>

text \<open>
  C21 (round trip of a frame).  A frame received is the frame sent: the receiver finds the sender's hardware
  address and the packet, whatever bytes stand behind the strings in their arrays (\<open>junk\<close> gives a byte for each place of
  the structure) and although the sender hands
  \<^verbatim>\<open>ETH_FRAME_LEN\<close> bytes of a buffer of \<^verbatim>\<open>ETH_FRAME_LEN1\<close> to the kernel: the 144 bytes beyond the buffer are sent,
  and cut off by the receiver.
\<close>

theorem frame_roundtrip:
  assumes "wf_packet (body f)" and "length (dest_mac f) = 6" and "length (src_mac f) = 6"
  shows "receivePacket (frame_bytes junk beyond f) = Some (src_mac f, body f)
    \<and> (length (frame_bytes junk beyond f) = ETH_FRAME_LEN \<longleftrightarrow> length beyond = 144)"
proof -
  have "length (frame_bytes junk beyond f) = 1370 + length beyond"
    using assms(2,3) odr.enc_length [OF assms(1)] by (simp add: PACKET_SIZE_def frame_bytes_def SELF_PROTOCOL_def)
  then show ?thesis using frame_received [OF assms] by (simp add: ETH_FRAME_LEN_def)
qed

definition example_packet :: packet where
  "example_packet = \<lparr>ptype = 0, source_ipAddr = ''130.245.156.21'', source_port = 1,
     destination_ipAddr = ''130.245.156.22'', destination_port = 5678, hop_count = 0, application_msg = ''007''\<rparr>"

theorem frame_roundtrip_witness:
  "receivePacket (frame_bytes (\<lambda>i. of_nat (i * i)) [1, 2, 3] \<lparr>dest_mac = replicate 6 255, src_mac = [0, 12, 41, 1, 2, 3], if_index = 3,
      body = example_packet\<rparr>) = Some ([0, 12, 41, 1, 2, 3], example_packet)"
proof -
  have "wf_packet example_packet"
    by (simp add: example_packet_def wf_packet_def odr_sizes int32_def nul_def)
  then show ?thesis
    using frame_roundtrip [of "\<lparr>dest_mac = replicate 6 255, src_mac = [0, 12, 41, 1, 2, 3], if_index = 3,
      body = example_packet\<rparr>" "\<lambda>i. of_nat (i * i)" "[1, 2, 3]"] by simp
qed

end
