(* ===== verification/Odr.thy ===== *)
theory Odr
  imports Odr_Packet "HOL-Library.Monad_Syntax"
begin

text \<open>
  The on-demand routing daemon (\<^verbatim>\<open>odr_chechung.c\<close>): the interface list, the port map, the routing table
  with its broadcast identifiers, the buffer of packets that wait for a route, and the two handlers of
  the \<^verbatim>\<open>select\<close> loop, one for messages of local clients and one for packets from the network.  What the
  code asks the system for is in \<open>odr_config\<close>: the names of addresses (\<^verbatim>\<open>gethostbyaddr\<close>; \<open>None\<close> is the
  null pointer, whose use ends the process), the own host name and addresses.  The calls of \<^verbatim>\<open>time\<close> in
  one pass of the loop give one value, \<open>now\<close>.  A handler returns \<open>None\<close> where the code has undefined
  behaviour or crashes, and otherwise the new state and what was sent.
\<close>

definition NODES :: nat where "NODES = 10"
definition INTERFACE_SIZE :: nat where "INTERFACE_SIZE = 40"
definition MAP_SIZE :: nat where "MAP_SIZE = 100"
definition BUFFER_SIZE :: nat where "BUFFER_SIZE = 100"

section \<open>State\<close>

record odr_config =
  hostname_of :: "string \<Rightarrow> string option"
  vm_name :: string
  host_addr :: string
  local_CanonicalIP :: string
  interfaces :: "(mac \<times> int) list"
  stale_time :: int

record routing_entry =
  next_hop :: mac
  out_interface :: int
  hops_to_dest :: int
  e_timestamp :: int
  highest_broadcast_id :: "int list"

record odr =
  table :: "routing_entry list"
  send_buffer :: "packet list"
  num_packets_buffered :: nat
  broadcast_id :: int
  sourcePort :: int
  MapArray :: "(int \<times> string) list"

definition zero_entry :: routing_entry where
  "zero_entry = \<lparr>next_hop = replicate 6 0, out_interface = 0, hops_to_dest = 0, e_timestamp = 0,
     highest_broadcast_id = replicate (NODES + 1) 0\<rparr>"

definition initialMap :: "(int \<times> string) list" where
  "initialMap = replicate MAP_SIZE (-1, [])"

definition odr_init :: odr where
  "odr_init = \<lparr>table = replicate (NODES + 1) zero_entry, send_buffer = replicate BUFFER_SIZE zero_packet,
     num_packets_buffered = 0, broadcast_id = 0, sourcePort = 1, MapArray = initialMap\<rparr>"

section \<open>Ports\<close>

definition addMap :: "int \<Rightarrow> string \<Rightarrow> (int \<times> string) list \<Rightarrow> (int \<times> string) list" where
  "addMap portNum sun_path m =
     (case find_index (\<lambda>e. fst e = -1) m of None \<Rightarrow> m | Some k \<Rightarrow> m[k := (portNum, sun_path)])"

definition searchMap :: "int \<Rightarrow> (int \<times> string) list \<Rightarrow> string option" where
  "searchMap port m = map_option (\<lambda>k. snd (m ! k)) (find_index (\<lambda>e. fst e = port) m)"

section \<open>Addresses and interfaces\<close>

text \<open>The array of interfaces (an unused entry has number -1) and the address of \<^verbatim>\<open>eth0\<close>.\<close>

fun getAllMacAddress :: "hwa_info list \<Rightarrow> (mac \<times> int) list \<times> string \<Rightarrow> (mac \<times> int) list \<times> string" where
  "getAllMacAddress [] acc = acc"
| "getAllMacAddress (h # hs) (arr, ip) =
     getAllMacAddress hs
       (if if_name h \<noteq> ''lo'' \<and> if_name h \<noteq> ''eth0''
        then (case find_index (\<lambda>i. snd i = -1) arr of None \<Rightarrow> arr | Some p \<Rightarrow> arr[p := (if_haddr h, hwa_index h)])
        else arr,
        if if_name h = ''eth0'' then ip_addr h else ip)"

definition no_interfaces :: "(mac \<times> int) list" where
  "no_interfaces = replicate INTERFACE_SIZE (replicate 6 0, -1)"

definition getMacAddrByInferFaceNum :: "odr_config \<Rightarrow> int \<Rightarrow> mac option" where
  "getMacAddrByInferFaceNum cfg ifaceNum =
     map_option (\<lambda>q. fst (interfaces cfg ! q)) (find_index (\<lambda>i. snd i = ifaceNum) (interfaces cfg))"

text \<open>The name of an address, in an array of twenty characters.\<close>

definition host_name :: "odr_config \<Rightarrow> string \<Rightarrow> string option" where
  "host_name cfg ip = (case hostname_of cfg ip of None \<Rightarrow> None | Some h \<Rightarrow> if length h < 20 then Some h else None)"

definition getNodeByIP :: "odr_config \<Rightarrow> string \<Rightarrow> nat option" where
  "getNodeByIP cfg ip =
     map_option (\<lambda>h. if h = ''vm10'' then 10 else nat (atoi (if 2 < length h then [h ! 2] else []))) (host_name cfg ip)"

definition curr_node :: "odr_config \<Rightarrow> int" where
  "curr_node cfg = atoi (CHR ''0'' # CHR ''0'' # drop 2 (vm_name cfg))"

section \<open>Sending\<close>

definition sendMessage :: "odr_config \<Rightarrow> mac \<Rightarrow> mac \<Rightarrow> int \<Rightarrow> packet \<Rightarrow> frame option" where
  "sendMessage cfg src dst ifindex p =
     do {
       _ \<leftarrow> host_name cfg (source_ipAddr p);
       _ \<leftarrow> host_name cfg (destination_ipAddr p);
       Some \<lparr>dest_mac = dst, src_mac = src, if_index = ifindex, body = p\<rparr>
     }"

fun broadcast_on :: "odr_config \<Rightarrow> packet \<Rightarrow> (mac \<times> int) list \<Rightarrow> frame list option" where
  "broadcast_on cfg p [] = Some []"
| "broadcast_on cfg p (i # rest) =
     (if snd i \<noteq> -1
      then do {
        copy \<leftarrow> createPF_Packet (ptype p) (source_ipAddr p) (source_port p) (destination_ipAddr p) (destination_port p)
          (hop_count p) (application_msg p);
        f \<leftarrow> sendMessage cfg (fst i) (replicate 6 0xFF) (snd i) copy;
        fs \<leftarrow> broadcast_on cfg p rest;
        Some (f # fs)
      }
      else broadcast_on cfg p rest)"

definition broadcast :: "odr_config \<Rightarrow> packet \<Rightarrow> frame list option" where
  "broadcast cfg p = broadcast_on cfg p (interfaces cfg)"

section \<open>The buffer\<close>

text \<open>\<^verbatim>\<open>for (i = *buffer_count; i > remove_index; i--) buffer[i - 1] = buffer[i]\<close>\<close>

fun shift_down :: "packet list \<Rightarrow> nat \<Rightarrow> nat \<Rightarrow> packet list option" where
  "shift_down buffer 0 remove_index = Some buffer"
| "shift_down buffer (Suc i) remove_index =
     (if Suc i > remove_index
      then do { v \<leftarrow> load buffer (Suc i); b \<leftarrow> store buffer i v; shift_down b i remove_index }
      else Some buffer)"

definition removeFromBuffer :: "packet list \<Rightarrow> nat \<Rightarrow> nat \<Rightarrow> (packet list \<times> nat) option" where
  "removeFromBuffer buffer buffer_count remove_index =
     map_option (\<lambda>b. (b, buffer_count - 1)) (shift_down buffer buffer_count remove_index)"

text \<open>The loop runs over as many slots as were filled at its start.\<close>

fun buffer_loop :: "odr_config \<Rightarrow> int \<Rightarrow> routing_entry list \<Rightarrow> nat \<Rightarrow> nat \<Rightarrow> packet list \<Rightarrow> nat
    \<Rightarrow> (packet list \<times> nat \<times> frame list) option" where
  "buffer_loop cfg now tbl 0 i buffer buffer_count = Some (buffer, buffer_count, [])"
| "buffer_loop cfg now tbl (Suc left) i buffer buffer_count =
     do {
       p \<leftarrow> load buffer i;
       dest_node \<leftarrow> getNodeByIP cfg (destination_ipAddr p);
       e \<leftarrow> load tbl dest_node;
       if checkAddressNotEmpty (next_hop e) \<and> e_timestamp e + stale_time cfg > now
       then do {
         mac \<leftarrow> getMacAddrByInferFaceNum cfg (out_interface e);
         f \<leftarrow> sendMessage cfg mac (next_hop e) (out_interface e) p;
         (b, n) \<leftarrow> removeFromBuffer (buffer[i := swap_packet p]) buffer_count i;
         (b', n', fs) \<leftarrow> buffer_loop cfg now tbl left (Suc i) b n;
         Some (b', n', f # fs)
       }
       else buffer_loop cfg now tbl left (Suc i) buffer buffer_count
     }"

definition sendMessageFromBuffer :: "odr_config \<Rightarrow> int \<Rightarrow> odr \<Rightarrow> (odr \<times> frame list) option" where
  "sendMessageFromBuffer cfg now st =
     do {
       (b, n, fs) \<leftarrow> buffer_loop cfg now (table st) (num_packets_buffered st) 0 (send_buffer st) (num_packets_buffered st);
       Some (st\<lparr>send_buffer := b, num_packets_buffered := n\<rparr>, fs)
     }"

definition buffer_packet :: "packet \<Rightarrow> odr \<Rightarrow> odr option" where
  "buffer_packet p st =
     do {
       b \<leftarrow> store (send_buffer st) (num_packets_buffered st) p;
       Some (st\<lparr>send_buffer := b, num_packets_buffered := num_packets_buffered st + 1\<rparr>)
     }"

text \<open>\<^verbatim>\<open>rreq_msg\<close>: the flag "reply sent", the flag "forced discovery", the broadcast identifier.\<close>

definition rreq_msg :: "int \<Rightarrow> int \<Rightarrow> string" where
  "rreq_msg flag bid = CHR ''0'' # char_of_byte (word_of_int (flag + 48)) # dec bid"

section \<open>Messages of local clients\<close>

definition no_route :: "odr_config \<Rightarrow> int \<Rightarrow> routing_entry \<Rightarrow> bool" where
  "no_route cfg now e \<longleftrightarrow> \<not> checkAddressNotEmpty (next_hop e) \<or> e_timestamp e + stale_time cfg < now"

text \<open>The message is copied into an array of hundred characters and cut at the semicolons.\<close>

definition parse_client :: "string \<Rightarrow> (string \<times> int \<times> int \<times> string) option" where
  "parse_client mesg =
     (if 100 \<le> length mesg then None
      else case strtok (CHR '';'') [] mesg of
        destinationAddr # destinationPortStr # flagStr # msg # _ \<Rightarrow>
          Some (destinationAddr, atoi destinationPortStr, atoi flagStr, msg)
      | _ \<Rightarrow> None)"

definition client_request :: "odr_config \<Rightarrow> int \<Rightarrow> string \<Rightarrow> string \<Rightarrow> int \<Rightarrow> int \<Rightarrow> string \<Rightarrow> odr \<Rightarrow> (odr \<times> frame list) option" where
  "client_request cfg now sun_path destinationAddr destinationPortNum flagInt msg st =
     do {
       new_packet \<leftarrow> createPF_Packet 2 (host_addr cfg) (sourcePort st) destinationAddr destinationPortNum 0 msg;
       st1 \<leftarrow> buffer_packet new_packet (st\<lparr>MapArray := addMap (sourcePort st) sun_path (MapArray st)\<rparr>);
       dest \<leftarrow> getNodeByIP cfg destinationAddr;
       e0 \<leftarrow> load (table st) dest;
       let e = (if flagInt = 1 then e0\<lparr>next_hop := replicate 6 0\<rparr> else e0);
       fs \<leftarrow> (if no_route cfg now e
               then do {
                 rreq \<leftarrow> createPF_Packet 0 (local_CanonicalIP cfg) (sourcePort st) destinationAddr destinationPortNum 0
                   (rreq_msg flagInt (broadcast_id st + 1));
                 broadcast cfg rreq
               }
               else Some []);
       (st3, fs') \<leftarrow> sendMessageFromBuffer cfg now (st1\<lparr>broadcast_id := broadcast_id st + 1, table := (table st)[dest := e]\<rparr>);
       Some (st3\<lparr>sourcePort := sourcePort st + 1\<rparr>, fs @ fs')
     }"

definition handle_client :: "odr_config \<Rightarrow> int \<Rightarrow> string \<Rightarrow> string \<Rightarrow> odr \<Rightarrow> (odr \<times> frame list) option" where
  "handle_client cfg now sun_path mesg st =
     (case parse_client mesg of None \<Rightarrow> None
      | Some (dst, port, flag, msg) \<Rightarrow> client_request cfg now sun_path dst port flag msg st)"

section \<open>Packets from the network\<close>

definition learn_route :: "mac \<Rightarrow> int \<Rightarrow> int \<Rightarrow> int \<Rightarrow> routing_entry \<Rightarrow> routing_entry" where
  "learn_route sender ifindex hops now e =
     e\<lparr>next_hop := sender, out_interface := ifindex, hops_to_dest := hops, e_timestamp := now\<rparr>"

text \<open>\<^verbatim>\<open>received_bid\<close> with its first two characters replaced.\<close>

definition bid_of :: "string \<Rightarrow> int" where
  "bid_of msg = atoi (CHR ''0'' # CHR ''0'' # drop 2 msg)"

definition note_id :: "nat \<Rightarrow> int \<Rightarrow> routing_entry \<Rightarrow> routing_entry" where
  "note_id src bid e =
     (if bid > highest_broadcast_id e ! src then e\<lparr>highest_broadcast_id := (highest_broadcast_id e)[src := bid]\<rparr> else e)"

text \<open>The entry of the source of a route request: its identifier and, perhaps, the reverse path.\<close>

definition update_reverse :: "odr_config \<Rightarrow> int \<Rightarrow> nat \<Rightarrow> int \<Rightarrow> int \<Rightarrow> int \<Rightarrow> routing_entry \<Rightarrow> bool" where
  "update_reverse cfg now src hops bid forced e =
     (let u0 = \<not> (hops > hops_to_dest e \<or> e_timestamp e + stale_time cfg > now);
          u1 = (if bid > highest_broadcast_id e ! src \<and> forced = 1 then True else u0)
      in if \<not> checkAddressNotEmpty (next_hop e) then True else u1)"

definition source_entry :: "odr_config \<Rightarrow> int \<Rightarrow> mac \<Rightarrow> int \<Rightarrow> nat \<Rightarrow> int \<Rightarrow> int \<Rightarrow> int \<Rightarrow> routing_entry \<Rightarrow> routing_entry" where
  "source_entry cfg now sender ifindex src hops bid forced e =
     (let e' = note_id src bid e
      in if update_reverse cfg now src hops bid forced e then learn_route sender ifindex hops now e' else e')"

text \<open>
  The reply to a route request, and the flooding that goes on when the source was unknown or the way
  became shorter.
\<close>

definition answer_rreq :: "odr_config \<Rightarrow> routing_entry \<Rightarrow> packet \<Rightarrow> bool \<Rightarrow> bool \<Rightarrow> frame list option" where
  "answer_rreq cfg back p force_flag go_on =
     do {
       out0 \<leftarrow> createPF_Packet 1 (destination_ipAddr p) (destination_port p) (source_ipAddr p) (source_port p) 0 (application_msg p);
       let out = (if force_flag then out0\<lparr>application_msg := (application_msg out0)[1 := CHR ''1'']\<rparr> else out0);
       mac \<leftarrow> getMacAddrByInferFaceNum cfg (out_interface back);
       f \<leftarrow> sendMessage cfg mac (next_hop back) (out_interface back) out;
       fs \<leftarrow> (if go_on
               then broadcast cfg (p\<lparr>hop_count := hop_count p + 1, application_msg := (application_msg p)[0 := CHR ''1'']\<rparr>)
               else Some []);
       Some (f # fs)
     }"

text \<open>A request not seen before (\<open>d\<close> is the entry of the destination, \<open>t1\<close> the table).\<close>

definition forward_rreq :: "odr_config \<Rightarrow> int \<Rightarrow> nat \<Rightarrow> nat \<Rightarrow> packet \<Rightarrow> bool \<Rightarrow> routing_entry list \<Rightarrow> odr
    \<Rightarrow> (odr \<times> frame list) option" where
  "forward_rreq cfg now src dst p go_on t1 st =
     (let rrep_already_sent = char_at (application_msg p) 0 - 48;
          forced = char_at (application_msg p) 1 - 48;
          d' = note_id src (bid_of (application_msg p)) (t1 ! dst);
          t2 = t1[dst := d'];
          flood = p\<lparr>hop_count := hop_count p + 1\<rparr>
      in if curr_node cfg \<noteq> int dst
         then (if no_route cfg now d'
               then map_option (\<lambda>fs. (st\<lparr>table := t2\<rparr>, fs)) (broadcast cfg flood)
               else if e_timestamp d' + stale_time cfg > now
               then (if forced = 0
                     then let t3 = t1[dst := d'\<lparr>e_timestamp := now\<rparr>]
                          in if rrep_already_sent \<noteq> 1
                             then map_option (\<lambda>fs. (st\<lparr>table := t3\<rparr>, fs)) (answer_rreq cfg (t3 ! src) p False go_on)
                             else Some (st\<lparr>table := t3\<rparr>, [])
                     else if forced = 1
                     then map_option (\<lambda>fs. (st\<lparr>table := t2\<rparr>, fs)) (broadcast cfg flood)
                     else Some (st\<lparr>table := t2\<rparr>, []))
               else Some (st\<lparr>table := t2\<rparr>, []))
         else if rrep_already_sent \<noteq> 1
         then map_option (\<lambda>fs. (st\<lparr>table := t2\<rparr>, fs)) (answer_rreq cfg (t2 ! src) p (forced = 1) go_on)
         else Some (st\<lparr>table := t2\<rparr>, []))"

text \<open>The table after the entry of the source was looked at.\<close>

definition rreq_table :: "odr_config \<Rightarrow> int \<Rightarrow> mac \<Rightarrow> int \<Rightarrow> nat \<Rightarrow> packet \<Rightarrow> odr \<Rightarrow> routing_entry list" where
  "rreq_table cfg now sender ifindex src p st =
     (table st)[src := source_entry cfg now sender ifindex src (hop_count p + 1) (bid_of (application_msg p))
        (char_at (application_msg p) 1 - 48) (table st ! src)]"

definition handle_rreq :: "odr_config \<Rightarrow> int \<Rightarrow> mac \<Rightarrow> int \<Rightarrow> nat \<Rightarrow> nat \<Rightarrow> packet \<Rightarrow> odr \<Rightarrow> (odr \<times> frame list) option" where
  "handle_rreq cfg now sender ifindex src dst p st =
     (if 30 \<le> length (application_msg p) \<or> application_msg p = [] \<or> length (table st) \<le> src \<or> length (table st) \<le> dst then None
      else if int src = curr_node cfg then Some (st, [])
      else
        let e = table st ! src;
            t1 = rreq_table cfg now sender ifindex src p st;
            go_on = (\<not> checkAddressNotEmpty (next_hop e) \<or> hops_to_dest e > hop_count p + 1)
        in if bid_of (application_msg p) > highest_broadcast_id (t1 ! dst) ! src
           then forward_rreq cfg now src dst p go_on t1 st
           else Some (st\<lparr>table := t1\<rparr>, []))"

definition handle_rrep :: "odr_config \<Rightarrow> int \<Rightarrow> mac \<Rightarrow> int \<Rightarrow> nat \<Rightarrow> nat \<Rightarrow> packet \<Rightarrow> odr \<Rightarrow> (odr \<times> frame list) option" where
  "handle_rrep cfg now sender ifindex src dst p st =
     do {
       _ \<leftarrow> load (application_msg p) 0;
       let forced = char_at (application_msg p) 1 - 48;
       let bid = bid_of (take 30 (application_msg p));
       let hops = hop_count p + 1;
       e \<leftarrow> load (table st) src;
       let e' = (if forced = 1 \<or> hops < hops_to_dest e \<or> no_route cfg now e
                 then (learn_route sender ifindex hops now e)\<lparr>highest_broadcast_id := (highest_broadcast_id e)[src := bid]\<rparr>
                 else e);
       let st' = st\<lparr>table := (table st)[src := e']\<rparr>;
       if int dst = curr_node cfg then sendMessageFromBuffer cfg now st'
       else do {
         d \<leftarrow> load (table st') dst;
         mac \<leftarrow> getMacAddrByInferFaceNum cfg (out_interface d);
         f \<leftarrow> sendMessage cfg mac (next_hop d) (out_interface d) (p\<lparr>hop_count := hop_count p + 1\<rparr>);
         Some (st', [f])
       }
     }"

text \<open>\<^verbatim>\<open>msg_send2\<close>: what is written to the Unix socket of a client.\<close>

definition msg_send2 :: "string \<Rightarrow> int \<Rightarrow> string \<Rightarrow> int \<Rightarrow> string" where
  "msg_send2 address port msg flag =
     (if port = 147 then msg else address @ '';'' @ dec port @ '';'' @ dec flag @ '';'' @ msg)"

text \<open>
  An application message: the route to its source is refreshed; a time request for this node is answered
  with what the local server said (\<open>reply\<close>), another message for this node goes to the client that owns the
  port, and everything else is passed on.  What cannot be sent makes the daemon ask for a route to the
  destination of the packet at hand.  The second character is read also when the message is empty, where it is
  whatever follows the terminating zero: no result.
\<close>

definition deliver_app :: "odr_config \<Rightarrow> string \<Rightarrow> nat \<Rightarrow> packet \<Rightarrow> odr \<Rightarrow> (odr \<times> (string \<times> string) list) option" where
  "deliver_app cfg reply dst p st =
     (if int dst = curr_node cfg
      then if application_msg p = ''request time''
           then do {
             out \<leftarrow> createPF_Packet 2 (destination_ipAddr p) (destination_port p) (source_ipAddr p) (source_port p) 0 reply;
             st' \<leftarrow> buffer_packet out st;
             Some (st', [])
           }
           else do {
             _ \<leftarrow> load (application_msg p) 0;
             path \<leftarrow> searchMap (destination_port p) (MapArray st);
             Some (st, [(path, msg_send2 (source_ipAddr p) (source_port p) (application_msg p)
                     (char_at (application_msg p) 1 - 48))])
           }
      else do { st' \<leftarrow> buffer_packet (p\<lparr>hop_count := hop_count p + 1\<rparr>) st; Some (st', []) })"

definition ask_route :: "odr_config \<Rightarrow> packet \<Rightarrow> odr \<Rightarrow> (odr \<times> frame list) option" where
  "ask_route cfg p st =
     (if num_packets_buffered st > 0
      then do {
        let bid = broadcast_id st + 1;
        rreq \<leftarrow> createPF_Packet 0 (host_addr cfg) (sourcePort st) (destination_ipAddr p) (destination_port p) 0 (rreq_msg 1 bid);
        fs \<leftarrow> broadcast cfg rreq;
        Some (st\<lparr>broadcast_id := bid\<rparr>, fs)
      }
      else Some (st, []))"

definition handle_app :: "odr_config \<Rightarrow> int \<Rightarrow> string \<Rightarrow> mac \<Rightarrow> int \<Rightarrow> nat \<Rightarrow> nat \<Rightarrow> packet \<Rightarrow> odr
    \<Rightarrow> (odr \<times> frame list \<times> (string \<times> string) list) option" where
  "handle_app cfg now reply sender ifindex src dst p st =
     do {
       e \<leftarrow> load (table st) src;
       let st1 = st\<lparr>table := (table st)[src := learn_route sender ifindex (hop_count p + 1) now e]\<rparr>;
       (st2, apps) \<leftarrow> deliver_app cfg reply dst p st1;
       (st3, fs) \<leftarrow> sendMessageFromBuffer cfg now st2;
       (st4, fs') \<leftarrow> ask_route cfg p st3;
       Some (st4, fs @ fs', apps)
     }"

text \<open>
  The branch \<^verbatim>\<open>if (FD_ISSET(PFsockFd, &rset))\<close>; \<^verbatim>\<open>receivePacket\<close> prints the address of the interface the packet
  came in on, which must be in the list.
\<close>

definition handle_packet :: "odr_config \<Rightarrow> int \<Rightarrow> string \<Rightarrow> mac \<Rightarrow> int \<Rightarrow> packet \<Rightarrow> odr
    \<Rightarrow> (odr \<times> frame list \<times> (string \<times> string) list) option" where
  "handle_packet cfg now reply sender ifindex p st =
     do {
       _ \<leftarrow> getMacAddrByInferFaceNum cfg ifindex;
       src \<leftarrow> getNodeByIP cfg (source_ipAddr p);
       dst \<leftarrow> getNodeByIP cfg (destination_ipAddr p);
       _ \<leftarrow> load (table st) src;
       if ptype p = 0 then map_option (\<lambda>(st', fs). (st', fs, [])) (handle_rreq cfg now sender ifindex src dst p st)
       else if ptype p = 1 then map_option (\<lambda>(st', fs). (st', fs, [])) (handle_rrep cfg now sender ifindex src dst p st)
       else handle_app cfg now reply sender ifindex src dst p st
     }"

section \<open>The daemon\<close>

datatype odr_event =
    FromClient int string string
  | FromNet int string mac int packet

fun odr_step :: "odr_config \<Rightarrow> odr \<Rightarrow> odr_event \<Rightarrow> (odr \<times> frame list \<times> (string \<times> string) list) option" where
  "odr_step cfg st (FromClient now path mesg) = map_option (\<lambda>(st', fs). (st', fs, [])) (handle_client cfg now path mesg st)"
| "odr_step cfg st (FromNet now reply sender ifindex p) = handle_packet cfg now reply sender ifindex p st"

text \<open>A sequence of passes: the state and the frames of each pass.\<close>

fun odr_run :: "odr_config \<Rightarrow> odr \<Rightarrow> odr_event list \<Rightarrow> (odr \<times> frame list list) option" where
  "odr_run cfg st [] = Some (st, [])"
| "odr_run cfg st (ev # evs) =
     do {
       (st1, fs, apps) \<leftarrow> odr_step cfg st ev;
       (st2, fss) \<leftarrow> odr_run cfg st1 evs;
       Some (st2, fs # fss)
     }"

end
