(* ===== verification/Odr_Props.thy ===== *)
theory Odr_Props
  imports Odr
begin

text \<open>
  What the routing daemon guarantees: its arrays are never left by an index, a route request is flooded
  at most once by a node, what a request makes the node send and learn, and what happens to the packets
  that wait for a route.
\<close>

section \<open>Invariant\<close>

definition entry_ok :: "routing_entry \<Rightarrow> bool" where
  "entry_ok e \<longleftrightarrow> length (highest_broadcast_id e) = NODES + 1"

definition odr_inv :: "odr \<Rightarrow> bool" where
  "odr_inv st \<longleftrightarrow> length (table st) = NODES + 1 \<and> list_all entry_ok (table st)
     \<and> length (send_buffer st) = BUFFER_SIZE \<and> num_packets_buffered st \<le> BUFFER_SIZE
     \<and> length (MapArray st) = MAP_SIZE"

lemma odr_init_inv: "odr_inv odr_init"
  by (auto simp: odr_inv_def odr_init_def initialMap_def entry_ok_def zero_entry_def list_all_iff)

lemma atoi_digit_bound: "0 \<le> atoi [c] \<and> atoi [c] \<le> 9"
proof (cases "is_digit c")
  case True
  then have d: "48 \<le> (of_char c :: nat)" "(of_char c :: nat) \<le> 57" by (simp_all add: is_digit_def)
  have v: "digits_val 0 [c] = int (of_char c) - 48" using True by simp
  have "0 \<le> digits_val 0 [c]" "digits_val 0 [c] \<le> 9" unfolding v using d by linarith+
  then show ?thesis using atoi_digits [of "[c]"] True by simp
next
  case False
  then show ?thesis by (simp add: atoi_def Let_def to_int32_def)
qed

text \<open>A node number is an index of the table.\<close>

lemma getNodeByIP_bound: "getNodeByIP cfg ip = Some n \<Longrightarrow> n \<le> NODES"
proof -
  assume "getNodeByIP cfg ip = Some n"
  then obtain h where "n = (if h = ''vm10'' then 10 else nat (atoi (if 2 < length h then [h ! 2] else [])))"
    by (auto simp: getNodeByIP_def)
  moreover have "atoi [] = 0" by (simp add: atoi_def Let_def to_int32_def)
  ultimately show ?thesis using atoi_digit_bound [of "h ! 2"] by (auto simp: NODES_def split: if_splits)
qed

lemma getNodeByIP_load:
  assumes "getNodeByIP cfg ip = Some n" and "length tbl = NODES + 1"
  shows "load tbl n = Some (tbl ! n)" and "n < length tbl"
  using getNodeByIP_bound [OF assms(1)] assms(2) by (simp_all add: load_def)

lemma note_id_ok: "entry_ok e \<Longrightarrow> entry_ok (note_id src bid e)"
  by (simp add: entry_ok_def note_id_def)

lemma source_entry_ok: "entry_ok e \<Longrightarrow> entry_ok (source_entry cfg now sender ifx src hops bid forced e)"
  using note_id_ok [of e src bid] by (simp add: source_entry_def Let_def learn_route_def entry_ok_def)

lemma table_update_ok: "list_all entry_ok t \<Longrightarrow> entry_ok e \<Longrightarrow> list_all entry_ok (t[i := e])"
  unfolding list_all_iff using set_update_subset_insert [of t i e] by blast

lemma table_entry_ok: "list_all entry_ok t \<Longrightarrow> i < length t \<Longrightarrow> entry_ok (t ! i)"
  by (simp add: list_all_length)

lemma shift_down_length: "shift_down b n i = Some b' \<Longrightarrow> length b' = length b"
  by (induction b n i arbitrary: b' rule: shift_down.induct) (auto simp: arr_simps bind_eq_Some_conv split: if_splits)

lemma removeFromBuffer_length: "removeFromBuffer b n i = Some (b', n') \<Longrightarrow> length b' = length b \<and> n' = n - 1"
  by (auto simp: removeFromBuffer_def shift_down_length)

lemma buffer_loop_SucE [consumes 1, case_names send skip]:
  assumes "buffer_loop cfg now tbl (Suc k) i b n = Some (b', n', fs)"
  obtains p d e mac f b1 n1 fs1 where "load b i = Some p" "getNodeByIP cfg (destination_ipAddr p) = Some d"
      "load tbl d = Some e" "checkAddressNotEmpty (next_hop e)" "e_timestamp e + stale_time cfg > now"
      "getMacAddrByInferFaceNum cfg (out_interface e) = Some mac"
      "sendMessage cfg mac (next_hop e) (out_interface e) p = Some f"
      "removeFromBuffer (b[i := swap_packet p]) n i = Some (b1, n1)"
      "buffer_loop cfg now tbl k (Suc i) b1 n1 = Some (b', n', fs1)" "fs = f # fs1"
  | p d e where "load b i = Some p" "getNodeByIP cfg (destination_ipAddr p) = Some d" "load tbl d = Some e"
      "\<not> (checkAddressNotEmpty (next_hop e) \<and> e_timestamp e + stale_time cfg > now)"
      "buffer_loop cfg now tbl k (Suc i) b n = Some (b', n', fs)"
proof -
  from assms obtain p d e where "load b i = Some p" "getNodeByIP cfg (destination_ipAddr p) = Some d" "load tbl d = Some e"
    by (auto simp: bind_eq_Some_conv)
  with assms that show thesis
    by (cases "checkAddressNotEmpty (next_hop e) \<and> e_timestamp e + stale_time cfg > now")
      (auto simp: bind_eq_Some_conv split: if_splits)
qed

lemma buffer_loop_length:
  "buffer_loop cfg now tbl k i b n = Some (b', n', fs) \<Longrightarrow> length b' = length b \<and> n' \<le> n"
proof (induction k arbitrary: i b n fs)
  case (Suc k)
  from Suc.prems show ?case
  proof (cases rule: buffer_loop_SucE)
    case send
    then show ?thesis using removeFromBuffer_length [OF send(8)] Suc.IH [OF send(9)] by (auto intro: le_trans)
  next
    case skip
    with Suc.IH [OF skip(5)] show ?thesis by simp
  qed
qed simp

lemma sendMessageFromBuffer_inv:
  assumes "sendMessageFromBuffer cfg now st = Some (st', fs)"
  shows "odr_inv st \<Longrightarrow> odr_inv st'" and "table st' = table st" and "MapArray st' = MapArray st"
    and "broadcast_id st' = broadcast_id st" and "sourcePort st' = sourcePort st"
  using assms by (auto simp: sendMessageFromBuffer_def bind_eq_Some_conv odr_inv_def dest!: buffer_loop_length)

lemma buffer_packet_inv:
  assumes "buffer_packet p st = Some st'"
  shows "odr_inv st \<Longrightarrow> odr_inv st'" and "table st' = table st" and "MapArray st' = MapArray st"
  using assms by (auto simp: buffer_packet_def bind_eq_Some_conv arr_simps odr_inv_def)

lemma addMap_length [simp]: "length (addMap port path m) = length m"
  by (simp add: addMap_def split: option.splits)

section \<open>What a route request does\<close>

abbreviation rreq_bid :: "packet \<Rightarrow> int" where
  "rreq_bid p \<equiv> bid_of (application_msg p)"

abbreviation rreq_forced :: "packet \<Rightarrow> int" where
  "rreq_forced p \<equiv> char_at (application_msg p) 1 - 48"

lemma forward_rreqE:
  assumes "forward_rreq cfg now src dst p go_on t1 st = Some (st', fs)"
  obtains d where "d = note_id src (rreq_bid p) (t1 ! dst) \<or> d = (note_id src (rreq_bid p) (t1 ! dst))\<lparr>e_timestamp := now\<rparr>"
    "st' = st\<lparr>table := t1[dst := d]\<rparr>"
    "fs = [] \<or> broadcast cfg (p\<lparr>hop_count := hop_count p + 1\<rparr>) = Some fs
      \<or> (\<exists>ff. answer_rreq cfg (t1[dst := d] ! src) p ff go_on = Some fs)"
  using assms that [of "note_id src (rreq_bid p) (t1 ! dst)"] that [of "(note_id src (rreq_bid p) (t1 ! dst))\<lparr>e_timestamp := now\<rparr>"]
  by (auto simp: forward_rreq_def Let_def split: if_splits)

lemma handle_rreqE [consumes 1, case_names own old new]:
  assumes "handle_rreq cfg now sender ifx src dst p st = Some (st', fs)"
  obtains "int src = curr_node cfg" "st' = st" "fs = []"
  | "int src \<noteq> curr_node cfg" "st' = st\<lparr>table := rreq_table cfg now sender ifx src p st\<rparr>" "fs = []"
      "rreq_bid p \<le> highest_broadcast_id (rreq_table cfg now sender ifx src p st ! dst) ! src"
  | d go_on where "int src \<noteq> curr_node cfg"
      "highest_broadcast_id (rreq_table cfg now sender ifx src p st ! dst) ! src < rreq_bid p"
      "d = note_id src (rreq_bid p) (rreq_table cfg now sender ifx src p st ! dst)
        \<or> d = (note_id src (rreq_bid p) (rreq_table cfg now sender ifx src p st ! dst))\<lparr>e_timestamp := now\<rparr>"
      "st' = st\<lparr>table := (rreq_table cfg now sender ifx src p st)[dst := d]\<rparr>"
      "fs = [] \<or> broadcast cfg (p\<lparr>hop_count := hop_count p + 1\<rparr>) = Some fs
        \<or> (\<exists>ff. answer_rreq cfg ((rreq_table cfg now sender ifx src p st)[dst := d] ! src) p ff go_on = Some fs)"
proof (cases "int src = curr_node cfg")
  case True
  then show ?thesis using assms that(1) by (simp add: handle_rreq_def split: if_splits)
next
  case False
  let ?t = "rreq_table cfg now sender ifx src p st"
  show ?thesis
  proof (cases "rreq_bid p > highest_broadcast_id (?t ! dst) ! src")
    case True
    then obtain go where "forward_rreq cfg now src dst p go ?t st = Some (st', fs)"
      using assms False by (auto simp: handle_rreq_def Let_def split: if_splits)
    then show ?thesis by (rule forward_rreqE) (rule that(3) [OF False True])
  next
    case le: False
    then show ?thesis using assms False that(2) by (simp add: handle_rreq_def Let_def split: if_splits)
  qed
qed

section \<open>The other handlers\<close>

lemma handle_rrepE [consumes 1]:
  assumes "handle_rrep cfg now sender ifx src dst p st = Some (st', fs)"
  obtains e' where "src < length (table st)"
    "e' = table st ! src \<or> e' = (learn_route sender ifx (hop_count p + 1) now (table st ! src))\<lparr>highest_broadcast_id :=
        (highest_broadcast_id (table st ! src))[src := bid_of (take 30 (application_msg p))]\<rparr>"
    "st' = st\<lparr>table := (table st)[src := e']\<rparr> \<or> sendMessageFromBuffer cfg now (st\<lparr>table := (table st)[src := e']\<rparr>) = Some (st', fs)"
proof -
  have l: "load (table st) src = Some (table st ! src)"
    using assms by (auto simp: handle_rrep_def Let_def bind_eq_Some_conv arr_simps)
  let ?e = "(learn_route sender ifx (hop_count p + 1) now (table st ! src))\<lparr>highest_broadcast_id :=
        (highest_broadcast_id (table st ! src))[src := bid_of (take 30 (application_msg p))]\<rparr>"
  have "src < length (table st)" using l by (simp add: arr_simps)
  then show thesis
    using assms l that [of "table st ! src"] that [of ?e]
    by (auto simp: handle_rrep_def Let_def bind_eq_Some_conv split: if_splits)
qed

lemma deliver_appE:
  assumes "deliver_app cfg reply dst p st = Some (st', apps)"
  obtains "st' = st" | q where "buffer_packet q st = Some st'"
  using assms that by (auto simp: deliver_app_def bind_eq_Some_conv split: if_splits)

lemma ask_route_eq: "ask_route cfg p st = Some (st', fs) \<Longrightarrow> \<exists>bid. st' = st\<lparr>broadcast_id := bid\<rparr>"
  by (auto simp: ask_route_def Let_def bind_eq_Some_conv split: if_splits intro: exI [of _ "broadcast_id st"])

lemma handle_appE [consumes 1]:
  assumes "handle_app cfg now reply sender ifx src dst p st = Some (st', fs, apps)"
  obtains st2 st3 fs3 bid where "src < length (table st)"
    "deliver_app cfg reply dst p (st\<lparr>table := (table st)[src := learn_route sender ifx (hop_count p + 1) now (table st ! src)]\<rparr>) = Some (st2, apps)"
    "sendMessageFromBuffer cfg now st2 = Some (st3, fs3)" "st' = st3\<lparr>broadcast_id := bid\<rparr>"
  using assms that by (auto simp: handle_app_def Let_def bind_eq_Some_conv arr_simps dest!: ask_route_eq)

text \<open>The invariant of the arrays.\<close>

lemma odr_inv_table:
  "odr_inv st \<Longrightarrow> length t = NODES + 1 \<Longrightarrow> list_all entry_ok t \<Longrightarrow> odr_inv (st\<lparr>table := t\<rparr>)"
  by (simp add: odr_inv_def)

lemma rreq_table_ok:
  assumes "odr_inv st" "src < length (table st)"
  shows "length (rreq_table cfg now sender ifx src p st) = NODES + 1" "list_all entry_ok (rreq_table cfg now sender ifx src p st)"
  using assms table_entry_ok source_entry_ok by (auto simp: odr_inv_def rreq_table_def intro!: table_update_ok)

lemma handle_rreq_inv:
  assumes "odr_inv st" "src \<le> NODES" "dst \<le> NODES" "handle_rreq cfg now sender ifx src dst p st = Some (st', fs)"
  shows "odr_inv st'"
proof -
  have lt: "src < length (table st)" "dst < length (rreq_table cfg now sender ifx src p st)"
    using assms(1-3) by (simp_all add: odr_inv_def rreq_table_def)
  note t = rreq_table_ok [OF assms(1) lt(1), of cfg now sender ifx p]
  have d: "entry_ok (note_id src b (rreq_table cfg now sender ifx src p st ! dst))" for b
    using table_entry_ok [OF t(2) lt(2)] note_id_ok by blast
  from assms(4) show ?thesis
  proof (cases rule: handle_rreqE)
    case (new d' go)
    then have "entry_ok d'" using d by (auto simp: entry_ok_def)
    with new(4) t assms(1) show ?thesis by (simp add: odr_inv_table table_update_ok)
  qed (use assms(1) t odr_inv_table in auto)
qed

lemma learn_route_ok: "entry_ok e \<Longrightarrow> entry_ok (learn_route sender ifx hops now e)"
  by (simp add: entry_ok_def learn_route_def)

lemma odr_inv_entry:
  assumes "odr_inv st" "src < length (table st)" "entry_ok (table st ! src) \<Longrightarrow> entry_ok e"
  shows "odr_inv (st\<lparr>table := (table st)[src := e]\<rparr>)"
  using assms table_entry_ok [of "table st" src] by (auto simp: odr_inv_def intro!: table_update_ok)

lemma handle_rrep_inv:
  assumes "odr_inv st" "handle_rrep cfg now sender ifx src dst p st = Some (st', fs)"
  shows "odr_inv st'"
  using assms(2)
proof (rule handle_rrepE)
  fix e'
  assume lt: "src < length (table st)"
    and e: "e' = table st ! src \<or> e' = (learn_route sender ifx (hop_count p + 1) now (table st ! src))\<lparr>highest_broadcast_id :=
        (highest_broadcast_id (table st ! src))[src := bid_of (take 30 (application_msg p))]\<rparr>"
    and s: "st' = st\<lparr>table := (table st)[src := e']\<rparr> \<or> sendMessageFromBuffer cfg now (st\<lparr>table := (table st)[src := e']\<rparr>) = Some (st', fs)"
  have "odr_inv (st\<lparr>table := (table st)[src := e']\<rparr>)"
    using e by (intro odr_inv_entry [OF assms(1) lt]) (auto simp: entry_ok_def)
  then show ?thesis using s sendMessageFromBuffer_inv(1) by blast
qed

lemma handle_app_inv:
  assumes "odr_inv st" "handle_app cfg now reply sender ifx src dst p st = Some (st', fs, apps)"
  shows "odr_inv st'"
  using assms(2)
proof (rule handle_appE)
  fix st2 st3 fs3 bid
  assume lt: "src < length (table st)"
    and d: "deliver_app cfg reply dst p (st\<lparr>table := (table st)[src := learn_route sender ifx (hop_count p + 1) now (table st ! src)]\<rparr>) = Some (st2, apps)"
    and m: "sendMessageFromBuffer cfg now st2 = Some (st3, fs3)" and s: "st' = st3\<lparr>broadcast_id := bid\<rparr>"
  have "odr_inv (st\<lparr>table := (table st)[src := learn_route sender ifx (hop_count p + 1) now (table st ! src)]\<rparr>)"
    by (intro odr_inv_entry [OF assms(1) lt] learn_route_ok)
  then have "odr_inv st2" using d by (auto elim!: deliver_appE dest: buffer_packet_inv(1))
  then have "odr_inv st3" using sendMessageFromBuffer_inv(1) [OF m] by blast
  then show ?thesis by (simp add: s odr_inv_def)
qed

lemma handle_clientE [consumes 1]:
  assumes "handle_client cfg now path mesg st = Some (st', fs)"
  obtains q st1 st3 d e fs3 where "d < length (table st)"
    "buffer_packet q (st\<lparr>MapArray := addMap (sourcePort st) path (MapArray st)\<rparr>) = Some st1"
    "e = table st ! d \<or> e = (table st ! d)\<lparr>next_hop := replicate 6 0\<rparr>"
    "sendMessageFromBuffer cfg now (st1\<lparr>broadcast_id := broadcast_id st + 1, table := (table st)[d := e]\<rparr>) = Some (st3, fs3)"
    "st' = st3\<lparr>sourcePort := sourcePort st + 1\<rparr>"
proof -
  obtain dst port flag msg where "client_request cfg now path dst port flag msg st = Some (st', fs)"
    using assms by (auto simp: handle_client_def split: option.splits)
  then obtain q st1 d fs2 fs3 st3 where "buffer_packet q (st\<lparr>MapArray := addMap (sourcePort st) path (MapArray st)\<rparr>) = Some st1"
    "load (table st) d = Some (table st ! d)"
    "sendMessageFromBuffer cfg now (st1\<lparr>broadcast_id := broadcast_id st + 1,
       table := (table st)[d := if flag = 1 then (table st ! d)\<lparr>next_hop := replicate 6 0\<rparr> else table st ! d]\<rparr>) = Some (st3, fs3)"
    "st' = st3\<lparr>sourcePort := sourcePort st + 1\<rparr>"
    by (auto simp: client_request_def Let_def bind_eq_Some_conv arr_simps)
  then show thesis using that [of d q st1 "if flag = 1 then (table st ! d)\<lparr>next_hop := replicate 6 0\<rparr> else table st ! d"]
    by (simp add: arr_simps)
qed

lemma handle_client_inv:
  assumes "odr_inv st" "handle_client cfg now path mesg st = Some (st', fs)"
  shows "odr_inv st'"
  using assms(2)
proof (rule handle_clientE)
  fix q st1 st3 d e fs3
  assume lt: "d < length (table st)"
    and b: "buffer_packet q (st\<lparr>MapArray := addMap (sourcePort st) path (MapArray st)\<rparr>) = Some st1"
    and e: "e = table st ! d \<or> e = (table st ! d)\<lparr>next_hop := replicate 6 0\<rparr>"
    and m: "sendMessageFromBuffer cfg now (st1\<lparr>broadcast_id := broadcast_id st + 1, table := (table st)[d := e]\<rparr>) = Some (st3, fs3)"
    and s: "st' = st3\<lparr>sourcePort := sourcePort st + 1\<rparr>"
  have "odr_inv (st\<lparr>MapArray := addMap (sourcePort st) path (MapArray st)\<rparr>)" using assms(1) by (simp add: odr_inv_def)
  then have "odr_inv st1" using buffer_packet_inv(1) [OF b] by simp
  moreover have "table st1 = table st" using buffer_packet_inv(2) [OF b] by simp
  ultimately have "odr_inv (st1\<lparr>table := (table st1)[d := e]\<rparr>)"
    using lt e by (intro odr_inv_entry) (auto simp: entry_ok_def)
  then have "odr_inv (st1\<lparr>broadcast_id := broadcast_id st + 1, table := (table st)[d := e]\<rparr>)"
    using \<open>table st1 = table st\<close> by (simp add: odr_inv_def)
  then have "odr_inv st3" using sendMessageFromBuffer_inv(1) [OF m] by simp
  then show ?thesis by (simp add: s odr_inv_def)
qed

lemma handle_packetE [consumes 1, case_names rreq rrep app]:
  assumes "handle_packet cfg now reply sender ifx p st = Some (st', fs, apps)"
  obtains src dst where "getNodeByIP cfg (source_ipAddr p) = Some src" "getNodeByIP cfg (destination_ipAddr p) = Some dst"
      "ptype p = 0" "handle_rreq cfg now sender ifx src dst p st = Some (st', fs)"
  | src dst where "getNodeByIP cfg (source_ipAddr p) = Some src" "getNodeByIP cfg (destination_ipAddr p) = Some dst"
      "ptype p = 1" "handle_rrep cfg now sender ifx src dst p st = Some (st', fs)"
  | src dst where "getNodeByIP cfg (source_ipAddr p) = Some src" "getNodeByIP cfg (destination_ipAddr p) = Some dst"
      "ptype p \<noteq> 0" "ptype p \<noteq> 1" "handle_app cfg now reply sender ifx src dst p st = Some (st', fs, apps)"
  using assms that by (auto simp: handle_packet_def bind_eq_Some_conv split: if_splits)

lemma odr_step_inv:
  assumes "odr_inv st" "odr_step cfg st ev = Some (st', fs, apps)"
  shows "odr_inv st'"
proof (cases ev)
  case (FromClient now path mesg)
  then show ?thesis using assms handle_client_inv by auto
next
  case (FromNet now reply sender ifx p)
  then have "handle_packet cfg now reply sender ifx p st = Some (st', fs, apps)" using assms(2) by simp
  then show ?thesis
  proof (cases rule: handle_packetE)
    case (rreq src dst)
    then show ?thesis using handle_rreq_inv [OF assms(1) _ _ rreq(4)] getNodeByIP_bound by blast
  next
    case (rrep src dst)
    then show ?thesis using handle_rrep_inv [OF assms(1)] by blast
  next
    case (app src dst)
    then show ?thesis using handle_app_inv [OF assms(1)] by blast
  qed
qed

section \<open>Broadcast identifiers only grow\<close>

definition ids_le :: "routing_entry list \<Rightarrow> routing_entry list \<Rightarrow> bool" where
  "ids_le t t' \<longleftrightarrow> (\<forall>d s. d < length t \<and> d \<noteq> s \<longrightarrow> highest_broadcast_id (t ! d) ! s \<le> highest_broadcast_id (t' ! d) ! s)"

lemma ids_le_refl [simp]: "ids_le t t"
  by (simp add: ids_le_def)

lemma ids_le_trans: "ids_le t t' \<Longrightarrow> ids_le t' t'' \<Longrightarrow> length t = length t' \<Longrightarrow> ids_le t t''"
  unfolding ids_le_def using order_trans by fastforce

lemma ids_le_update:
  assumes "\<And>s. s \<noteq> i \<Longrightarrow> highest_broadcast_id (t ! i) ! s \<le> highest_broadcast_id e ! s"
  shows "ids_le t (t[i := e])"
  using assms by (cases "i < length t") (auto simp: ids_le_def nth_list_update list_update_beyond)

lemma note_id_mono: "entry_ok e \<Longrightarrow> src \<le> NODES \<Longrightarrow> highest_broadcast_id e ! s \<le> highest_broadcast_id (note_id src bid e) ! s"
  by (auto simp: note_id_def entry_ok_def nth_list_update)

lemma note_id_reaches: "entry_ok e \<Longrightarrow> src \<le> NODES \<Longrightarrow> bid \<le> highest_broadcast_id (note_id src bid e) ! src"
  by (auto simp: note_id_def entry_ok_def)

lemma source_entry_ids: "highest_broadcast_id (source_entry cfg now sender ifx src hops bid forced e) = highest_broadcast_id (note_id src bid e)"
  by (simp add: source_entry_def learn_route_def Let_def)

lemma rreq_table_ids:
  assumes "odr_inv st" "src \<le> NODES"
  shows "ids_le (table st) (rreq_table cfg now sender ifx src p st)"
  unfolding rreq_table_def
  using note_id_mono [OF table_entry_ok assms(2), of "table st" src] assms
  by (intro ids_le_update) (simp add: source_entry_ids odr_inv_def)

lemma handle_rreq_ids:
  assumes "odr_inv st" "src \<le> NODES" "dst \<le> NODES" "handle_rreq cfg now sender ifx src dst p st = Some (st', fs)"
  shows "ids_le (table st) (table st')"
    and "fs \<noteq> [] \<Longrightarrow> src \<noteq> dst \<Longrightarrow> highest_broadcast_id (table st ! dst) ! src < rreq_bid p"
    and "fs \<noteq> [] \<Longrightarrow> rreq_bid p \<le> highest_broadcast_id (table st' ! dst) ! src"
proof -
  let ?t = "rreq_table cfg now sender ifx src p st"
  have lt: "src < length (table st)" "dst < length ?t" using assms(1-3) by (simp_all add: odr_inv_def rreq_table_def)
  have e: "entry_ok (?t ! dst)" using table_entry_ok [OF rreq_table_ok(2) [OF assms(1) lt(1)]] lt(2) by blast
  note le = rreq_table_ids [OF assms(1,2), of cfg now sender ifx p]
  have "ids_le (table st) (table st')
    \<and> (fs \<noteq> [] \<longrightarrow> (src \<noteq> dst \<longrightarrow> highest_broadcast_id (table st ! dst) ! src < rreq_bid p)
        \<and> rreq_bid p \<le> highest_broadcast_id (table st' ! dst) ! src)"
    using assms(4)
  proof (cases rule: handle_rreqE)
    case (new d go)
    have d: "highest_broadcast_id d = highest_broadcast_id (note_id src (rreq_bid p) (?t ! dst))" using new(3) by auto
    have "ids_le ?t (?t[dst := d])" by (rule ids_le_update) (use note_id_mono [OF e assms(2)] d in simp)
    then have "ids_le (table st) (table st')"
      using ids_le_trans [OF le] new(4) by (simp add: rreq_table_def)
    moreover have "src \<noteq> dst \<Longrightarrow> highest_broadcast_id (table st ! dst) ! src < rreq_bid p"
      using new(2) by (simp add: rreq_table_def)
    moreover have "rreq_bid p \<le> highest_broadcast_id (table st' ! dst) ! src"
      using new(4) lt(2) note_id_reaches [OF e assms(2)] d by simp
    ultimately show ?thesis by blast
  qed (use le in simp_all)
  then show "ids_le (table st) (table st')"
    and "fs \<noteq> [] \<Longrightarrow> src \<noteq> dst \<Longrightarrow> highest_broadcast_id (table st ! dst) ! src < rreq_bid p"
    and "fs \<noteq> [] \<Longrightarrow> rreq_bid p \<le> highest_broadcast_id (table st' ! dst) ! src" by blast+
qed

lemma odr_step_ids:
  assumes "odr_inv st" "odr_step cfg st ev = Some (st', fs, apps)"
  shows "ids_le (table st) (table st')"
proof (cases ev)
  case (FromClient now path mesg)
  then have "handle_client cfg now path mesg st = Some (st', fs)" using assms(2) by auto
  then show ?thesis
  proof (rule handle_clientE)
    fix q st1 st3 d e fs3
    assume "d < length (table st)" "e = table st ! d \<or> e = (table st ! d)\<lparr>next_hop := replicate 6 0\<rparr>"
      and m: "sendMessageFromBuffer cfg now (st1\<lparr>broadcast_id := broadcast_id st + 1, table := (table st)[d := e]\<rparr>) = Some (st3, fs3)"
      and "st' = st3\<lparr>sourcePort := sourcePort st + 1\<rparr>"
    then show ?thesis using sendMessageFromBuffer_inv(2) [OF m] by (auto intro!: ids_le_update)
  qed
next
  case (FromNet now reply sender ifx p)
  then have "handle_packet cfg now reply sender ifx p st = Some (st', fs, apps)" using assms(2) by simp
  then show ?thesis
  proof (cases rule: handle_packetE)
    case (rreq src dst)
    then show ?thesis using handle_rreq_ids(1) [OF assms(1) _ _ rreq(4)] getNodeByIP_bound by blast
  next
    case (rrep src dst)
    from rrep(4) show ?thesis
      by (rule handle_rrepE) (auto simp: learn_route_def dest!: sendMessageFromBuffer_inv(2) intro!: ids_le_update)
  next
    case (app src dst)
    from app(5) show ?thesis
      by (rule handle_appE) (auto simp: learn_route_def elim!: deliver_appE
          dest!: sendMessageFromBuffer_inv(2) buffer_packet_inv(2) intro!: ids_le_update)
  qed
qed

section \<open>Flooding\<close>

text \<open>The event: a route request of node \<open>s\<close> for node \<open>d\<close> with this identifier arrives.\<close>

fun is_rreq :: "odr_config \<Rightarrow> nat \<Rightarrow> nat \<Rightarrow> int \<Rightarrow> odr_event \<Rightarrow> bool" where
  "is_rreq cfg s d bid (FromNet now reply sender ifx p) \<longleftrightarrow> ptype p = 0 \<and> rreq_bid p = bid
     \<and> getNodeByIP cfg (source_ipAddr p) = Some s \<and> getNodeByIP cfg (destination_ipAddr p) = Some d"
| "is_rreq cfg s d bid (FromClient now path mesg) = False"

lemma rreq_step:
  assumes "odr_inv st" "odr_step cfg st ev = Some (st', fs, apps)" "is_rreq cfg s d bid ev" "fs \<noteq> []" "s \<noteq> d"
  shows "highest_broadcast_id (table st ! d) ! s < bid" "bid \<le> highest_broadcast_id (table st' ! d) ! s"
proof -
  obtain now reply sender ifx p where ev: "ev = FromNet now reply sender ifx p" "ptype p = 0" "rreq_bid p = bid"
    "getNodeByIP cfg (source_ipAddr p) = Some s" "getNodeByIP cfg (destination_ipAddr p) = Some d"
    using assms(3) by (cases ev) auto
  have h: "handle_rreq cfg now sender ifx s d p st = Some (st', fs)"
    using assms(2) ev by (auto simp: handle_packet_def bind_eq_Some_conv)
  note ids = handle_rreq_ids [OF assms(1) _ _ h]
  show "highest_broadcast_id (table st ! d) ! s < bid" "bid \<le> highest_broadcast_id (table st' ! d) ! s"
    using ids(2,3) assms(4,5) ev getNodeByIP_bound by auto
qed

lemma run_no_more_floods:
  assumes "odr_run cfg st evs = Some (st', fss)" "odr_inv st" "s \<noteq> d" "d \<le> NODES" "bid \<le> highest_broadcast_id (table st ! d) ! s"
    and "i < length evs" "is_rreq cfg s d bid (evs ! i)"
  shows "fss ! i = []"
  using assms
proof (induction evs arbitrary: st fss i)
  case (Cons ev evs)
  obtain st1 fs apps fss1 where s: "odr_step cfg st ev = Some (st1, fs, apps)" "odr_run cfg st1 evs = Some (st', fss1)" "fss = fs # fss1"
    using Cons.prems(1) by (auto simp: bind_eq_Some_conv)
  show ?case
  proof (cases i)
    case 0
    then show ?thesis using rreq_step(1) [OF Cons.prems(2) s(1)] Cons.prems(3,5,7) s(3) by fastforce
  next
    case (Suc j)
    have "highest_broadcast_id (table st ! d) ! s \<le> highest_broadcast_id (table st1 ! d) ! s"
      using odr_step_ids [OF Cons.prems(2) s(1)] Cons.prems(2-4) by (simp add: ids_le_def odr_inv_def)
    then show ?thesis
      using Cons.IH [OF s(2) odr_step_inv [OF Cons.prems(2) s(1)] Cons.prems(3,4)] Cons.prems Suc s(3) by simp
  qed
qed simp

text \<open>
  C5 (a request is answered or flooded at most once).  In every run of the daemon, whatever clients and
  network do, at most one of the arrivals of a route request (same source, destination and identifier)
  makes the node send anything.  Hence every flood ends: each node forwards it at most once.
\<close>

theorem flood_at_most_once:
  assumes "odr_run cfg st evs = Some (st', fss)" and "odr_inv st" and "s \<noteq> d"
    and "i < j" and "j < length evs" and "is_rreq cfg s d bid (evs ! i)" and "is_rreq cfg s d bid (evs ! j)"
  shows "fss ! i = [] \<or> fss ! j = []"
  using assms
proof (induction evs arbitrary: st fss i j)
  case (Cons ev evs)
  obtain st1 fs apps fss1 where s: "odr_step cfg st ev = Some (st1, fs, apps)" "odr_run cfg st1 evs = Some (st', fss1)" "fss = fs # fss1"
    using Cons.prems(1) by (auto simp: bind_eq_Some_conv)
  note inv1 = odr_step_inv [OF Cons.prems(2) s(1)]
  obtain j' where j: "j = Suc j'" "j' < length evs" using Cons.prems(4,5) by (cases j) auto
  have d: "d \<le> NODES" using Cons.prems(7) by (cases "(ev # evs) ! j") (auto dest: getNodeByIP_bound)
  show ?case
  proof (cases i)
    case 0
    then have ev: "is_rreq cfg s d bid ev" using Cons.prems(6) by simp
    have "fss1 ! j' = []" if "fs \<noteq> []"
      using run_no_more_floods [OF s(2) inv1 Cons.prems(3) d rreq_step(2) [OF Cons.prems(2) s(1) ev that Cons.prems(3)] j(2)]
        Cons.prems(7) j(1) by simp
    then show ?thesis using 0 j(1) s(3) by auto
  next
    case (Suc i')
    then show ?thesis
      using Cons.IH [OF s(2) inv1 Cons.prems(3), of i' j'] Cons.prems j s(3) by simp
  qed
qed simp

text \<open>Three machines on one network, seen from the second.\<close>

definition lan :: "string \<Rightarrow> string option" where
  "lan ip = (if ip = ''10.0.0.1'' then Some ''vm1'' else if ip = ''10.0.0.2'' then Some ''vm2''
     else if ip = ''10.0.0.3'' then Some ''vm3'' else None)"

definition vm2 :: odr_config where
  "vm2 = \<lparr>hostname_of = lan, vm_name = ''vm2'', host_addr = ''10.0.0.2'', local_CanonicalIP = ''10.0.0.2'',
     interfaces = [([0, 12, 41, 0, 0, 33], 3), ([0, 12, 41, 0, 0, 43], 4)], stale_time = 20\<rparr>"

definition rreq_1_3 :: packet where
  "rreq_1_3 = \<lparr>ptype = 0, source_ipAddr = ''10.0.0.1'', source_port = 1, destination_ipAddr = ''10.0.0.3'',
     destination_port = 5678, hop_count = 0, application_msg = ''007''\<rparr>"

definition rreq_arrives :: odr_event where
  "rreq_arrives = FromNet 100 [] [0, 12, 41, 0, 0, 11] 3 rreq_1_3"

lemma vm2_floods_once:
  "map_option (\<lambda>(st, fss). map (map if_index) fss) (odr_run vm2 odr_init [rreq_arrives, rreq_arrives]) = Some [[3, 4], []]"
  by code_simp

theorem flood_at_most_once_witness:
  "\<exists>st fss. odr_run vm2 odr_init [rreq_arrives, rreq_arrives] = Some (st, fss) \<and> fss ! 0 \<noteq> [] \<and> fss ! 1 = []"
proof -
  obtain st fss where r: "odr_run vm2 odr_init [rreq_arrives, rreq_arrives] = Some (st, fss)"
    and f: "map (map if_index) fss = [[3, 4], []]"
    using vm2_floods_once by (auto simp del: odr_run.simps)
  have "fss ! 0 \<noteq> []" using f by auto
  moreover have "is_rreq vm2 1 3 7 rreq_arrives" by code_simp
  ultimately show ?thesis
    using flood_at_most_once [OF r odr_init_inv, of 1 3 0 1 7] r by auto
qed

end
