(* ===== verification/Odr_Routes.thy ===== *)
theory Odr_Routes
  imports Odr_Props Slot_Table
begin

text \<open>
  What the routing daemon sends and learns, and what becomes of the packets that wait for a route: the
  frames a route request causes, the rule for the reverse path, the second in which a route is neither
  fresh nor stale, the removal from the buffer, the release of a waiting packet by a reply, the encoding
  of identifiers, the test for an empty hardware address, and the port map.
\<close>

section \<open>Safety of the arrays\<close>

lemma odr_run_inv: "odr_run cfg st evs = Some (st', fss) \<Longrightarrow> odr_inv st \<Longrightarrow> odr_inv st'"
proof (induction evs arbitrary: st fss)
  case (Cons ev evs)
  then obtain st1 fs apps fss1 where "odr_step cfg st ev = Some (st1, fs, apps)" "odr_run cfg st1 evs = Some (st', fss1)"
    by (auto simp: bind_eq_Some_conv)
  then show ?case using Cons odr_step_inv by blast
qed simp

text \<open>
  C11 (indices stay inside the arrays).  In every run from the initial state the routing table has an entry,
  with an identifier for every node, for each node number the daemon can compute from a host name, and the
  buffer and the port map keep their sizes: no access with a node number leaves the table.
\<close>

theorem odr_arrays_safe:
  assumes "odr_run cfg odr_init evs = Some (st, fss)"
  shows "odr_inv st \<and> (\<forall>ip n. getNodeByIP cfg ip = Some n \<longrightarrow>
    n < length (table st) \<and> (\<forall>e \<in> set (table st). n < length (highest_broadcast_id e)))"
proof -
  have i: "odr_inv st" using odr_run_inv [OF assms odr_init_inv] .
  have "n < length (table st) \<and> (\<forall>e \<in> set (table st). n < length (highest_broadcast_id e))" if "getNodeByIP cfg ip = Some n" for ip n
    using i getNodeByIP_bound [OF that] by (auto simp: odr_inv_def list_all_iff entry_ok_def)
  with i show ?thesis by blast
qed

theorem odr_arrays_safe_witness:
  "\<exists>st fss. odr_run vm2 odr_init [rreq_arrives] = Some (st, fss) \<and> odr_inv st \<and> 3 < length (table st)"
proof -
  have "map_option (\<lambda>(st, fss). fss \<noteq> []) (odr_run vm2 odr_init [rreq_arrives]) = Some True" by code_simp
  then obtain st fss where r: "odr_run vm2 odr_init [rreq_arrives] = Some (st, fss)"
    by (auto simp del: odr_run.simps)
  moreover have "getNodeByIP vm2 ''10.0.0.3'' = Some 3" by code_simp
  ultimately show ?thesis using odr_arrays_safe [OF r] by blast
qed

section \<open>Frames\<close>

lemma createPF_Packet_eq:
  "createPF_Packet ty src sport dst dport hops msg = Some q \<Longrightarrow>
     q = \<lparr>ptype = ty, source_ipAddr = cstr src, source_port = sport, destination_ipAddr = cstr dst,
          destination_port = dport, hop_count = hops, application_msg = cstr msg\<rparr>"
  by (simp add: createPF_Packet_def split: if_splits)

lemma sendMessage_eq:
  "sendMessage cfg src dst ifx p = Some f \<Longrightarrow> f = \<lparr>dest_mac = dst, src_mac = src, if_index = ifx, body = p\<rparr>"
  by (auto simp: sendMessage_def bind_eq_Some_conv)

definition copied :: "packet \<Rightarrow> packet" where
  "copied p = p\<lparr>source_ipAddr := cstr (source_ipAddr p), destination_ipAddr := cstr (destination_ipAddr p),
     application_msg := cstr (application_msg p)\<rparr>"

text \<open>A broadcast is one copy of the packet on every interface in use.\<close>

lemma broadcast_on_eq:
  "broadcast_on cfg p ifs = Some fs \<Longrightarrow>
     fs = map (\<lambda>i. \<lparr>dest_mac = replicate 6 0xFF, src_mac = fst i, if_index = snd i, body = copied p\<rparr>) (filter (\<lambda>i. snd i \<noteq> -1) ifs)"
proof (induction ifs arbitrary: fs)
  case (Cons i ifs)
  show ?case
  proof (cases "snd i = -1")
    case True
    then show ?thesis using Cons by simp
  next
    case False
    then obtain q f fs' where "createPF_Packet (ptype p) (source_ipAddr p) (source_port p) (destination_ipAddr p)
        (destination_port p) (hop_count p) (application_msg p) = Some q"
      "sendMessage cfg (fst i) (replicate 6 0xFF) (snd i) q = Some f" "broadcast_on cfg p ifs = Some fs'" "fs = f # fs'"
      using Cons.prems by (auto simp: bind_eq_Some_conv)
    then show ?thesis
      using Cons.IH False by (auto dest!: createPF_Packet_eq sendMessage_eq simp: copied_def)
  qed
qed simp

lemma cstr_idem: "nul \<notin> set s \<Longrightarrow> cstr s = s"
  unfolding cstr_def by (induction s) auto

lemma copied_id: "wf_packet p \<Longrightarrow> copied p = p"
  by (simp add: copied_def wf_packet_def cstr_idem)

lemma broadcast_frames:
  assumes "broadcast cfg p = Some fs" "f \<in> set fs" "nul \<notin> set (source_ipAddr p)" "nul \<notin> set (destination_ipAddr p)"
    "nul \<notin> set (application_msg p)"
  shows "body f = p" "dest_mac f = replicate 6 0xFF"
  using assms broadcast_on_eq [of cfg p "interfaces cfg" fs]
  by (auto simp: broadcast_def copied_def cstr_idem)

lemma answer_frames:
  assumes "answer_rreq cfg back p ff go = Some fs" "f \<in> set fs" "wf_packet p"
  shows "ptype (body f) = 1 \<and> source_ipAddr (body f) = destination_ipAddr p \<and> destination_ipAddr (body f) = source_ipAddr p
      \<and> hop_count (body f) = 0 \<and> dest_mac f = next_hop back \<and> if_index f = out_interface back
    \<or> ptype (body f) = ptype p \<and> source_ipAddr (body f) = source_ipAddr p \<and> destination_ipAddr (body f) = destination_ipAddr p
      \<and> hop_count (body f) = hop_count p + 1 \<and> dest_mac f = replicate 6 0xFF"
proof -
  have wf: "nul \<notin> set (source_ipAddr p)" "nul \<notin> set (destination_ipAddr p)" "nul \<notin> set (application_msg p)"
    using assms(3) by (simp_all add: wf_packet_def)
  let ?q = "p\<lparr>hop_count := hop_count p + 1, application_msg := (application_msg p)[0 := CHR ''1'']\<rparr>"
  have n: "nul \<notin> set (application_msg ?q)"
    using wf(3) set_update_subset_insert [of "application_msg p" 0 "CHR ''1''"] by (auto simp: nul_def)
  obtain out0 mac g gs where o: "createPF_Packet 1 (destination_ipAddr p) (destination_port p) (source_ipAddr p) (source_port p) 0
      (application_msg p) = Some out0"
    and g: "sendMessage cfg mac (next_hop back) (out_interface back)
      (if ff then out0\<lparr>application_msg := (application_msg out0)[1 := CHR ''1'']\<rparr> else out0) = Some g"
    and gs: "gs = [] \<or> broadcast cfg ?q = Some gs" and fs: "fs = g # gs"
    using assms(1) by (cases go; cases ff) (auto simp: answer_rreq_def Let_def bind_eq_Some_conv)
  show ?thesis
  proof (cases "f = g")
    case True
    then show ?thesis
      using createPF_Packet_eq [OF o] sendMessage_eq [OF g] wf by (auto simp: cstr_idem)
  next
    case False
    then have f: "f \<in> set gs" using assms(2) fs by simp
    then have "broadcast cfg ?q = Some gs" using gs by auto
    from broadcast_frames [OF this f] wf n show ?thesis by auto
  qed
qed

text \<open>
  C12 (what a route request causes).  A node ignores its own requests.  Every frame another node sends
  because of a request is either the request itself, broadcast with the hop count increased by one and
  source and destination unchanged, or a reply with source and destination exchanged and hop count 0,
  sent to the next hop and over the interface that the table has for the source of the request.
\<close>

theorem rreq_frames:
  assumes "odr_inv st" and "wf_packet p" and "ptype p = 0"
    and "getNodeByIP cfg (source_ipAddr p) = Some src"
    and "handle_packet cfg now reply sender ifx p st = Some (st', fs, apps)"
  shows "(int src = curr_node cfg \<longrightarrow> st' = st \<and> fs = []) \<and> apps = []
    \<and> (\<forall>f \<in> set fs.
        ptype (body f) = 0 \<and> source_ipAddr (body f) = source_ipAddr p \<and> destination_ipAddr (body f) = destination_ipAddr p
          \<and> hop_count (body f) = hop_count p + 1 \<and> dest_mac f = replicate 6 0xFF
        \<or> ptype (body f) = 1 \<and> source_ipAddr (body f) = destination_ipAddr p \<and> destination_ipAddr (body f) = source_ipAddr p
          \<and> hop_count (body f) = 0 \<and> dest_mac f = next_hop (table st' ! src) \<and> if_index f = out_interface (table st' ! src))"
proof -
  obtain dst where h: "handle_rreq cfg now sender ifx src dst p st = Some (st', fs)" and a: "apps = []"
    using assms(3-5) by (auto simp: handle_packet_def bind_eq_Some_conv)
  have wf: "nul \<notin> set (source_ipAddr p)" "nul \<notin> set (destination_ipAddr p)" "nul \<notin> set (application_msg p)"
    using assms(2) by (simp_all add: wf_packet_def)
  from h show ?thesis
  proof (cases rule: handle_rreqE)
    case (new d go)
    have "ptype (body f) = 0 \<and> source_ipAddr (body f) = source_ipAddr p \<and> destination_ipAddr (body f) = destination_ipAddr p
          \<and> hop_count (body f) = hop_count p + 1 \<and> dest_mac f = replicate 6 0xFF
        \<or> ptype (body f) = 1 \<and> source_ipAddr (body f) = destination_ipAddr p \<and> destination_ipAddr (body f) = source_ipAddr p
          \<and> hop_count (body f) = 0 \<and> dest_mac f = next_hop (table st' ! src) \<and> if_index f = out_interface (table st' ! src)"
      if f: "f \<in> set fs" for f
      using new(5)
    proof (elim disjE exE)
      assume "fs = []"
      then show ?thesis using f by simp
    next
      assume "broadcast cfg (p\<lparr>hop_count := hop_count p + 1\<rparr>) = Some fs"
      from broadcast_frames [OF this f] wf assms(3) show ?thesis by simp
    next
      fix ff assume "answer_rreq cfg ((rreq_table cfg now sender ifx src p st)[dst := d] ! src) p ff go = Some fs"
      from answer_frames [OF this f assms(2)] new(4) assms(3) show ?thesis by auto
    qed
    then show ?thesis using new(1) a by blast
  qed (use a in auto)
qed

theorem rreq_frames_witness:
  "\<exists>st' fs. handle_packet vm2 100 [] [0, 12, 41, 0, 0, 11] 3 rreq_1_3 odr_init = Some (st', fs, []) \<and> length fs = 2
    \<and> (\<forall>f \<in> set fs. hop_count (body f) = 1 \<or> hop_count (body f) = 0)"
proof -
  have "map_option (\<lambda>(st', fs, apps). (length fs, apps)) (handle_packet vm2 100 [] [0, 12, 41, 0, 0, 11] 3 rreq_1_3 odr_init) = Some (2, [])"
    by code_simp
  then obtain st' fs where r: "handle_packet vm2 100 [] [0, 12, 41, 0, 0, 11] 3 rreq_1_3 odr_init = Some (st', fs, [])" "length fs = 2"
    by auto
  have p: "wf_packet rreq_1_3" "ptype rreq_1_3 = 0" "hop_count rreq_1_3 = 0"
    by (simp_all add: rreq_1_3_def wf_packet_def odr_sizes int32_def nul_def)
  have "getNodeByIP vm2 (source_ipAddr rreq_1_3) = Some 1" by code_simp
  from rreq_frames [OF odr_init_inv p(1,2) this r(1)] p(3) have "\<forall>f \<in> set fs. hop_count (body f) = 1 \<or> hop_count (body f) = 0"
    by fastforce
  with r show ?thesis by blast
qed

section \<open>The reverse path\<close>

text \<open>
  C13 (the reverse path).  A request of another node makes the sender of the frame the next hop to the source
  of the request exactly in these cases: no usable address was known, or the request is a new forced
  discovery, or the way is not longer and the old route's time is up.  A request of the node itself changes nothing.  So a fresh route is kept
  although the request came over a shorter way, unless the discovery is forced: the \<^verbatim>\<open>ReadMe\<close> says that
  the path is updated when a better route is found, while \<^verbatim>\<open>odr_chechung.c:722\<close> asks for both a way that is not longer and an old route.
\<close>

theorem rreq_reverse_path:
  assumes "odr_inv st" and "src \<le> NODES" and "dst \<le> NODES"
    and "handle_rreq cfg now sender ifx src dst p st = Some (st', fs)"
  shows "let e = table st ! src; e' = table st' ! src;
      route = (next_hop e', out_interface e', hops_to_dest e', e_timestamp e')
    in if int src \<noteq> curr_node cfg
        \<and> (\<not> checkAddressNotEmpty (next_hop e)
          \<or> rreq_bid p > highest_broadcast_id e ! src \<and> rreq_forced p = 1
          \<or> hop_count p + 1 \<le> hops_to_dest e \<and> e_timestamp e + stale_time cfg \<le> now)
       then route = (sender, ifx, hop_count p + 1, now)
       else route = (next_hop e, out_interface e, hops_to_dest e, e_timestamp e)"
proof (cases "int src = curr_node cfg")
  case True
  then have "st' = st" by (cases rule: handle_rreqE [OF assms(4)]) simp_all
  then show ?thesis using True by simp
next
  case False
  have lt: "src < length (table st)" using assms(1,2) by (simp add: odr_inv_def)
  have ok: "entry_ok (table st ! src)" using assms(1) lt table_entry_ok by (simp add: odr_inv_def)
  have s: "rreq_table cfg now sender ifx src p st ! src
      = source_entry cfg now sender ifx src (hop_count p + 1) (rreq_bid p) (rreq_forced p) (table st ! src)"
    using lt by (simp add: rreq_table_def)
  have "rreq_bid p \<le> highest_broadcast_id (rreq_table cfg now sender ifx src p st ! src) ! src"
    using note_id_reaches [OF ok assms(2), of "rreq_bid p"] unfolding s by (simp add: source_entry_def learn_route_def Let_def)
  then have r: "dst \<noteq> src" if "highest_broadcast_id (rreq_table cfg now sender ifx src p st ! dst) ! src < rreq_bid p"
    using that by auto
  have "table st' ! src = rreq_table cfg now sender ifx src p st ! src"
    by (cases rule: handle_rreqE [OF assms(4)]) (use False r in simp_all)
  then show ?thesis
    using False unfolding s by (auto simp: source_entry_def update_reverse_def learn_route_def note_id_def Let_def not_less not_le)
qed

text \<open>A state with a fresh route of three hops to the first node, and an old one of age 20 to the third.\<close>

definition known_routes :: odr where
  "known_routes = odr_init\<lparr>table := (table odr_init)
     [1 := zero_entry\<lparr>next_hop := [0, 12, 41, 0, 0, 77], out_interface := 4, hops_to_dest := 3, e_timestamp := 95\<rparr>,
      3 := zero_entry\<lparr>next_hop := [0, 12, 41, 0, 0, 99], out_interface := 4, hops_to_dest := 1, e_timestamp := 80\<rparr>]\<rparr>"

lemma known_routes_inv: "odr_inv known_routes"
  using odr_init_inv
  by (auto simp: odr_inv_def known_routes_def entry_ok_def zero_entry_def intro!: table_update_ok)

theorem rreq_reverse_path_witness:
  "\<exists>st' fs. handle_rreq vm2 100 [0, 12, 41, 0, 0, 11] 3 1 3 rreq_1_3 known_routes = Some (st', fs)
    \<and> hops_to_dest (table st' ! 1) = 3 \<and> next_hop (table st' ! 1) = [0, 12, 41, 0, 0, 77]"
proof -
  have "map_option (\<lambda>(st', fs). fs) (handle_rreq vm2 100 [0, 12, 41, 0, 0, 11] 3 1 3 rreq_1_3 known_routes) = Some []"
    by code_simp
  then obtain st' fs where r: "handle_rreq vm2 100 [0, 12, 41, 0, 0, 11] 3 1 3 rreq_1_3 known_routes = Some (st', fs)"
    by auto
  have c: "int 1 \<noteq> curr_node vm2" by code_simp
  have f: "rreq_forced rreq_1_3 \<noteq> 1" by code_simp
  have e: "checkAddressNotEmpty (next_hop (table known_routes ! 1))" "hops_to_dest (table known_routes ! 1) = 3"
    "next_hop (table known_routes ! 1) = [0, 12, 41, 0, 0, 77]" "e_timestamp (table known_routes ! 1) = 95" "stale_time vm2 = 20"
    by code_simp+
  show ?thesis
    using rreq_reverse_path [OF known_routes_inv _ _ r] r c f e by (auto simp: Let_def NODES_def)
qed

text \<open>
  Neither fresh nor stale.  "Fresh" is a strict comparison in both directions, so that in the second in
  which the age of the route to the destination equals the staleness a request for it is lost: the node
  takes note of its identifier, but sends neither a reply nor the request on; later copies are dropped.
\<close>

theorem rreq_lost_at_boundary:
  assumes "odr_inv st" and "src \<le> NODES" and "dst \<le> NODES" and "src \<noteq> dst" and "curr_node cfg \<noteq> int dst"
    and "checkAddressNotEmpty (next_hop (table st ! dst))" and "e_timestamp (table st ! dst) + stale_time cfg = now"
    and "handle_rreq cfg now sender ifx src dst p st = Some (st', fs)"
  shows "fs = [] \<and> (int src \<noteq> curr_node cfg \<longrightarrow> rreq_bid p \<le> highest_broadcast_id (table st' ! dst) ! src)"
proof -
  let ?t = "rreq_table cfg now sender ifx src p st"
  have t: "?t ! dst = table st ! dst" using assms(4) by (simp add: rreq_table_def)
  let ?d = "note_id src (rreq_bid p) (?t ! dst)"
  have d: "\<not> no_route cfg now ?d" "\<not> e_timestamp ?d + stale_time cfg > now"
    using assms(6,7) t by (auto simp: no_route_def note_id_def)
  have lt: "dst < length ?t" "entry_ok (?t ! dst)"
    using assms(1,3) t table_entry_ok by (auto simp: odr_inv_def rreq_table_def)
  show ?thesis
  proof (cases "int src = curr_node cfg \<or> rreq_bid p \<le> highest_broadcast_id (?t ! dst) ! src")
    case True
    then show ?thesis using assms(8) by (auto simp: handle_rreq_def Let_def split: if_splits)
  next
    case False
    then have "st' = st\<lparr>table := ?t[dst := ?d]\<rparr>" "fs = []"
      using assms(5,8) d by (auto simp: handle_rreq_def forward_rreq_def Let_def split: if_splits)
    then show ?thesis using lt note_id_reaches [OF lt(2) assms(2)] by simp
  qed
qed

theorem rreq_lost_at_boundary_witness:
  "\<exists>st' fs. handle_rreq vm2 100 [0, 12, 41, 0, 0, 11] 3 1 3 rreq_1_3 known_routes = Some (st', fs) \<and> fs = []"
proof -
  have "map_option (\<lambda>(st', fs). fs) (handle_rreq vm2 100 [0, 12, 41, 0, 0, 11] 3 1 3 rreq_1_3 known_routes) = Some []"
    by code_simp
  then obtain st' fs where r: "handle_rreq vm2 100 [0, 12, 41, 0, 0, 11] 3 1 3 rreq_1_3 known_routes = Some (st', fs)"
    by auto
  have e: "checkAddressNotEmpty (next_hop (table known_routes ! 3))" "e_timestamp (table known_routes ! 3) + stale_time vm2 = 100"
    "curr_node vm2 \<noteq> int 3" by code_simp+
  show ?thesis
    using rreq_lost_at_boundary [OF known_routes_inv _ _ _ e(3,1,2) r] r by (auto simp: NODES_def)
qed

section \<open>The waiting packets\<close>

lemma shift_down_eq:
  "i \<le> n \<Longrightarrow> n < length b \<Longrightarrow> shift_down b n i = Some (take i b @ replicate (n - i) (b ! n) @ drop n b)"
proof (induction n arbitrary: b)
  case (Suc n)
  show ?case
  proof (cases "Suc n = i")
    case True
    have "shift_down b (Suc n) (Suc n) = Some b" by simp
    with True show ?thesis by auto
  next
    case False
    let ?b = "b[n := b ! Suc n]"
    have "shift_down b (Suc n) i = shift_down ?b n i"
      using Suc.prems False by (simp add: load_def store_def)
    also have "\<dots> = Some (take i ?b @ replicate (n - i) (?b ! n) @ drop n ?b)"
      using Suc False by simp
    also have "drop n ?b = b ! Suc n # drop (Suc n) b"
      using Suc.prems(2) by (simp add: Cons_nth_drop_Suc [symmetric])
    also have "take i ?b @ replicate (n - i) (?b ! n) @ b ! Suc n # drop (Suc n) b
        = take i b @ replicate (Suc n - i) (b ! Suc n) @ drop (Suc n) b"
      using Suc.prems False by (simp add: take_update_cancel Suc_diff_le replicate_append_same)
    finally show ?thesis .
  qed
qed simp

text \<open>
  Removal from the buffer.  The loop of \<^verbatim>\<open>removeFromBuffer\<close> runs downwards, so that every slot from the removed
  one on receives the unused slot behind the last packet: all packets that stood behind the removed one are
  lost.  The result is the buffer without the packet only if it was the last one.
\<close>

theorem removeFromBuffer_effect:
  assumes "i < n" and "n < length b"
  shows "removeFromBuffer b n i = Some (take i b @ replicate (n - i) (b ! n) @ drop n b, n - 1)
    \<and> (take (n - 1) (fst (the (removeFromBuffer b n i))) = take i b @ drop (Suc i) (take n b)
        \<longleftrightarrow> (\<forall>j. i < j \<and> j < n \<longrightarrow> b ! j = b ! n))"
proof -
  let ?r = "take i b @ replicate (n - i) (b ! n) @ drop n b"
  have r: "removeFromBuffer b n i = Some (?r, n - 1)"
    using shift_down_eq [of i n b] assms by (simp add: removeFromBuffer_def)
  obtain k where k: "n = Suc (i + k)" using assms(1) less_iff_Suc_add by auto
  have "take (n - 1) ?r = take i b @ replicate (n - 1 - i) (b ! n)"
  proof -
    have "replicate (n - i) (b ! n) = replicate k (b ! n) @ [b ! n]" by (simp add: k replicate_append_same)
    then show ?thesis using assms(2) by (simp add: k min_def)
  qed
  moreover have "replicate (n - 1 - i) (b ! n) = drop (Suc i) (take n b) \<longleftrightarrow> (\<forall>j. i < j \<and> j < n \<longrightarrow> b ! j = b ! n)"
    (is "?l = ?p")
  proof -
    have "?l \<longleftrightarrow> (\<forall>k < n - 1 - i. b ! n = b ! (Suc i + k))"
      using assms by (auto simp: list_eq_iff_nth_eq)
    also have "\<dots> \<longleftrightarrow> ?p"
    proof (intro iffI allI impI)
      fix j assume a: "\<forall>k < n - 1 - i. b ! n = b ! (Suc i + k)" and j: "i < j \<and> j < n"
      then have "j - Suc i < n - 1 - i" "Suc i + (j - Suc i) = j" by linarith+
      with a show "b ! j = b ! n" by metis
    next
      fix k assume "\<forall>j. i < j \<and> j < n \<longrightarrow> b ! j = b ! n" "k < n - 1 - i"
      then show "b ! n = b ! (Suc i + k)" by auto
    qed
    finally show ?thesis .
  qed
  ultimately show ?thesis using r by simp
qed

theorem removeFromBuffer_effect_witness:
  "removeFromBuffer [rreq_1_3, example_packet, zero_packet] 2 0 = Some ([zero_packet, zero_packet, zero_packet], 1)"
  using removeFromBuffer_effect [of 0 2 "[rreq_1_3, example_packet, zero_packet]"] by (simp add: numeral_2_eq_2)

text \<open>
  C14 (a reply releases the waiting packet).  With one packet waiting for node \<open>src\<close> and no route to it, a reply
  from \<open>src\<close> that is meant for this node makes the sender of the reply the next hop, and the packet is sent
  there over the interface of the reply; the buffer is empty afterwards.
\<close>

theorem rrep_releases_packet:
  assumes "odr_inv st" and "src \<le> NODES" and "int dst = curr_node cfg" and "no_route cfg now (table st ! src)"
    and "checkAddressNotEmpty sender" and "0 < stale_time cfg" and "getMacAddrByInferFaceNum cfg ifx = Some mac"
    and "num_packets_buffered st = 1" and "q = send_buffer st ! 0" and "getNodeByIP cfg (destination_ipAddr q) = Some src"
    and "host_name cfg (source_ipAddr q) \<noteq> None" and "application_msg p \<noteq> []"
  shows "\<exists>st'. handle_rrep cfg now sender ifx src dst p st
      = Some (st', [\<lparr>dest_mac = sender, src_mac = mac, if_index = ifx, body = q\<rparr>])
    \<and> num_packets_buffered st' = 0 \<and> next_hop (table st' ! src) = sender
    \<and> hops_to_dest (table st' ! src) = hop_count p + 1"
proof -
  have lt: "src < length (table st)" "length (send_buffer st) = 100"
    using assms(1,2) by (simp_all add: odr_inv_def BUFFER_SIZE_def)
  let ?e = "(learn_route sender ifx (hop_count p + 1) now (table st ! src))\<lparr>highest_broadcast_id :=
      (highest_broadcast_id (table st ! src))[src := bid_of (take 30 (application_msg p))]\<rparr>"
  let ?st = "st\<lparr>table := (table st)[src := ?e]\<rparr>"
  let ?f = "\<lparr>dest_mac = sender, src_mac = mac, if_index = ifx, body = q\<rparr>"
  have h: "handle_rrep cfg now sender ifx src dst p st = sendMessageFromBuffer cfg now ?st"
    using assms(3,4,12) lt by (simp add: handle_rrep_def Let_def load_def)
  have d: "host_name cfg (destination_ipAddr q) \<noteq> None" using assms(10) by (auto simp: getNodeByIP_def)
  have m: "sendMessage cfg mac sender ifx q = Some ?f" using assms(11) d by (auto simp: sendMessage_def)
  have s: "\<exists>b. shift_down ((send_buffer st)[0 := swap_packet q]) 1 0 = Some b"
    using shift_down_eq [of 0 1] lt(2) by simp
  have "\<exists>b. buffer_loop cfg now ((table st)[src := ?e]) 1 0 (send_buffer st) 1 = Some (b, 0, [?f])"
    using lt assms(5-7,9,10) m s by (auto simp: load_def learn_route_def removeFromBuffer_def numeral_eq_Suc One_nat_def)
  then obtain b where "buffer_loop cfg now ((table st)[src := ?e]) 1 0 (send_buffer st) 1 = Some (b, 0, [?f])" by blast
  then have "handle_rrep cfg now sender ifx src dst p st = Some (?st\<lparr>send_buffer := b, num_packets_buffered := 0\<rparr>, [?f])"
    using h assms(8) by (simp add: sendMessageFromBuffer_def)
  then show ?thesis using lt(1) by (simp add: learn_route_def)
qed

definition rrep_3_2 :: packet where
  "rrep_3_2 = \<lparr>ptype = 1, source_ipAddr = ''10.0.0.3'', source_port = 5678, destination_ipAddr = ''10.0.0.2'',
     destination_port = 1, hop_count = 0, application_msg = ''007''\<rparr>"

definition one_waiting :: odr where
  "one_waiting = odr_init\<lparr>send_buffer := (send_buffer odr_init)[0 := rreq_1_3\<lparr>ptype := 2\<rparr>], num_packets_buffered := 1\<rparr>"

theorem rrep_releases_packet_witness:
  "\<exists>st'. handle_rrep vm2 100 [0, 12, 41, 0, 0, 99] 4 3 2 rrep_3_2 one_waiting
      = Some (st', [\<lparr>dest_mac = [0, 12, 41, 0, 0, 99], src_mac = [0, 12, 41, 0, 0, 43], if_index = 4, body = rreq_1_3\<lparr>ptype := 2\<rparr>\<rparr>])
    \<and> num_packets_buffered st' = 0 \<and> hops_to_dest (table st' ! 3) = 1"
proof -
  have i: "odr_inv one_waiting" using odr_init_inv by (simp add: odr_inv_def one_waiting_def BUFFER_SIZE_def)
  have e: "int 2 = curr_node vm2" "no_route vm2 100 (table one_waiting ! 3)" "checkAddressNotEmpty [0, 12, 41, 0, 0, 99]"
    "0 < stale_time vm2" "getMacAddrByInferFaceNum vm2 4 = Some [0, 12, 41, 0, 0, 43]" "num_packets_buffered one_waiting = 1"
    "send_buffer one_waiting ! 0 = rreq_1_3\<lparr>ptype := 2\<rparr>"
    "getNodeByIP vm2 (destination_ipAddr (rreq_1_3\<lparr>ptype := 2\<rparr>)) = Some 3"
    "host_name vm2 (source_ipAddr (rreq_1_3\<lparr>ptype := 2\<rparr>)) = Some ''vm1''" "hop_count rrep_3_2 = 0"
    "application_msg rrep_3_2 \<noteq> []"
    by code_simp+
  show ?thesis
    using rrep_releases_packet [OF i _ e(1-6) e(7) [symmetric] e(8), of rrep_3_2] e(9,10,11) by (auto simp: NODES_def)
qed

section \<open>Identifiers, addresses, ports\<close>

text \<open>
  Round trip of a request's text.  What a node writes into the text of a request (no reply sent, the flag
  for forced discovery, the identifier in decimal) is what the next node reads out of it.
\<close>

theorem rreq_msg_roundtrip:
  assumes "0 \<le> bid" and "bid < 2 ^ 31" and "0 \<le> flag" and "flag < 10"
  shows "bid_of (rreq_msg flag bid) = bid \<and> char_at (rreq_msg flag bid) 0 - 48 = 0 \<and> char_at (rreq_msg flag bid) 1 - 48 = flag"
proof -
  have "bid_of (rreq_msg flag bid) = bid" using atoi_dec [OF assms(1,2)] by (simp add: bid_of_def rreq_msg_def)
  moreover have "sint (byte_of CHR ''0'') = 48" by code_simp
  then have "char_at (rreq_msg flag bid) 0 - 48 = 0" by (simp add: char_at_def rreq_msg_def)
  moreover have "sint (word_of_int (flag + 48) :: byte) = signed_take_bit 7 (flag + 48)"
    unfolding sint_sbintrunc' by simp
  then have "sint (word_of_int (flag + 48) :: byte) = flag + 48"
    using assms(3,4) signed_take_bit_int_eq_self [of 7 "flag + 48"] by simp
  then have "char_at (rreq_msg flag bid) 1 - 48 = flag" by (simp add: char_at_def rreq_msg_def)
  ultimately show ?thesis by blast
qed

theorem rreq_msg_roundtrip_witness: "rreq_msg 1 4096 = ''014096'' \<and> bid_of ''014096'' = 4096"
proof -
  have r: "rreq_msg 1 4096 = ''014096''" by code_simp
  then show ?thesis using rreq_msg_roundtrip [of 4096 1] by simp
qed

text \<open>
  The test for an empty hardware address.  Because of the precedence of the operators only the lowest bit
  of each byte is looked at: a neighbour all of whose address bytes are even counts as no address, a route
  over it is never used, and each message for such a destination starts a new discovery.
\<close>

theorem even_mac_is_empty:
  assumes "\<forall>b \<in> set (take 6 (next_hop e)). even b"
  shows "\<not> checkAddressNotEmpty (next_hop e) \<and> no_route cfg now e \<and>
    (length tbl = NODES + 1 \<and> getNodeByIP cfg (destination_ipAddr p) = Some d \<and> tbl ! d = e \<longrightarrow>
      buffer_loop cfg now tbl 1 0 (p # rest) 1 = Some (p # rest, 1, []))"
proof -
  have n: "\<not> checkAddressNotEmpty (next_hop e)" using assms by (rule even_mac_empty)
  moreover have "buffer_loop cfg now tbl 1 0 (p # rest) 1 = Some (p # rest, 1, [])"
    if "length tbl = NODES + 1" "getNodeByIP cfg (destination_ipAddr p) = Some d" "tbl ! d = e"
    using getNodeByIP_load [OF that(2,1)] that n by (simp add: One_nat_def load_def [of "_ # _"])
  ultimately show ?thesis by (simp add: no_route_def)
qed

theorem even_mac_is_empty_witness:
  "\<not> checkAddressNotEmpty [0x02, 0x0c, 0x28, 0xda, 0xbe, 0x10]
   \<and> no_route vm2 100 (zero_entry\<lparr>next_hop := [0x02, 0x0c, 0x28, 0xda, 0xbe, 0x10], e_timestamp := 100\<rparr>)"
proof -
  let ?e = "zero_entry\<lparr>next_hop := [0x02, 0x0c, 0x28, 0xda, 0xbe, 0x10], e_timestamp := 100\<rparr>"
  have "\<forall>b \<in> set (take 6 (next_hop ?e)). even b" by (simp add: take_Cons')
  from even_mac_is_empty [OF this, of vm2 100 "[]" rreq_1_3 0 "[]"] show ?thesis by simp
qed

text \<open>The port map: used places come first.\<close>

definition map_inv :: "(int \<times> string) list \<Rightarrow> bool" where
  "map_inv m \<longleftrightarrow> (\<exists>us k. m = us @ replicate k (-1, []) \<and> (\<forall>e \<in> set us. fst e \<noteq> -1))"

definition map_free :: "(int \<times> string) list \<Rightarrow> nat" where
  "map_free m = length (filter (\<lambda>e. fst e = -1) m)"

lemma map_inv_parts:
  assumes "map_inv m" "0 < map_free m"
  obtains us k where "m = us @ replicate (Suc k) (-1, [])" "\<forall>e \<in> set us. fst e \<noteq> -1" "map_free m = Suc k"
    "addMap port path m = us @ (port, path) # replicate k (-1, [])"
proof -
  obtain us k where m: "m = us @ replicate k (-1, [])" and us: "\<forall>e \<in> set us. fst e \<noteq> -1"
    using assms(1) by (auto simp: map_inv_def)
  have f: "map_free m = k" using us by (simp add: m map_free_def filter_False)
  then obtain k' where k: "k = Suc k'" using assms(2) by (cases k) auto
  have "find_index (\<lambda>e. fst e = -1) us = None" using us by (simp add: find_index_None)
  then have "addMap port path m = us @ (port, path) # replicate k' (-1, [])"
    by (simp add: addMap_def m k find_index_append)
  then show thesis using that m us f k by blast
qed

lemma searchMap_append:
  "searchMap j (xs @ ys) = (case searchMap j xs of Some p \<Rightarrow> Some p | None \<Rightarrow> searchMap j ys)"
  by (auto simp: searchMap_def find_index_append nth_append option.map_comp comp_def dest: find_index_bound split: option.splits)

lemma searchMap_Cons: "searchMap j ((port, path) # m) = (if j = port then Some path else searchMap j m)"
  by (auto simp: searchMap_def option.map_comp comp_def)

lemma searchMap_free: "j \<noteq> -1 \<Longrightarrow> searchMap j (replicate k (-1, [])) = None"
  by (simp add: searchMap_def find_index_None)

interpretation ports: slot_table addMap searchMap map_free "\<lambda>port. port \<noteq> -1" map_inv
proof
  fix m k v j
  assume m: "map_inv m" "0 < map_free m" and k: "k \<noteq> (-1::int)"
  obtain us n where p: "m = us @ replicate (Suc n) (-1, [])" "\<forall>e \<in> set us. fst e \<noteq> -1" "map_free m = Suc n"
    "addMap k v m = us @ (k, v) # replicate n (-1, [])"
    using map_inv_parts [OF m] by blast
  have u: "\<forall>e \<in> set (us @ [(k, v)]). fst e \<noteq> -1" "addMap k v m = (us @ [(k, v)]) @ replicate n (-1, [])"
    using p(2,4) k by simp_all
  then show "map_inv (addMap k v m)" unfolding map_inv_def by blast
  show "map_free (addMap k v m) = map_free m - 1"
    using u by (simp add: map_free_def filter_False p(3) del: append_assoc) (use p(3) in \<open>simp add: map_free_def\<close>)
  show "searchMap j (addMap k v m) = (case searchMap j m of Some x \<Rightarrow> Some x | None \<Rightarrow> if j = k then Some v else None)"
    if "j \<noteq> -1"
    using that unfolding p(4) unfolding p(1) by (simp add: searchMap_append searchMap_Cons searchMap_free split: option.splits del: replicate_Suc)
qed

lemma addMap_full: "map_free m = 0 \<Longrightarrow> addMap port path m = m"
proof -
  assume "map_free m = 0"
  then have "find_index (\<lambda>e. fst e = -1) m = None" by (auto simp: find_index_None map_free_def filter_empty_conv)
  then show ?thesis by (simp add: addMap_def)
qed

lemma initialMap_facts:
  "map_inv initialMap" "map_free initialMap = MAP_SIZE" "j \<noteq> -1 \<Longrightarrow> searchMap j initialMap = None"
proof -
  show "map_inv initialMap" unfolding map_inv_def initialMap_def by (intro exI [of _ "[]"]) auto
qed (simp_all add: initialMap_def map_free_def searchMap_free)

text \<open>The local clients of a run, in the order of their messages, and the ports they get.\<close>

fun client_paths :: "odr_event list \<Rightarrow> string list" where
  "client_paths [] = []"
| "client_paths (FromClient now path mesg # evs) = path # client_paths evs"
| "client_paths (FromNet now reply sender ifindex p # evs) = client_paths evs"

definition port_list :: "string list \<Rightarrow> (int \<times> string) list" where
  "port_list paths = zip (map (\<lambda>i. int i + 1) [0..<length paths]) paths"

lemma length_port_list [simp]: "length (port_list paths) = length paths"
  by (simp add: port_list_def)

lemma port_list_snoc: "port_list (paths @ [path]) = port_list paths @ [(int (length paths) + 1, path)]"
  by (simp add: port_list_def)

lemma port_list_keys: "map fst (port_list paths) = map (\<lambda>i. int i + 1) [0..<length paths]"
  by (simp add: port_list_def)

lemma port_list_in: "i < length paths \<Longrightarrow> (int i + 1, paths ! i) \<in> set (port_list paths)"
  by (auto simp: port_list_def in_set_zip intro!: exI [of _ i])

lemma map_of_port_list: "j < 1 \<or> int (length paths) < j \<Longrightarrow> map_of (port_list paths) j = None"
  by (auto simp: map_of_eq_None_iff port_list_def dest!: set_zip_leftD)

definition ports_hold :: "string list \<Rightarrow> odr \<Rightarrow> bool" where
  "ports_hold paths st \<longleftrightarrow> sourcePort st = int (length paths) + 1
     \<and> MapArray st = ports.adds (port_list (take MAP_SIZE paths)) initialMap"

lemma ports_adds_found:
  assumes "length paths \<le> MAP_SIZE"
  shows "i < length paths \<Longrightarrow> searchMap (int i + 1) (ports.adds (port_list paths) initialMap) = Some (paths ! i)"
    and "j \<noteq> -1 \<Longrightarrow> j < 1 \<or> int (length paths) < j \<Longrightarrow> searchMap j (ports.adds (port_list paths) initialMap) = None"
    and "map_free (ports.adds (port_list paths) initialMap) = MAP_SIZE - length paths"
proof -
  have k: "\<forall>kv \<in> set (port_list paths). fst kv \<noteq> -1" by (auto simp: port_list_def dest!: set_zip_leftD)
  have dist: "distinct (map fst (port_list paths))" by (simp add: port_list_keys distinct_map inj_on_def)
  note init = initialMap_facts
  show "searchMap (int i + 1) (ports.adds (port_list paths) initialMap) = Some (paths ! i)" if "i < length paths"
    using ports.distinct_keys_found [OF init(1) _ _ dist port_list_in [OF that]] k init(2,3) assms by simp
  show "searchMap j (ports.adds (port_list paths) initialMap) = None" if "j \<noteq> -1" "j < 1 \<or> int (length paths) < j"
    using ports.search_adds(1) [OF init(1) k that(1)] init(2,3) assms map_of_port_list [OF that(2)] that(1) by simp
  show "map_free (ports.adds (port_list paths) initialMap) = MAP_SIZE - length paths"
    using ports.search_adds(2) [OF init(1) k, of 1] init(2) assms by simp
qed

lemma ports_hold_client:
  assumes "ports_hold paths st" "sourcePort st' = sourcePort st + 1"
    and "MapArray st' = addMap (sourcePort st) path (MapArray st)"
  shows "ports_hold (paths @ [path]) st'"
proof (cases "length paths < MAP_SIZE")
  case True
  then show ?thesis using assms by (simp add: ports_hold_def port_list_snoc ports.adds_def)
next
  case False
  then have "map_free (MapArray st) = 0"
    using assms(1) ports_adds_found(3) [of "take MAP_SIZE paths"] by (simp add: ports_hold_def)
  then show ?thesis using assms False by (simp add: ports_hold_def addMap_full)
qed

lemma buffer_packet_ports: "buffer_packet p st = Some st' \<Longrightarrow> sourcePort st' = sourcePort st \<and> MapArray st' = MapArray st"
  by (auto simp: buffer_packet_def bind_eq_Some_conv)

lemma send_buffered_ports:
  "sendMessageFromBuffer cfg now st = Some (st', fs) \<Longrightarrow> sourcePort st' = sourcePort st \<and> MapArray st' = MapArray st"
  using sendMessageFromBuffer_inv(3,5) by blast

lemma handle_packet_ports:
  assumes "handle_packet cfg now reply sender ifx p st = Some (st', fs, apps)"
  shows "sourcePort st' = sourcePort st \<and> MapArray st' = MapArray st"
  using assms
proof (cases rule: handle_packetE)
  case (rreq src dst)
  from rreq(4) show ?thesis by (cases rule: handle_rreqE) auto
next
  case (rrep src dst)
  from rrep(4) show ?thesis by (rule handle_rrepE) (auto dest!: send_buffered_ports)
next
  case (app src dst)
  from app(5) show ?thesis
    by (rule handle_appE)
      (auto elim!: deliver_appE dest!: buffer_packet_ports send_buffered_ports)
qed

lemma handle_client_ports:
  assumes "handle_client cfg now path mesg st = Some (st', fs)"
  shows "sourcePort st' = sourcePort st + 1 \<and> MapArray st' = addMap (sourcePort st) path (MapArray st)"
  using assms
  by (rule handle_clientE) (auto dest!: send_buffered_ports buffer_packet_ports)

lemma odr_run_ports:
  "odr_run cfg st evs = Some (st', fss) \<Longrightarrow> ports_hold paths st \<Longrightarrow> ports_hold (paths @ client_paths evs) st'"
proof (induction evs arbitrary: st paths fss)
  case (Cons ev evs)
  from Cons.prems(1) obtain st1 fs apps fss' where s: "odr_step cfg st ev = Some (st1, fs, apps)"
    and r: "odr_run cfg st1 evs = Some (st', fss')" by (auto simp: bind_eq_Some_conv)
  show ?case
  proof (cases ev)
    case (FromClient now path mesg)
    then have "ports_hold (paths @ [path]) st1"
      using s handle_client_ports by (auto intro!: ports_hold_client [OF Cons.prems(2)] dest: handle_client_ports)
    from Cons.IH [OF r this] show ?thesis using FromClient by simp
  next
    case (FromNet now reply sender ifx p)
    then have "ports_hold paths st1" using s Cons.prems(2) handle_packet_ports by (fastforce simp: ports_hold_def)
    from Cons.IH [OF r this] show ?thesis using FromNet by simp
  qed
qed simp

text \<open>
  C39 (the port map).  In every run of the daemon the clients are numbered from 1 in the order of their
  messages, and the port of each of the first \<^verbatim>\<open>MAP_SIZE\<close> leads to the socket path of its client for ever.
  No later message is entered: a packet for such a port makes the daemon copy from a null pointer.
\<close>

theorem port_map:
  assumes "odr_run cfg odr_init evs = Some (st, fss)"
  shows "sourcePort st = int (length (client_paths evs)) + 1
    \<and> (\<forall>i < min (length (client_paths evs)) MAP_SIZE. searchMap (int i + 1) (MapArray st) = Some (client_paths evs ! i))
    \<and> (\<forall>port > int MAP_SIZE. searchMap port (MapArray st) = None)
    \<and> (int dst = curr_node cfg \<and> application_msg p \<noteq> ''request time'' \<and> destination_port p > int MAP_SIZE
        \<longrightarrow> deliver_app cfg reply dst p st = None)"
proof -
  let ?ps = "take MAP_SIZE (client_paths evs)"
  have "ports_hold [] odr_init" by (simp add: ports_hold_def odr_init_def port_list_def)
  from odr_run_ports [OF assms this] have h: "sourcePort st = int (length (client_paths evs)) + 1"
    "MapArray st = ports.adds (port_list ?ps) initialMap" by (simp_all add: ports_hold_def)
  have l: "length ?ps \<le> MAP_SIZE" by simp
  have "searchMap (int i + 1) (MapArray st) = Some (client_paths evs ! i)" if "i < min (length (client_paths evs)) MAP_SIZE" for i
    using that ports_adds_found(1) [OF l, of i] by (simp add: h(2))
  moreover have "searchMap port (MapArray st) = None" if "port > int MAP_SIZE" for port
    using that ports_adds_found(2) [OF l, of port] by (simp add: h(2))
  ultimately show ?thesis using h(1) by (simp add: deliver_app_def)
qed

definition two_clients :: "odr_event list" where
  "two_clients = [FromClient 100 ''/tmp/a'' ''10.0.0.3;147;0;request time'', FromClient 101 ''/tmp/b'' ''10.0.0.3;147;0;request time'']"

theorem port_map_witness:
  "\<exists>st fss. odr_run vm2 odr_init two_clients = Some (st, fss) \<and> sourcePort st = 3
     \<and> searchMap 1 (MapArray st) = Some ''/tmp/a'' \<and> searchMap 2 (MapArray st) = Some ''/tmp/b''"
proof -
  have "odr_run vm2 odr_init two_clients \<noteq> None" by code_simp
  then obtain st fss where r: "odr_run vm2 odr_init two_clients = Some (st, fss)" by auto
  from port_map [OF r, of 0 rreq_1_3] have "sourcePort st = 3"
    "\<forall>i < 2. searchMap (int i + 1) (MapArray st) = Some (client_paths two_clients ! i)"
    by (simp_all add: two_clients_def MAP_SIZE_def)
  from this(1) this(2) [rule_format, of 0] this(2) [rule_format, of 1] show ?thesis using r by (simp add: two_clients_def)
qed

end
