(* ===== verification/Odr_Apps.thy ===== *)
theory Odr_Apps
  imports Odr_Props
begin

text \<open>
  The programs around the routing daemon (\<^verbatim>\<open>function.c\<close>, \<^verbatim>\<open>client_chechung.c\<close>, \<^verbatim>\<open>server_chechung.c\<close>): the client that
  asks a node for its time, the time server, and the texts they exchange with the daemon.  A datagram is
  read into an array that is not terminated by the code, so that the text goes on with what the array held
  before, \<open>old\<close>.  The time is the text that \<^verbatim>\<open>ctime\<close> gives.
\<close>

definition DEST_PORT :: int where "DEST_PORT = 5678"

section \<open>Texts\<close>

definition msg_send :: "string \<Rightarrow> int \<Rightarrow> string \<Rightarrow> int \<Rightarrow> string" where
  "msg_send dest_address dest_port msg flag = dest_address @ '';'' @ dec dest_port @ '';'' @ dec flag @ '';'' @ msg"

text \<open>What the daemon hands to the time server.\<close>

definition server_text :: "packet \<Rightarrow> string" where
  "server_text p = source_ipAddr p @ '';'' @ dec (source_port p) @ '';'' @ application_msg p"

text \<open>The time server: the first branch of \<^verbatim>\<open>msg_recv\<close>.\<close>

definition time_server :: "odr_config \<Rightarrow> string \<Rightarrow> string \<Rightarrow> string \<Rightarrow> string option" where
  "time_server cfg old ctime mesg =
     (let text = cstr (mesg @ old)
      in if 100 \<le> length text then None
         else case strtok (CHR '';'') [] text of
           source_addr # sourcePortStr # _ \<Rightarrow>
             do {
               _ \<leftarrow> host_name cfg source_addr;
               Some (msg_send2 [] 147 (take 24 ctime @ [CHR 0x0D, CHR 0x0A]) 0)
             }
         | _ \<Rightarrow> None)"

text \<open>The text the client prints; \<open>Some None\<close> is a message without a fourth part.\<close>

definition printReceivingMsg :: "string \<Rightarrow> string option option" where
  "printReceivingMsg recvline =
     (case strtok (CHR '';'') [] (cstr recvline) of
        dest_addr # sourcePortStr # flagStr # source_msg # _ \<Rightarrow> Some (Some source_msg)
      | dest_addr # sourcePortStr # _ \<Rightarrow> Some None
      | _ \<Rightarrow> None)"

section \<open>The client\<close>

datatype receipt = Received string string | TimedOut | Failed

datatype client_result = Printed "string option" | Unreachable | Gave_Up | Exited | Crashed

definition show_receipt :: "string \<Rightarrow> string \<Rightarrow> client_result" where
  "show_receipt bytes old = (case printReceivingMsg (bytes @ old) of None \<Rightarrow> Crashed | Some m \<Rightarrow> Printed m)"

text \<open>One pass of its loop: what it sends to the daemon and how it ends, for the outcomes of the two calls of \<^verbatim>\<open>recvfrom\<close>.\<close>

fun client_round :: "string \<Rightarrow> int \<Rightarrow> receipt \<Rightarrow> receipt \<Rightarrow> string list \<times> client_result" where
  "client_round dest flag (Received bytes old) r2 = ([msg_send dest DEST_PORT ''request time'' flag], show_receipt bytes old)"
| "client_round dest flag Failed r2 = ([msg_send dest DEST_PORT ''request time'' flag], Exited)"
| "client_round dest flag TimedOut r2 =
     ([msg_send dest DEST_PORT ''request time'' flag, msg_send dest DEST_PORT ''request time'' 1],
      case r2 of Received bytes old \<Rightarrow> show_receipt bytes old | TimedOut \<Rightarrow> Unreachable | Failed \<Rightarrow> Gave_Up)"

text \<open>
  \<^verbatim>\<open>main\<close> of the client: for each name and flag the user enters, the last address of the name is asked.  \<^verbatim>\<open>gethostbyname\<close> is
  a parameter; an unknown name is used through a null pointer, and a failing \<^verbatim>\<open>recvfrom\<close> ends the program.
\<close>

record entry =
  vmName :: string
  e_flag :: int
  first_receipt :: receipt
  second_receipt :: receipt

fun client_loop :: "(string \<Rightarrow> string list option) \<Rightarrow> entry list \<Rightarrow> (string list \<times> client_result) list" where
  "client_loop byname [] = []"
| "client_loop byname (x # xs) =
     (case byname (vmName x) of
        None \<Rightarrow> [([], Crashed)]
      | Some [] \<Rightarrow> [([], Crashed)]
      | Some (a # as) \<Rightarrow>
          (let r = client_round (last (a # as)) (e_flag x) (first_receipt x) (second_receipt x)
           in if snd r = Exited \<or> snd r = Crashed then [r] else r # client_loop byname xs))"

text \<open>\<^verbatim>\<open>main\<close> of the time server: one answer for each datagram of its daemon; a crash ends it.\<close>

fun server_loop :: "odr_config \<Rightarrow> (string \<times> string \<times> string) list \<Rightarrow> string option list" where
  "server_loop cfg [] = []"
| "server_loop cfg ((mesg, old, ctime) # ds) =
     (case time_server cfg old ctime mesg of None \<Rightarrow> [None] | Some reply \<Rightarrow> Some reply # server_loop cfg ds)"

section \<open>Facts\<close>

text \<open>The client asks every node it is told to, as long as names are known and answers can be read.\<close>

lemma client_loop_all:
  assumes "\<forall>x \<in> set xs. \<exists>as. byname (vmName x) = Some as \<and> as \<noteq> []
    \<and> snd (client_round (last as) (e_flag x) (first_receipt x) (second_receipt x)) \<notin> {Exited, Crashed}"
  shows "client_loop byname xs
    = map (\<lambda>x. client_round (last (the (byname (vmName x)))) (e_flag x) (first_receipt x) (second_receipt x)) xs"
  using assms
proof (induction xs)
  case (Cons x xs)
  then obtain as where "byname (vmName x) = Some as" "as \<noteq> []"
    "snd (client_round (last as) (e_flag x) (first_receipt x) (second_receipt x)) \<notin> {Exited, Crashed}" by auto
  then show ?case using Cons by (cases as) (auto simp: Let_def)
qed simp

lemma server_loop_all:
  "list_all2 (\<lambda>(mesg, old, ctime) r. time_server cfg old ctime mesg = Some r) ds rs \<Longrightarrow> server_loop cfg ds = map Some rs"
  by (induction ds rs rule: list_all2_induct) auto

lemma strtok_token:
  "sep \<notin> set s \<Longrightarrow> strtok sep cur (s @ sep # rest) = (if rev cur @ s = [] then strtok sep [] rest else (rev cur @ s) # strtok sep [] rest)"
  by (induction s arbitrary: cur) auto

lemma strtok_last: "sep \<notin> set s \<Longrightarrow> strtok sep cur s = (if rev cur @ s = [] then [] else [rev cur @ s])"
  by (induction s arbitrary: cur) auto

lemma strtok_first: "s \<noteq> [] \<Longrightarrow> sep \<notin> set s \<Longrightarrow> strtok sep [] (s @ sep # rest) = s # strtok sep [] rest"
  by (simp add: strtok_token)

lemma strtok_prefix:
  assumes "s \<noteq> []" "sep \<notin> set s"
  shows "\<exists>ts. strtok sep [] (s @ old) = (s @ takeWhile (\<lambda>c. c \<noteq> sep) old) # ts"
proof (cases "sep \<in> set old")
  case True
  then obtain ys rest where o: "old = ys @ sep # rest" "sep \<notin> set ys" using split_list_first by metis
  have "takeWhile (\<lambda>c. c \<noteq> sep) (ys @ sep # rest) = ys" using o(2) by (subst takeWhile_append2) auto
  moreover have "strtok sep [] ((s @ ys) @ sep # rest) = (s @ ys) # strtok sep [] rest"
    using assms o(2) by (intro strtok_first) auto
  ultimately show ?thesis using o(1) by simp
next
  case False
  then have t: "takeWhile (\<lambda>c. c \<noteq> sep) old = old" by (subst takeWhile_eq_all_conv) blast
  show ?thesis unfolding t using strtok_last [of sep "s @ old" "[]"] assms False by simp
qed

lemma dec_no_semicolon: "CHR '';'' \<notin> set (dec n)"
proof
  assume "CHR '';'' \<in> set (dec n)"
  moreover have "\<not> is_digit CHR '';''" by (simp add: is_digit_def)
  ultimately show False using dec_nat_digits by (auto simp: dec_def split: if_splits)
qed

lemma parse_client_send:
  assumes "addr \<noteq> []" "CHR '';'' \<notin> set addr" "msg \<noteq> []" "CHR '';'' \<notin> set msg" "length (msg_send addr port msg flag) < 100"
    and "0 \<le> port" "port < 2 ^ 31" "0 \<le> flag" "flag < 2 ^ 31"
  shows "parse_client (msg_send addr port msg flag) = Some (addr, port, flag, msg)"
proof -
  have "strtok (CHR '';'') [] (msg_send addr port msg flag) = [addr, dec port, dec flag, msg]"
    using assms(1-4) dec_no_semicolon strtok_last [of _ msg "[]"] by (simp add: msg_send_def strtok_first)
  then show ?thesis using assms(5-9) by (simp add: parse_client_def atoi_dec_plain)
qed

definition tail_text :: "string \<Rightarrow> string" where
  "tail_text old = takeWhile (\<lambda>c. c \<noteq> CHR '';'') (cstr old)"

lemma print_reply:
  assumes "addr \<noteq> []" "CHR '';'' \<notin> set addr" "nul \<notin> set addr" "msg \<noteq> []" "CHR '';'' \<notin> set msg" "nul \<notin> set msg" "port \<noteq> 147"
  shows "printReceivingMsg (msg_send2 addr port msg flag @ old) = Some (Some (msg @ tail_text old))"
proof -
  let ?s = "addr @ CHR '';'' # dec port @ CHR '';'' # dec flag @ CHR '';'' # msg"
  have "nul \<notin> set ?s" using assms(3,6) nul_not_dec by (auto simp: nul_def)
  then have c: "cstr (msg_send2 addr port msg flag @ old) = ?s @ cstr old"
    using assms(7) cstr_append [of ?s old] by (simp add: msg_send2_def)
  obtain ts where "strtok (CHR '';'') [] (msg @ cstr old) = (msg @ tail_text old) # ts"
    using strtok_prefix [OF assms(4,5), of "cstr old"] by (auto simp: tail_text_def)
  then have "strtok (CHR '';'') [] (?s @ cstr old) = addr # dec port # dec flag # (msg @ tail_text old) # ts"
    using assms(1,2) dec_no_semicolon by (simp add: strtok_first)
  then show ?thesis unfolding printReceivingMsg_def c by simp
qed

lemma dec_length: "0 \<le> n \<Longrightarrow> n < 2 ^ 31 \<Longrightarrow> length (dec n) \<le> 10"
  using dec_nat_length [of "nat n" 10] by (simp add: dec_def nat_less_iff)

lemma time_server_reply:
  assumes "source_ipAddr p \<noteq> []" "CHR '';'' \<notin> set (source_ipAddr p)" "nul \<notin> set (source_ipAddr p)" "length (source_ipAddr p) < 20"
    and "application_msg p = ''request time''" "host_name cfg (source_ipAddr p) \<noteq> None" "0 \<le> source_port p" "source_port p < 2 ^ 31"
  shows "time_server cfg (nul # old) ctime (server_text p) = Some (take 24 ctime @ [CHR 0x0D, CHR 0x0A])"
proof -
  have "nul \<notin> set (server_text p)" using assms(3,5) nul_not_dec by (auto simp: server_text_def nul_def)
  then have c: "cstr (server_text p @ nul # old) = server_text p" by (simp add: cstr_append) (simp add: cstr_def)
  have "length (server_text p) < 100" using assms(4,5) dec_length [OF assms(7,8)] by (simp add: server_text_def)
  moreover have "strtok (CHR '';'') [] (server_text p) = [source_ipAddr p, dec (source_port p), ''request time'']"
    using assms(1,2,5) dec_no_semicolon strtok_last [of "CHR '';''" "''request time''" "[]"]
    by (simp add: server_text_def strtok_first)
  ultimately show ?thesis using assms(6) by (auto simp: time_server_def c msg_send2_def)
qed

section \<open>Properties\<close>

text \<open>
  A time request and its answer.  The daemon reads out of a client's request what the client wrote into it;
  the time server, given the text the daemon composes from the packet, answers with the first 24
  characters of the time and a line end; and the client prints the answer that its daemon passes on,
  followed by what its array held behind the datagram up to a semicolon or zero (nothing only if the array
  happened to hold a zero there).
\<close>

theorem time_request_answered:
  assumes "addr \<noteq> []" and "CHR '';'' \<notin> set addr" and "nul \<notin> set addr" and "length addr < 20" and "0 \<le> flag" and "flag < 10"
    and "source_ipAddr p = addr" and "application_msg p = ''request time''" and "host_name cfg addr \<noteq> None"
    and "0 \<le> source_port p" and "source_port p < 2 ^ 31" and "CHR '';'' \<notin> set ctime" and "nul \<notin> set ctime" and "port \<noteq> 147"
  shows "parse_client (msg_send addr DEST_PORT ''request time'' flag) = Some (addr, DEST_PORT, flag, ''request time'')
    \<and> time_server cfg (nul # old) ctime (server_text p) = Some (take 24 ctime @ [CHR 0x0D, CHR 0x0A])
    \<and> printReceivingMsg (msg_send2 addr port (take 24 ctime @ [CHR 0x0D, CHR 0x0A]) f @ old)
        = Some (Some ((take 24 ctime @ [CHR 0x0D, CHR 0x0A]) @ tail_text old))"
proof -
  note d = dec_length
  have "length (msg_send addr DEST_PORT ''request time'' flag) < 100"
    using d [of flag] d [of DEST_PORT] assms(4-6) by (simp add: msg_send_def DEST_PORT_def)
  then have "parse_client (msg_send addr DEST_PORT ''request time'' flag) = Some (addr, DEST_PORT, flag, ''request time'')"
    using assms(1,2,5,6) by (intro parse_client_send) (auto simp: DEST_PORT_def)
  moreover have "time_server cfg (nul # old) ctime (server_text p) = Some (take 24 ctime @ [CHR 0x0D, CHR 0x0A])"
    using assms(1-4,7-11) by (intro time_server_reply) auto
  moreover have "printReceivingMsg (msg_send2 addr port (take 24 ctime @ [CHR 0x0D, CHR 0x0A]) f @ old)
      = Some (Some ((take 24 ctime @ [CHR 0x0D, CHR 0x0A]) @ tail_text old))"
    using assms(1-3,12-14) by (intro print_reply) (auto simp: nul_def dest: in_set_takeD)
  ultimately show ?thesis by blast
qed

theorem time_request_answered_witness:
  "parse_client (msg_send ''10.0.0.1'' DEST_PORT ''request time'' 1) = Some (''10.0.0.1'', DEST_PORT, 1, ''request time'')
   \<and> printReceivingMsg (msg_send2 ''10.0.0.1'' 5678 (''Wed Jun 30 21:49:08 1993'' @ [CHR 0x0D, CHR 0x0A]) 53 @ ''xy;'')
     = Some (Some (''Wed Jun 30 21:49:08 1993'' @ [CHR 0x0D, CHR 0x0A] @ ''xy''))"
proof -
  have "host_name vm2 ''10.0.0.1'' \<noteq> None" "tail_text ''xy;'' = ''xy''" by code_simp+
  then show ?thesis
    using time_request_answered [of "''10.0.0.1''" 1 "zero_packet\<lparr>source_ipAddr := ''10.0.0.1'', application_msg := ''request time''\<rparr>" vm2
        "''Wed Jun 30 21:49:08 1993''" 5678 "''xy;''" 53]
    by (simp add: nul_def zero_packet_def)
qed

end
