(* ===== verification/Odr_Chain.thy ===== *)
theory Odr_Chain
  imports Odr_Routes Odr_Apps
begin

text \<open>
  Routing daemons in a row: a message is handed from daemon to daemon as the bytes of a frame.  The theory
  follows one time request through the whole protocol, from the first node over any number of nodes to the
  last and back: the flooding of the route request, the reply that travels back along the reverse path, the
  request itself, and the answer.  The locale \<open>hop_by_hop\<close> states what one node has to do with a message so
  that a row of nodes hands it on; each of the three kinds of packet is an interpretation.
\<close>

section \<open>Nodes in a row\<close>

record node =
  cfg :: odr_config
  left_if :: int
  left_mac :: mac
  right_if :: int
  right_mac :: mac
  clk :: "nat \<Rightarrow> int"

definition flip :: "node \<Rightarrow> node" where
  "flip n = n\<lparr>left_if := right_if n, left_mac := right_mac n, right_if := left_if n, right_mac := left_mac n\<rparr>"

definition turn :: "(node \<times> odr) list \<Rightarrow> (node \<times> odr) list" where
  "turn c = rev (map (map_prod flip id) c)"

text \<open>
  What arrives over a link: the first frame that was sent on the interface, if it is a broadcast or carries
  the receiver's address, as bytes.
\<close>

definition carried :: "memory \<Rightarrow> byte list \<Rightarrow> mac \<Rightarrow> int \<Rightarrow> frame list \<Rightarrow> (mac \<times> packet) option" where
  "carried junk beyond receiver ifx fs =
     (case find (\<lambda>f. if_index f = ifx) fs of
        None \<Rightarrow> None
      | Some f \<Rightarrow> if dest_mac f = replicate 6 0xFF \<or> dest_mac f = receiver then receivePacket (frame_bytes junk beyond f) else None)"

text \<open>
  The first node has sent \<open>fs\<close>; each of the others takes what arrives from its left neighbour in pass \<open>k\<close> of its
  loop.  The result has the new states, and what the last node has sent and handed to its clients.
\<close>

fun onward :: "memory \<Rightarrow> byte list \<Rightarrow> string \<Rightarrow> nat \<Rightarrow> (node \<times> odr) list \<Rightarrow> frame list \<Rightarrow> (string \<times> string) list
    \<Rightarrow> ((node \<times> odr) list \<times> frame list \<times> (string \<times> string) list) option" where
  "onward junk beyond reply k [] fs apps = None"
| "onward junk beyond reply k [x] fs apps = Some ([x], fs, apps)"
| "onward junk beyond reply k (x # (n, s) # rest) fs apps =
     do {
       (sender, p) \<leftarrow> carried junk beyond (left_mac n) (right_if (fst x)) fs;
       (s', fs', apps') \<leftarrow> handle_packet (cfg n) (clk n k) reply sender (left_if n) p s;
       (c, out, as) \<leftarrow> onward junk beyond reply k ((n, s') # rest) fs' apps';
       Some (x # c, out, as)
     }"

text \<open>The whole conversation between a client of the first node and the time server of the last one.\<close>

definition conversation :: "memory \<Rightarrow> byte list \<Rightarrow> string \<Rightarrow> string \<Rightarrow> string \<Rightarrow> (node \<times> odr) list
    \<Rightarrow> ((node \<times> odr) list \<times> frame list \<times> (string \<times> string) list) option" where
  "conversation junk beyond reply path mesg c =
     (case c of
        [] \<Rightarrow> None
      | (n, s) # rest \<Rightarrow>
          do {
            (s', fs) \<leftarrow> handle_client (cfg n) (clk n 0) path mesg s;
            (c1, fs1, _) \<leftarrow> onward junk beyond reply 1 ((n, s') # rest) fs [];
            (c2, fs2, _) \<leftarrow> onward junk beyond reply 2 (turn c1) fs1 [];
            (c3, fs3, _) \<leftarrow> onward junk beyond reply 3 (turn c2) fs2 [];
            onward junk beyond reply 4 (turn c3) fs3 []
          })"

lemma flip_flip [simp]: "flip (flip n) = n"
  by (simp add: flip_def)

lemma flip_simps [simp]:
  "cfg (flip n) = cfg n" "clk (flip n) = clk n" "left_if (flip n) = right_if n" "left_mac (flip n) = right_mac n"
  "right_if (flip n) = left_if n" "right_mac (flip n) = left_mac n"
  by (simp_all add: flip_def)

lemma turn_simps [simp]: "turn (turn c) = c" "turn (c @ d) = turn d @ turn c" "turn [] = []" "turn [(n, s)] = [(flip n, s)]"
  "length (turn c) = length c"
  by (simp_all add: turn_def rev_map map_prod_def case_prod_beta comp_def)

lemma turn_Cons: "turn ((n, s) # c) = turn c @ [(flip n, s)]"
  by (simp add: turn_def)

lemma set_turn: "x \<in> set (turn c) \<longleftrightarrow> (flip (fst x), snd x) \<in> set c"
proof
  assume "x \<in> set (turn c)"
  then show "(flip (fst x), snd x) \<in> set c" by (auto simp: turn_def)
next
  assume "(flip (fst x), snd x) \<in> set c"
  then have "map_prod flip id (flip (fst x), snd x) \<in> map_prod flip id ` set c" by (rule imageI)
  then show "x \<in> set (turn c)" by (simp add: turn_def)
qed

lemma successively_turn:
  "successively P (turn c) \<longleftrightarrow> successively (\<lambda>(n, s) (n', s'). P (flip n', s') (flip n, s)) c"
  by (simp add: turn_def successively_map case_prod_beta map_prod_def)

lemma onward_snoc:
  "c \<noteq> [] \<Longrightarrow> onward junk beyond reply k (c @ [(n, s)]) fs apps =
     do {
       (c', out, as) \<leftarrow> onward junk beyond reply k c fs apps;
       (sender, p) \<leftarrow> carried junk beyond (left_mac n) (right_if (fst (last c))) out;
       (s', fs', apps') \<leftarrow> handle_packet (cfg n) (clk n k) reply sender (left_if n) p s;
       Some (c' @ [(n, s')], fs', apps')
     }"
proof (induction junk beyond reply k c fs apps rule: onward.induct)
  case (2 junk beyond reply k x fs apps)
  then show ?case
    by (cases x) (auto split: Option.bind_split)
next
  case (3 junk beyond reply k x n' s' rest fs apps)
  show ?case
    using 3 by (auto split: Option.bind_split prod.splits)
qed simp

section \<open>One hop\<close>

locale hop_by_hop =
  fixes junk :: memory
    and beyond :: "byte list"
    and reply :: string
    and k :: nat
    and emits :: "node \<Rightarrow> odr \<Rightarrow> frame list \<Rightarrow> int \<Rightarrow> bool"
    and next_to :: "node \<Rightarrow> odr \<Rightarrow> node \<Rightarrow> bool"
    and ready :: "node \<Rightarrow> odr \<Rightarrow> bool"
    and passed :: "node \<Rightarrow> node \<Rightarrow> odr \<Rightarrow> bool"
  assumes hop: "emits n s fs h \<Longrightarrow> next_to n s n' \<Longrightarrow> ready n' s' \<Longrightarrow> 0 \<le> h \<Longrightarrow> h + 1 < 2 ^ 31 \<Longrightarrow>
      \<exists>sender p s'' fs'. carried junk beyond (left_mac n') (right_if n) fs = Some (sender, p)
        \<and> handle_packet (cfg n') (clk n' k) reply sender (left_if n') p s' = Some (s'', fs', [])
        \<and> emits n' s'' fs' (h + 1) \<and> passed n n' s'' \<and> (\<forall>m. next_to n' s' m \<longrightarrow> next_to n' s'' m)"
begin

lemma row:
  assumes "emits n s fs h" and "0 \<le> h" and "h + int (length mids) < 2 ^ 31"
    and "successively (\<lambda>(n, s) (n', s'). next_to n s n') ((n, s) # mids)" and "\<forall>(n', s') \<in> set mids. ready n' s'"
  shows "\<exists>mids' out apps'. onward junk beyond reply k ((n, s) # mids) fs [] = Some ((n, s) # mids', out, apps')
    \<and> map fst mids' = map fst mids
    \<and> successively (\<lambda>(n, s) (n', s'). passed n n' s') ((n, s) # mids')
    \<and> (case last ((n, s) # mids') of (m, t) \<Rightarrow> emits m t out (h + int (length mids)) \<and> (\<forall>z. next_to m (snd (last ((n, s) # mids))) z \<longrightarrow> next_to m t z))"
  using assms
proof (induction mids arbitrary: n s fs h)
  case Nil
  then show ?case by simp
next
  case (Cons x mids)
  obtain n' s' where x: "x = (n', s')" by (cases x)
  have "next_to n s n'" "ready n' s'" "h + 1 < 2 ^ 31" using Cons.prems(3-5) by (simp_all add: x)
  from hop [OF Cons.prems(1) this(1,2) Cons.prems(2) this(3)] obtain sender p s'' fs' where
    c: "carried junk beyond (left_mac n') (right_if n) fs = Some (sender, p)"
    and h: "handle_packet (cfg n') (clk n' k) reply sender (left_if n') p s' = Some (s'', fs', [])"
    and e: "emits n' s'' fs' (h + 1)" and p: "passed n n' s''" and nx: "\<forall>m. next_to n' s' m \<longrightarrow> next_to n' s'' m"
    by blast
  have "successively (\<lambda>(n, s) (n', s'). next_to n s n') ((n', s'') # mids)"
    using Cons.prems(4) nx by (cases mids) (auto simp: x)
  from Cons.IH [OF e _ _ this] Cons.prems(2,3,5) obtain mids' out apps' where
    ih: "onward junk beyond reply k ((n', s'') # mids) fs' [] = Some ((n', s'') # mids', out, apps')"
      "map fst mids' = map fst mids" "successively (\<lambda>(n, s) (n', s'). passed n n' s') ((n', s'') # mids')"
    and l: "case last ((n', s'') # mids') of (m, t) \<Rightarrow> emits m t out (h + 1 + int (length mids))
      \<and> (\<forall>z. next_to m (snd (last ((n', s'') # mids))) z \<longrightarrow> next_to m t z)"
    by (auto simp: x add.assoc)
  have "mids' = [] \<longleftrightarrow> mids = []" using ih(2) by auto
  then have "case last ((n, s) # (n', s'') # mids') of (m, t) \<Rightarrow> emits m t out (h + int (length (x # mids)))
      \<and> (\<forall>z. next_to m (snd (last ((n, s) # x # mids))) z \<longrightarrow> next_to m t z)"
    using l nx by (auto simp: x algebra_simps split: if_splits)
  then show ?case
    using c h ih p by (intro exI [of _ "(n', s'') # mids'"] exI [of _ out] exI [of _ apps']) (simp add: x)
qed
text \<open>The same with a last node that does something else with the message.\<close>

lemma row_then:
  assumes e: "emits n s fs h" and h: "0 \<le> h" "h + int (length mids) + 1 < 2 ^ 31"
    and nx: "successively (\<lambda>(n, s) (n', s'). next_to n s n') ((n, s) # mids @ [(m, t)])" and r: "\<forall>(n', s') \<in> set mids. ready n' s'"
    and last: "\<And>n' s' fs h. emits n' s' fs h \<Longrightarrow> next_to n' s' m \<Longrightarrow> 0 \<le> h \<Longrightarrow> h + 1 < 2 ^ 31 \<Longrightarrow>
      \<exists>sender p t' out apps. carried junk beyond (left_mac m) (right_if n') fs = Some (sender, p)
        \<and> handle_packet (cfg m) (clk m k) reply sender (left_if m) p t = Some (t', out, apps) \<and> Q n' t' out apps"
  obtains mids' t' out apps where "onward junk beyond reply k ((n, s) # mids @ [(m, t)]) fs [] = Some ((n, s) # mids' @ [(m, t')], out, apps)"
    "map fst mids' = map fst mids" "successively (\<lambda>(n, s) (n', s'). passed n n' s') ((n, s) # mids')"
    "Q (fst (last ((n, s) # mids'))) t' out apps"
proof -
  have nx1: "successively (\<lambda>(n, s) (n', s'). next_to n s n') ((n, s) # mids)"
    and nx2: "case last ((n, s) # mids) of (n', s') \<Rightarrow> next_to n' s' m"
    using nx successively_append_iff [of "\<lambda>(n, s) (n', s'). next_to n s n'" "(n, s) # mids" "[(m, t)]"] by (auto split: prod.splits)
  obtain mids' out apps' where o: "onward junk beyond reply k ((n, s) # mids) fs [] = Some ((n, s) # mids', out, apps')"
    and f: "map fst mids' = map fst mids" and p: "successively (\<lambda>(n, s) (n', s'). passed n n' s') ((n, s) # mids')"
    and l: "case last ((n, s) # mids') of (m, t) \<Rightarrow> emits m t out (h + int (length mids))
      \<and> (\<forall>z. next_to m (snd (last ((n, s) # mids))) z \<longrightarrow> next_to m t z)"
    using row [OF e h(1) _ nx1 r] h(2) by auto
  have "map fst ((n, s) # mids') = map fst ((n, s) # mids)" using f by simp
  then have "last (map fst ((n, s) # mids')) = last (map fst ((n, s) # mids))" by (simp only:)
  then have fl: "fst (last ((n, s) # mids')) = fst (last ((n, s) # mids))" by (subst (asm) (1 2) last_map) auto
  obtain n' s' where n': "last ((n, s) # mids') = (n', s')" by fastforce
  have "emits n' s' out (h + int (length mids))" "next_to n' s' m"
    using l nx2 fl unfolding n' by (auto split: prod.splits)
  from last [OF this] h obtain sender q t' out' apps where
    c: "carried junk beyond (left_mac m) (right_if n') out = Some (sender, q)"
    and hp: "handle_packet (cfg m) (clk m k) reply sender (left_if m) q t = Some (t', out', apps)" and Q: "Q n' t' out' apps"
    by auto
  have "right_if (fst (last ((n, s) # mids))) = right_if n'" using fl n' by (metis fst_conv)
  then have "onward junk beyond reply k (((n, s) # mids) @ [(m, t)]) fs [] = Some ((n, s) # mids' @ [(m, t')], out', apps)"
    using c hp by (subst onward_snoc) (simp_all only: o, simp_all)
  then show thesis using that f p Q n' by simp
qed

end

section \<open>The packets of a conversation\<close>

record session =
  s_ip :: string
  d_ip :: string
  s_node :: nat
  d_node :: nat
  s_port :: int
  s_flag :: int
  s_bid :: int
  s_reply :: string

definition session_ok :: "session \<Rightarrow> bool" where
  "session_ok x \<longleftrightarrow> length (s_ip x) < IPAddr_SIZE \<and> length (d_ip x) < IPAddr_SIZE \<and> nul \<notin> set (s_ip x) \<and> nul \<notin> set (d_ip x)
     \<and> s_node x \<noteq> d_node x \<and> 0 \<le> s_port x \<and> s_port x < 2 ^ 31 \<and> s_flag x \<in> {0, 1} \<and> 0 \<le> s_bid x \<and> s_bid x < 2 ^ 31
     \<and> s_reply x \<noteq> [] \<and> s_reply x \<noteq> ''request time'' \<and> nul \<notin> set (s_reply x) \<and> length (s_reply x) < DATA_SIZE"

definition rreq :: "session \<Rightarrow> int \<Rightarrow> packet" where
  "rreq x h = \<lparr>ptype = 0, source_ipAddr = s_ip x, source_port = s_port x, destination_ipAddr = d_ip x,
     destination_port = DEST_PORT, hop_count = h, application_msg = rreq_msg (s_flag x) (s_bid x)\<rparr>"

definition rrep :: "session \<Rightarrow> int \<Rightarrow> packet" where
  "rrep x h = \<lparr>ptype = 1, source_ipAddr = d_ip x, source_port = DEST_PORT, destination_ipAddr = s_ip x,
     destination_port = s_port x, hop_count = h, application_msg = rreq_msg (s_flag x) (s_bid x)\<rparr>"

definition ask :: "session \<Rightarrow> int \<Rightarrow> packet" where
  "ask x h = \<lparr>ptype = 2, source_ipAddr = s_ip x, source_port = s_port x, destination_ipAddr = d_ip x,
     destination_port = DEST_PORT, hop_count = h, application_msg = ''request time''\<rparr>"

definition answer :: "session \<Rightarrow> int \<Rightarrow> packet" where
  "answer x h = \<lparr>ptype = 2, source_ipAddr = d_ip x, source_port = DEST_PORT, destination_ipAddr = s_ip x,
     destination_port = s_port x, hop_count = h, application_msg = s_reply x\<rparr>"

lemmas packet_defs = rreq_def rrep_def ask_def answer_def

lemma rreq_msg_facts:
  assumes "session_ok x"
  shows "bid_of (rreq_msg (s_flag x) (s_bid x)) = s_bid x" "char_at (rreq_msg (s_flag x) (s_bid x)) 0 = 48"
    "char_at (rreq_msg (s_flag x) (s_bid x)) (Suc 0) = 48 + s_flag x" "nul \<notin> set (rreq_msg (s_flag x) (s_bid x))"
    "length (rreq_msg (s_flag x) (s_bid x)) < 30" "rreq_msg (s_flag x) (s_bid x) \<noteq> []"
    "s_flag x = 1 \<Longrightarrow> (rreq_msg (s_flag x) (s_bid x))[Suc 0 := CHR ''1''] = rreq_msg (s_flag x) (s_bid x)"
proof -
  have b: "0 \<le> s_bid x" "s_bid x < 2 ^ 31" "s_flag x = 0 \<or> s_flag x = 1" using assms by (auto simp: session_ok_def)
  have f: "0 \<le> s_flag x" "s_flag x < 10" using b(3) by auto
  note r = rreq_msg_roundtrip [OF b(1,2) f]
  from r show "bid_of (rreq_msg (s_flag x) (s_bid x)) = s_bid x" "char_at (rreq_msg (s_flag x) (s_bid x)) 0 = 48"
    "char_at (rreq_msg (s_flag x) (s_bid x)) (Suc 0) = 48 + s_flag x" by (simp_all add: One_nat_def)
  have c: "char_of_byte (word_of_int (1 + 48)) = CHR ''1''" "char_of_byte (word_of_int (0 + 48)) = CHR ''0''" by code_simp+
  then show "nul \<notin> set (rreq_msg (s_flag x) (s_bid x))" using b(3) nul_not_dec by (auto simp: rreq_msg_def nul_def)
  have "length (dec (s_bid x)) \<le> 10" using dec_nat_length [of "nat (s_bid x)" 10] b by (simp add: dec_def nat_less_iff)
  then show "length (rreq_msg (s_flag x) (s_bid x)) < 30" by (simp add: rreq_msg_def)
  show "rreq_msg (s_flag x) (s_bid x) \<noteq> []" by (simp add: rreq_msg_def)
  show "(rreq_msg (s_flag x) (s_bid x))[Suc 0 := CHR ''1''] = rreq_msg (s_flag x) (s_bid x)" if "s_flag x = 1"
    using c that by (simp add: rreq_msg_def)
qed

lemma packets_wf:
  assumes "session_ok x" "0 \<le> h" "h < 2 ^ 31"
  shows "wf_packet (rreq x h)" "wf_packet (rrep x h)" "wf_packet (ask x h)" "wf_packet (answer x h)"
  using assms rreq_msg_facts(4,5) [OF assms(1)]
  by (simp_all add: wf_packet_def packet_defs session_ok_def int32_def DEST_PORT_def DATA_SIZE_def nul_def)

section \<open>Nodes of a conversation\<close>

definition side :: "odr_config \<Rightarrow> int \<Rightarrow> mac \<Rightarrow> bool" where
  "side c ifx m \<longleftrightarrow> ifx \<noteq> -1 \<and> getMacAddrByInferFaceNum c ifx = Some m \<and> length m = 6 \<and> checkAddressNotEmpty m"

definition node_ok :: "session \<Rightarrow> node \<Rightarrow> bool" where
  "node_ok x n \<longleftrightarrow> getNodeByIP (cfg n) (s_ip x) = Some (s_node x) \<and> getNodeByIP (cfg n) (d_ip x) = Some (d_node x)
     \<and> (\<forall>i j. clk n i < clk n j + stale_time (cfg n))"

definition idle :: "odr \<Rightarrow> bool" where
  "idle s \<longleftrightarrow> odr_inv s \<and> num_packets_buffered s = 0"

definition unknown :: "nat \<Rightarrow> odr \<Rightarrow> bool" where
  "unknown i s \<longleftrightarrow> \<not> checkAddressNotEmpty (next_hop (table s ! i))"

text \<open>A fresh route over an interface; the next hop is kept apart, since it belongs to two nodes.\<close>

definition route :: "nat \<Rightarrow> int \<Rightarrow> node \<Rightarrow> odr \<Rightarrow> bool" where
  "route i ifx n s \<longleftrightarrow> out_interface (table s ! i) = ifx \<and> (\<exists>j. e_timestamp (table s ! i) = clk n j)
     \<and> checkAddressNotEmpty (next_hop (table s ! i))"

lemma node_ok_facts:
  assumes "node_ok x n"
  shows "getNodeByIP (cfg n) (s_ip x) = Some (s_node x)" "getNodeByIP (cfg n) (d_ip x) = Some (d_node x)"
    "s_node x \<le> NODES" "d_node x \<le> NODES" "host_name (cfg n) (s_ip x) \<noteq> None" "host_name (cfg n) (d_ip x) \<noteq> None"
    "clk n i < clk n j + stale_time (cfg n)" "0 < stale_time (cfg n)"
proof -
  show "getNodeByIP (cfg n) (s_ip x) = Some (s_node x)" "getNodeByIP (cfg n) (d_ip x) = Some (d_node x)"
    and c: "clk n i < clk n j + stale_time (cfg n)" for i j using assms by (simp_all add: node_ok_def)
  then show "s_node x \<le> NODES" "d_node x \<le> NODES" "host_name (cfg n) (s_ip x) \<noteq> None" "host_name (cfg n) (d_ip x) \<noteq> None"
    by (auto simp: getNodeByIP_bound) (auto simp: getNodeByIP_def)
  show "0 < stale_time (cfg n)" using c [of 0 0] by simp
qed

lemma sendMessage_ok:
  "host_name c (source_ipAddr p) \<noteq> None \<Longrightarrow> host_name c (destination_ipAddr p) \<noteq> None \<Longrightarrow>
    sendMessage c m d ifx p = Some \<lparr>dest_mac = d, src_mac = m, if_index = ifx, body = p\<rparr>"
  by (auto simp: sendMessage_def)

lemma createPF_Packet_ok:
  "wf_packet \<lparr>ptype = ty, source_ipAddr = a, source_port = ap, destination_ipAddr = b, destination_port = bp, hop_count = h, application_msg = m\<rparr> \<Longrightarrow>
    createPF_Packet ty a ap b bp h m = Some \<lparr>ptype = ty, source_ipAddr = a, source_port = ap, destination_ipAddr = b,
      destination_port = bp, hop_count = h, application_msg = m\<rparr>"
  by (simp add: createPF_Packet_def wf_packet_def cstr_idem)

lemma carried_unicast:
  assumes "wf_packet p" "length d = 6" "length m = 6"
  shows "carried junk beyond d ifx (\<lparr>dest_mac = d, src_mac = m, if_index = ifx, body = p\<rparr> # fs) = Some (m, p)"
  using frame_received [of "\<lparr>dest_mac = d, src_mac = m, if_index = ifx, body = p\<rparr>" junk beyond] assms
  by (simp add: carried_def)

lemma find_interface:
  "find_index (\<lambda>i. snd i = ifx) ifs = Some q \<Longrightarrow> ifx \<noteq> -1 \<Longrightarrow>
    find (\<lambda>f. if_index f = ifx) (map (\<lambda>i. \<lparr>dest_mac = d, src_mac = fst i, if_index = snd i, body = p\<rparr>) (filter (\<lambda>i. snd i \<noteq> -1) ifs))
      = Some \<lparr>dest_mac = d, src_mac = fst (ifs ! q), if_index = ifx, body = p\<rparr>"
  by (induction ifs arbitrary: q) (auto split: if_splits)

lemma broadcast_ok:
  assumes "wf_packet p" "host_name c (source_ipAddr p) \<noteq> None" "host_name c (destination_ipAddr p) \<noteq> None"
  obtains fs where "broadcast c p = Some fs"
    "fs = map (\<lambda>i. \<lparr>dest_mac = replicate 6 0xFF, src_mac = fst i, if_index = snd i, body = p\<rparr>) (filter (\<lambda>i. snd i \<noteq> -1) (interfaces c))"
proof -
  have "createPF_Packet (ptype p) (source_ipAddr p) (source_port p) (destination_ipAddr p) (destination_port p) (hop_count p) (application_msg p) = Some p"
    using assms(1) by (cases p) (simp add: createPF_Packet_ok)
  then have "\<exists>fs. broadcast_on c p ifs = Some fs" for ifs
    by (induction ifs) (auto simp: sendMessage_ok [OF assms(2,3)])
  then obtain fs where "broadcast c p = Some fs" by (auto simp: broadcast_def)
  then show thesis using that broadcast_on_eq [of c p "interfaces c" fs] copied_id [OF assms(1)] by (simp add: broadcast_def)
qed

lemma carried_broadcast:
  assumes "wf_packet p" "side c ifx m"
  shows "carried junk beyond d ifx (map (\<lambda>i. \<lparr>dest_mac = replicate 6 0xFF, src_mac = fst i, if_index = snd i, body = p\<rparr>)
      (filter (\<lambda>i. snd i \<noteq> -1) (interfaces c))) = Some (m, p)"
proof -
  obtain q where q: "find_index (\<lambda>i. snd i = ifx) (interfaces c) = Some q" "fst (interfaces c ! q) = m"
    using assms(2) by (auto simp: side_def getMacAddrByInferFaceNum_def)
  let ?f = "\<lparr>dest_mac = replicate 6 0xFF, src_mac = m, if_index = ifx, body = p\<rparr>"
  have "receivePacket (frame_bytes junk beyond ?f) = Some (m, p)"
    using frame_received [of ?f junk beyond] assms by (simp add: side_def)
  then show ?thesis using find_interface [OF q(1)] assms(2) by (simp add: carried_def side_def q(2))
qed

section \<open>What a node does with each packet\<close>

definition flood :: "odr_config \<Rightarrow> packet \<Rightarrow> frame list" where
  "flood c p = map (\<lambda>i. \<lparr>dest_mac = replicate 6 0xFF, src_mac = fst i, if_index = snd i, body = p\<rparr>)
     (filter (\<lambda>i. snd i \<noteq> -1) (interfaces c))"

lemma broadcast_flood:
  assumes "wf_packet p" "host_name c (source_ipAddr p) \<noteq> None" "host_name c (destination_ipAddr p) \<noteq> None"
  shows "broadcast c p = Some (flood c p)"
proof -
  obtain fs where "broadcast c p = Some fs" "fs = flood c p" using broadcast_ok [OF assms] unfolding flood_def by blast
  then show ?thesis by simp
qed

lemma carried_flood: "wf_packet p \<Longrightarrow> side c ifx m \<Longrightarrow> carried junk beyond d ifx (flood c p) = Some (m, p)"
  unfolding flood_def by (rule carried_broadcast)

lemma handle_packet_inv:
  "odr_inv s \<Longrightarrow> handle_packet c t reply sender ifx p s = Some (s', fs, apps) \<Longrightarrow> odr_inv s'"
  using odr_step_inv [of s c "FromNet t reply sender ifx p" s' fs apps] by simp

lemma handle_packet_rreq:
  assumes "node_ok x n" "side (cfg n) ifx m" "idle s"
  shows "handle_packet (cfg n) t reply sender ifx (rreq x h) s =
    map_option (\<lambda>(s', fs). (s', fs, [])) (handle_rreq (cfg n) t sender ifx (s_node x) (d_node x) (rreq x h) s)"
  using assms getNodeByIP_load [OF node_ok_facts(1) [OF assms(1)], of "table s"] node_ok_facts(1,2) [OF assms(1)]
  by (simp add: handle_packet_def side_def rreq_def idle_def odr_inv_def)

text \<open>The table of a node that did not know the source.\<close>

lemma rreq_table_new:
  assumes "node_ok x n" "idle s" "unknown (s_node x) s" "checkAddressNotEmpty sender" "session_ok x"
  shows "rreq_table (cfg n) t sender ifx (s_node x) (rreq x h) s ! d_node x = table s ! d_node x"
    "next_hop (rreq_table (cfg n) t sender ifx (s_node x) (rreq x h) s ! s_node x) = sender"
    "out_interface (rreq_table (cfg n) t sender ifx (s_node x) (rreq x h) s ! s_node x) = ifx"
    "e_timestamp (rreq_table (cfg n) t sender ifx (s_node x) (rreq x h) s ! s_node x) = t"
    "length (rreq_table (cfg n) t sender ifx (s_node x) (rreq x h) s) = NODES + 1"
  using assms node_ok_facts(3,4) [OF assms(1)]
  by (simp_all add: rreq_table_def source_entry_def update_reverse_def unknown_def Let_def learn_route_def idle_def odr_inv_def session_ok_def)

lemma rreq_hop:
  assumes x: "session_ok x" and n: "node_ok x n" and l: "side (cfg n) (left_if n) m"
    and c: "curr_node (cfg n) \<noteq> int (s_node x)" "curr_node (cfg n) \<noteq> int (d_node x)"
    and s: "idle s" "unknown (s_node x) s" "unknown (d_node x) s" "highest_broadcast_id (table s ! d_node x) ! s_node x < s_bid x"
    and a: "checkAddressNotEmpty sender" and h: "0 \<le> h" "h + 1 < 2 ^ 31"
  obtains s' where "handle_packet (cfg n) (clk n k) reply sender (left_if n) (rreq x h) s = Some (s', flood (cfg n) (rreq x (h + 1)), [])"
    "idle s'" "route (s_node x) (left_if n) n s'" "next_hop (table s' ! s_node x) = sender" "unknown (d_node x) s'"
proof -
  let ?t = "rreq_table (cfg n) (clk n k) sender (left_if n) (s_node x) (rreq x h) s"
  let ?d = "note_id (s_node x) (s_bid x) (table s ! d_node x)"
  let ?s = "s\<lparr>table := ?t[d_node x := ?d]\<rparr>"
  note t = rreq_table_new [OF n s(1,2) a x, where t = "clk n k" and ifx = "left_if n" and h = h]
  note m = rreq_msg_facts [OF x]
  have nr: "no_route (cfg n) (clk n k) ?d" using s(3) by (simp add: no_route_def note_id_def unknown_def)
  have w: "wf_packet (rreq x (h + 1))" using packets_wf(1) [OF x] h by simp
  have "broadcast (cfg n) (rreq x (h + 1)) = Some (flood (cfg n) (rreq x (h + 1)))"
    using broadcast_flood [OF w] node_ok_facts(5,6) [OF n] by (simp add: rreq_def)
  moreover have "(rreq x h)\<lparr>hop_count := hop_count (rreq x h) + 1\<rparr> = rreq x (h + 1)" by (simp add: rreq_def)
  ultimately have "handle_rreq (cfg n) (clk n k) sender (left_if n) (s_node x) (d_node x) (rreq x h) s
      = Some (?s, flood (cfg n) (rreq x (h + 1)))"
    using c s(1,4) t(1) nr m(1,5,6) node_ok_facts(3,4) [OF n]
    by (simp add: handle_rreq_def forward_rreq_def Let_def rreq_def idle_def odr_inv_def)
  then have p: "handle_packet (cfg n) (clk n k) reply sender (left_if n) (rreq x h) s = Some (?s, flood (cfg n) (rreq x (h + 1)), [])"
    using handle_packet_rreq [OF n l s(1)] by simp
  have "idle ?s" using handle_packet_inv [OF _ p] s(1) by (simp add: idle_def)
  moreover have "s_node x \<noteq> d_node x" "s_node x \<le> NODES" "d_node x \<le> NODES"
    using x node_ok_facts(3,4) [OF n] by (simp_all add: session_ok_def)
  then have "route (s_node x) (left_if n) n ?s" "next_hop (table ?s ! s_node x) = sender" "unknown (d_node x) ?s"
    using t(2-5) a s(3) by (auto simp: route_def unknown_def note_id_def)
  ultimately show thesis using that p by blast
qed

lemma rreq_end:
  assumes x: "session_ok x" and n: "node_ok x n" and l: "side (cfg n) (left_if n) m" and c: "curr_node (cfg n) = int (d_node x)"
    and s: "idle s" "unknown (s_node x) s" "highest_broadcast_id (table s ! d_node x) ! s_node x < s_bid x"
    and a: "checkAddressNotEmpty sender" and h: "0 \<le> h" "h + 1 < 2 ^ 31"
  obtains s' fs where "handle_packet (cfg n) (clk n k) reply sender (left_if n) (rreq x h) s
      = Some (s', \<lparr>dest_mac = sender, src_mac = m, if_index = left_if n, body = rrep x 0\<rparr> # fs, [])"
    "idle s'" "route (s_node x) (left_if n) n s'" "next_hop (table s' ! s_node x) = sender"
proof -
  let ?t = "rreq_table (cfg n) (clk n k) sender (left_if n) (s_node x) (rreq x h) s"
  let ?d = "note_id (s_node x) (s_bid x) (table s ! d_node x)"
  let ?s = "s\<lparr>table := ?t[d_node x := ?d]\<rparr>"
  let ?q = "(rreq x h)\<lparr>hop_count := h + 1, application_msg := (rreq_msg (s_flag x) (s_bid x))[0 := CHR ''1'']\<rparr>"
  note t = rreq_table_new [OF n s(1,2) a x, where t = "clk n k" and ifx = "left_if n" and h = h]
  note m = rreq_msg_facts [OF x]
  note hosts = node_ok_facts(5,6) [OF n]
  have sd: "s_node x \<noteq> d_node x" "s_node x \<le> NODES" "d_node x \<le> NODES"
    using x node_ok_facts(3,4) [OF n] by (simp_all add: session_ok_def)
  have "wf_packet ?q"
    using packets_wf(1) [OF x, of "h + 1"] h set_update_subset_insert [of "rreq_msg (s_flag x) (s_bid x)" 0 "CHR ''1''"]
    by (auto simp: wf_packet_def rreq_def nul_def)
  then have q: "broadcast (cfg n) ?q = Some (flood (cfg n) ?q)" using broadcast_flood hosts by (simp add: rreq_def)
  have r: "createPF_Packet 1 (d_ip x) DEST_PORT (s_ip x) (s_port x) 0 (rreq_msg (s_flag x) (s_bid x)) = Some (rrep x 0)"
    using packets_wf(2) [OF x, of 0] unfolding rrep_def by (intro createPF_Packet_ok) simp
  have f: "sendMessage (cfg n) m sender (left_if n) (rrep x 0)
      = Some \<lparr>dest_mac = sender, src_mac = m, if_index = left_if n, body = rrep x 0\<rparr>"
    using hosts by (intro sendMessage_ok) (simp_all add: rrep_def)
  have u: "(rrep x 0)\<lparr>application_msg := (rreq_msg (s_flag x) (s_bid x))[Suc 0 := CHR ''1'']\<rparr> = rrep x 0" if "s_flag x = 1"
    using m(7) [OF that] by (simp add: rrep_def)
  have e: "(?t[d_node x := ?d]) ! s_node x = ?t ! s_node x" using sd(1) by simp
  have "answer_rreq (cfg n) ((?t[d_node x := ?d]) ! s_node x) (rreq x h) (char_at (rreq_msg (s_flag x) (s_bid x)) 1 - 48 = 1) True
      = Some (\<lparr>dest_mac = sender, src_mac = m, if_index = left_if n, body = rrep x 0\<rparr> # flood (cfg n) ?q)"
    using r f q u l t(2,3) m(3) unfolding e
    by (simp add: answer_rreq_def Let_def side_def rreq_def [of x h] rrep_def [of x 0, THEN arg_cong [of _ _ application_msg]])
  then have "handle_rreq (cfg n) (clk n k) sender (left_if n) (s_node x) (d_node x) (rreq x h) s
      = Some (?s, \<lparr>dest_mac = sender, src_mac = m, if_index = left_if n, body = rrep x 0\<rparr> # flood (cfg n) ?q)"
    using c s t(1) m(1,2,5,6) sd
    by (simp add: handle_rreq_def forward_rreq_def Let_def rreq_def idle_def odr_inv_def unknown_def One_nat_def)
  then have p: "handle_packet (cfg n) (clk n k) reply sender (left_if n) (rreq x h) s
      = Some (?s, \<lparr>dest_mac = sender, src_mac = m, if_index = left_if n, body = rrep x 0\<rparr> # flood (cfg n) ?q, [])"
    using handle_packet_rreq [OF n l s(1)] by simp
  have "idle ?s" using handle_packet_inv [OF _ p] s(1) by (simp add: idle_def)
  moreover have "route (s_node x) (left_if n) n ?s" "next_hop (table ?s ! s_node x) = sender"
    using t(2-5) a sd by (auto simp: route_def)
  ultimately show thesis using that p by blast
qed

lemma send_one:
  assumes "odr_inv s" "num_packets_buffered s = 1" "send_buffer s ! 0 = q" "getNodeByIP (cfg n) (destination_ipAddr q) = Some j"
    "route j ifx n s" "side (cfg n) ifx m" "host_name (cfg n) (source_ipAddr q) \<noteq> None" "\<And>i j. clk n i < clk n j + stale_time (cfg n)"
  obtains b where "sendMessageFromBuffer (cfg n) (clk n k) s = Some (s\<lparr>send_buffer := b, num_packets_buffered := 0\<rparr>,
      [\<lparr>dest_mac = next_hop (table s ! j), src_mac = m, if_index = ifx, body = q\<rparr>])" "length b = BUFFER_SIZE"
proof -
  have l: "load (table s) j = Some (table s ! j)" using getNodeByIP_load(1) [OF assms(4), of "table s"] assms(1) by (simp add: odr_inv_def)
  have b: "length (send_buffer s) = 100" "load (send_buffer s) 0 = Some q"
    using assms(1,3) by (simp_all add: odr_inv_def BUFFER_SIZE_def load_def)
  have h: "host_name (cfg n) (destination_ipAddr q) \<noteq> None" using assms(4) by (auto simp: getNodeByIP_def)
  have f: "sendMessage (cfg n) m (next_hop (table s ! j)) ifx q
      = Some \<lparr>dest_mac = next_hop (table s ! j), src_mac = m, if_index = ifx, body = q\<rparr>"
    using assms(7) h by (rule sendMessage_ok)
  obtain b' where r: "removeFromBuffer ((send_buffer s)[0 := swap_packet q]) 1 0 = Some (b', 0)" "length b' = 100"
    using shift_down_eq [of 0 1 "(send_buffer s)[0 := swap_packet q]"] b(1) by (simp add: removeFromBuffer_def)
  have e: "out_interface (table s ! j) = ifx" "checkAddressNotEmpty (next_hop (table s ! j))"
    "clk n k < e_timestamp (table s ! j) + stale_time (cfg n)" using assms(5,8) by (auto simp: route_def)
  have "buffer_loop (cfg n) (clk n k) (table s) 1 0 (send_buffer s) 1
      = Some (b', 0, [\<lparr>dest_mac = next_hop (table s ! j), src_mac = m, if_index = ifx, body = q\<rparr>])"
    using l b(2) assms(4,6) e f r(1) by (simp add: side_def One_nat_def del: fun_upd_apply)
  then show thesis using that assms(2) r(2) by (simp add: sendMessageFromBuffer_def BUFFER_SIZE_def)
qed

text \<open>The reply: the entry of its source, and the rest of the table.\<close>

definition rrep_entry :: "session \<Rightarrow> node \<Rightarrow> nat \<Rightarrow> mac \<Rightarrow> int \<Rightarrow> odr \<Rightarrow> routing_entry" where
  "rrep_entry x n k sender h s = (learn_route sender (left_if n) (h + 1) (clk n k) (table s ! d_node x))\<lparr>highest_broadcast_id :=
     (highest_broadcast_id (table s ! d_node x))[d_node x := s_bid x]\<rparr>"

lemma handle_packet_rrep:
  assumes x: "session_ok x" and n: "node_ok x n" and l: "side (cfg n) (left_if n) m" and s: "odr_inv s" "unknown (d_node x) s"
    and s': "s' = s\<lparr>table := (table s)[d_node x := rrep_entry x n k sender h s]\<rparr>"
  shows "handle_packet (cfg n) (clk n k) reply sender (left_if n) (rrep x h) s =
    map_option (\<lambda>(s', fs). (s', fs, []))
      (if int (s_node x) = curr_node (cfg n) then sendMessageFromBuffer (cfg n) (clk n k) s'
       else do {
         m \<leftarrow> getMacAddrByInferFaceNum (cfg n) (out_interface (table s ! s_node x));
         f \<leftarrow> sendMessage (cfg n) m (next_hop (table s ! s_node x)) (out_interface (table s ! s_node x)) (rrep x (h + 1));
         Some (s', [f])
       })"
    and "odr_inv s'"
proof -
  note m = rreq_msg_facts [OF x]
  have sd: "s_node x \<noteq> d_node x" "s_node x < length (table s)" "d_node x < length (table s)"
    using x node_ok_facts(3,4) [OF n] s(1) by (simp_all add: session_ok_def odr_inv_def)
  have "no_route (cfg n) (clk n k) (table s ! d_node x)" using s(2) by (simp add: no_route_def unknown_def)
  moreover have "take 30 (rreq_msg (s_flag x) (s_bid x)) = rreq_msg (s_flag x) (s_bid x)" using m(5) by simp
  moreover have "(rrep x h)\<lparr>hop_count := hop_count (rrep x h) + 1\<rparr> = rrep x (h + 1)" by (simp add: rrep_def)
  ultimately have "handle_rrep (cfg n) (clk n k) sender (left_if n) (d_node x) (s_node x) (rrep x h) s =
      (if int (s_node x) = curr_node (cfg n) then sendMessageFromBuffer (cfg n) (clk n k) s'
       else do {
         m \<leftarrow> getMacAddrByInferFaceNum (cfg n) (out_interface (table s ! s_node x));
         f \<leftarrow> sendMessage (cfg n) m (next_hop (table s ! s_node x)) (out_interface (table s ! s_node x)) (rrep x (h + 1));
         Some (s', [f])
       })"
    using sd m(1,6) by (simp add: handle_rrep_def Let_def load_def s' rrep_entry_def rrep_def)
  then show "handle_packet (cfg n) (clk n k) reply sender (left_if n) (rrep x h) s =
    map_option (\<lambda>(s', fs). (s', fs, []))
      (if int (s_node x) = curr_node (cfg n) then sendMessageFromBuffer (cfg n) (clk n k) s'
       else do {
         m \<leftarrow> getMacAddrByInferFaceNum (cfg n) (out_interface (table s ! s_node x));
         f \<leftarrow> sendMessage (cfg n) m (next_hop (table s ! s_node x)) (out_interface (table s ! s_node x)) (rrep x (h + 1));
         Some (s', [f])
       })"
    using node_ok_facts(1,2) [OF n] l sd by (simp add: handle_packet_def side_def rrep_def load_def)
  have "entry_ok (table s ! d_node x)" using table_entry_ok sd(3) s(1) by (simp add: odr_inv_def)
  then have "entry_ok (rrep_entry x n k sender h s)" by (simp add: entry_ok_def rrep_entry_def learn_route_def)
  then show "odr_inv s'" using s(1) by (simp add: odr_inv_def s' table_update_ok)
qed

lemma rrep_hop:
  assumes x: "session_ok x" and n: "node_ok x n" and l: "side (cfg n) (left_if n) m" and r: "side (cfg n) (right_if n) m'"
    and c: "curr_node (cfg n) \<noteq> int (s_node x)" and s: "idle s" "unknown (d_node x) s" "route (s_node x) (right_if n) n s"
    and a: "checkAddressNotEmpty sender"
  obtains s' where "handle_packet (cfg n) (clk n k) reply sender (left_if n) (rrep x h) s
      = Some (s', [\<lparr>dest_mac = next_hop (table s ! s_node x), src_mac = m', if_index = right_if n, body = rrep x (h + 1)\<rparr>], [])"
    "idle s'" "route (d_node x) (left_if n) n s'" "next_hop (table s' ! d_node x) = sender" "table s' ! s_node x = table s ! s_node x"
proof -
  let ?s = "s\<lparr>table := (table s)[d_node x := rrep_entry x n k sender h s]\<rparr>"
  have s': "odr_inv s" using s(1) by (simp add: idle_def)
  note p = handle_packet_rrep [OF x n l s' s(2) refl, where k = k and sender = sender and h = h]
  have sd: "s_node x \<noteq> d_node x" "d_node x < length (table s)"
    using x node_ok_facts(3,4) [OF n] s' by (simp_all add: session_ok_def odr_inv_def)
  have "sendMessage (cfg n) m' (next_hop (table s ! s_node x)) (right_if n) (rrep x (h + 1))
      = Some \<lparr>dest_mac = next_hop (table s ! s_node x), src_mac = m', if_index = right_if n, body = rrep x (h + 1)\<rparr>"
    using node_ok_facts(5,6) [OF n] by (intro sendMessage_ok) (simp_all add: rrep_def)
  then have "handle_packet (cfg n) (clk n k) reply sender (left_if n) (rrep x h) s
      = Some (?s, [\<lparr>dest_mac = next_hop (table s ! s_node x), src_mac = m', if_index = right_if n, body = rrep x (h + 1)\<rparr>], [])"
    using p(1) c r s(3) by (simp add: side_def route_def)
  moreover have "idle ?s" using p(2) s(1) by (simp add: idle_def)
  moreover have "route (d_node x) (left_if n) n ?s" "next_hop (table ?s ! d_node x) = sender" "table ?s ! s_node x = table s ! s_node x"
    using sd a by (auto simp: route_def rrep_entry_def learn_route_def)
  ultimately show thesis using that by blast
qed

lemma rrep_end:
  assumes x: "session_ok x" and n: "node_ok x n" and l: "side (cfg n) (left_if n) m" and c: "curr_node (cfg n) = int (s_node x)"
    and s: "odr_inv s" "num_packets_buffered s = 1" "send_buffer s ! 0 = ask x 0" "unknown (d_node x) s" and a: "checkAddressNotEmpty sender"
  obtains s' where "handle_packet (cfg n) (clk n k) reply sender (left_if n) (rrep x h) s
      = Some (s', [\<lparr>dest_mac = sender, src_mac = m, if_index = left_if n, body = ask x 0\<rparr>], [])"
    "idle s'" "route (d_node x) (left_if n) n s'" "next_hop (table s' ! d_node x) = sender" "MapArray s' = MapArray s"
proof -
  let ?s = "s\<lparr>table := (table s)[d_node x := rrep_entry x n k sender h s]\<rparr>"
  note p = handle_packet_rrep [OF x n l s(1,4) refl, where k = k and sender = sender and h = h]
  have d: "d_node x < length (table s)" using node_ok_facts(4) [OF n] s(1) by (simp add: odr_inv_def)
  then have r: "route (d_node x) (left_if n) n ?s" "next_hop (table ?s ! d_node x) = sender"
    using a by (auto simp: route_def rrep_entry_def learn_route_def)
  obtain b where b: "sendMessageFromBuffer (cfg n) (clk n k) ?s = Some (?s\<lparr>send_buffer := b, num_packets_buffered := 0\<rparr>,
      [\<lparr>dest_mac = next_hop (table ?s ! d_node x), src_mac = m, if_index = left_if n, body = ask x 0\<rparr>])" "length b = BUFFER_SIZE"
    using send_one [OF p(2), of "ask x 0" n "d_node x" "left_if n" m k] s(2,3) r(1) l node_ok_facts(2,5,7) [OF n] by (auto simp: ask_def)
  let ?t = "?s\<lparr>send_buffer := b, num_packets_buffered := 0\<rparr>"
  have "handle_packet (cfg n) (clk n k) reply sender (left_if n) (rrep x h) s
      = Some (?t, [\<lparr>dest_mac = sender, src_mac = m, if_index = left_if n, body = ask x 0\<rparr>], [])"
    using p(1) b(1) c r(2) by simp
  moreover have "idle ?t" using p(2) b(2) by (simp add: idle_def odr_inv_def)
  moreover have "route (d_node x) (left_if n) n ?t" "next_hop (table ?t ! d_node x) = sender" "MapArray ?t = MapArray s"
    using r by (simp_all add: route_def)
  ultimately show thesis using that by blast
qed

text \<open>Application packets: the route to the source is learned again.\<close>

definition learned :: "node \<Rightarrow> nat \<Rightarrow> nat \<Rightarrow> mac \<Rightarrow> int \<Rightarrow> odr \<Rightarrow> odr" where
  "learned n k i sender h s = s\<lparr>table := (table s)[i := learn_route sender (left_if n) (h + 1) (clk n k) (table s ! i)]\<rparr>"

lemma learned_facts:
  assumes "idle s" "i \<le> NODES" "checkAddressNotEmpty sender"
  shows "idle (learned n k i sender h s)" "route i (left_if n) n (learned n k i sender h s)"
    "next_hop (table (learned n k i sender h s) ! i) = sender"
    "j \<noteq> i \<Longrightarrow> table (learned n k i sender h s) ! j = table s ! j" "MapArray (learned n k i sender h s) = MapArray s"
proof -
  have e: "entry_ok (table s ! i)" "i < length (table s)" using assms(1,2) by (simp_all add: idle_def odr_inv_def table_entry_ok)
  then show "idle (learned n k i sender h s)"
    using assms(1) learn_route_ok [of "table s ! i"] by (simp add: idle_def learned_def odr_inv_def table_update_ok)
  show "route i (left_if n) n (learned n k i sender h s)" "next_hop (table (learned n k i sender h s) ! i) = sender"
    using e(2) assms(3) by (auto simp: learned_def route_def learn_route_def)
  show "j \<noteq> i \<Longrightarrow> table (learned n k i sender h s) ! j = table s ! j" "MapArray (learned n k i sender h s) = MapArray s"
    by (simp_all add: learned_def)
qed

lemma handle_packet_app:
  assumes p: "ptype p = 2" "getNodeByIP (cfg n) (source_ipAddr p) = Some i" "getNodeByIP (cfg n) (destination_ipAddr p) = Some j"
    and l: "side (cfg n) (left_if n) m" and s: "idle s"
  shows "handle_packet (cfg n) (clk n k) reply sender (left_if n) p s =
    do {
      (s2, apps) \<leftarrow> deliver_app (cfg n) reply j p (learned n k i sender (hop_count p) s);
      (s3, fs) \<leftarrow> sendMessageFromBuffer (cfg n) (clk n k) s2;
      (s4, fs') \<leftarrow> ask_route (cfg n) p s3;
      Some (s4, fs @ fs', apps)
    }"
  using p l getNodeByIP_load(1) [OF p(2), of "table s"] s
  by (simp add: handle_packet_def handle_app_def learned_def side_def idle_def odr_inv_def)

text \<open>A packet put into the empty buffer leaves at once if there is a route.\<close>

lemma pass_on:
  assumes "idle s" "getNodeByIP (cfg n) (destination_ipAddr q) = Some j" "route j ifx n s" "side (cfg n) ifx m"
    "host_name (cfg n) (source_ipAddr q) \<noteq> None" "\<And>i j. clk n i < clk n j + stale_time (cfg n)"
  obtains s1 s2 where "buffer_packet q s = Some s1" "sendMessageFromBuffer (cfg n) (clk n k) s1 = Some (s2,
      [\<lparr>dest_mac = next_hop (table s ! j), src_mac = m, if_index = ifx, body = q\<rparr>])"
    "idle s2" "table s2 = table s" "MapArray s2 = MapArray s"
proof -
  have b: "length (send_buffer s) = BUFFER_SIZE" "odr_inv s" "num_packets_buffered s = 0" using assms(1) by (simp_all add: idle_def odr_inv_def)
  let ?s = "s\<lparr>send_buffer := (send_buffer s)[0 := q], num_packets_buffered := 1\<rparr>"
  have 1: "buffer_packet q s = Some ?s" using b by (simp add: buffer_packet_def store_def BUFFER_SIZE_def)
  have i: "odr_inv ?s" using buffer_packet_inv(1) [OF 1 b(2)] .
  obtain b' where "sendMessageFromBuffer (cfg n) (clk n k) ?s = Some (?s\<lparr>send_buffer := b', num_packets_buffered := 0\<rparr>,
      [\<lparr>dest_mac = next_hop (table ?s ! j), src_mac = m, if_index = ifx, body = q\<rparr>])" "length b' = BUFFER_SIZE"
    using send_one [OF i, of q n j ifx m k] assms(2-6) b by (auto simp: BUFFER_SIZE_def route_def)
  then show thesis using that [OF 1] i by (simp add: idle_def odr_inv_def)
qed

lemma app_hop:
  assumes p: "ptype p = 2" "getNodeByIP (cfg n) (source_ipAddr p) = Some i" "getNodeByIP (cfg n) (destination_ipAddr p) = Some j" "i \<noteq> j"
    and l: "side (cfg n) (left_if n) m" and r: "side (cfg n) (right_if n) m'" and c: "curr_node (cfg n) \<noteq> int j"
    and k: "\<And>i j. clk n i < clk n j + stale_time (cfg n)"
    and s: "idle s" "route j (right_if n) n s" and a: "checkAddressNotEmpty sender"
  obtains s' where "handle_packet (cfg n) (clk n k) reply sender (left_if n) p s
      = Some (s', [\<lparr>dest_mac = next_hop (table s ! j), src_mac = m', if_index = right_if n, body = p\<lparr>hop_count := hop_count p + 1\<rparr>\<rparr>], [])"
    "idle s'" "route i (left_if n) n s'" "next_hop (table s' ! i) = sender" "table s' ! j = table s ! j"
proof -
  let ?q = "p\<lparr>hop_count := hop_count p + 1\<rparr>" and ?s = "learned n k i sender (hop_count p) s"
  note f = learned_facts [OF s(1) getNodeByIP_bound [OF p(2)] a, where n = n and k = k and h = "hop_count p"]
  have j: "table ?s ! j = table s ! j" using f(4) p(4) by metis
  have h: "host_name (cfg n) (source_ipAddr ?q) \<noteq> None" using p(2) by (auto simp: getNodeByIP_def)
  have d: "getNodeByIP (cfg n) (destination_ipAddr ?q) = Some j" "route j (right_if n) n ?s" using p(3) s(2) j by (simp_all add: route_def)
  obtain s1 s2 where
    b: "buffer_packet ?q ?s = Some s1" "sendMessageFromBuffer (cfg n) (clk n k) s1 = Some (s2,
      [\<lparr>dest_mac = next_hop (table ?s ! j), src_mac = m', if_index = right_if n, body = ?q\<rparr>])" "idle s2" "table s2 = table ?s"
    using pass_on [OF f(1) d r h k, of k] by blast
  have "ask_route (cfg n) p s2 = Some (s2, [])" using b(3) by (simp add: ask_route_def idle_def)
  moreover have "deliver_app (cfg n) reply j p ?s = Some (s1, [])" using b(1) c by (simp add: deliver_app_def)
  ultimately have "handle_packet (cfg n) (clk n k) reply sender (left_if n) p s
      = Some (s2, [\<lparr>dest_mac = next_hop (table s ! j), src_mac = m', if_index = right_if n, body = ?q\<rparr>], [])"
    using handle_packet_app [OF p(1-3) l s(1), of k reply sender] b(2) j by simp
  then show thesis using that b(3,4) f(2,3) j by (simp add: route_def)
qed

lemma app_end_server:
  assumes x: "session_ok x" and n: "node_ok x n" and l: "side (cfg n) (left_if n) m" and c: "curr_node (cfg n) = int (d_node x)"
    and s: "idle s" and a: "checkAddressNotEmpty sender"
  obtains s' where "handle_packet (cfg n) (clk n k) (s_reply x) sender (left_if n) (ask x h) s
      = Some (s', [\<lparr>dest_mac = sender, src_mac = m, if_index = left_if n, body = answer x 0\<rparr>], [])"
    "idle s'" "route (s_node x) (left_if n) n s'" "next_hop (table s' ! s_node x) = sender"
proof -
  let ?s = "learned n k (s_node x) sender h s"
  note f = learned_facts [OF s node_ok_facts(3) [OF n] a, where n = n and k = k and h = h]
  have o: "createPF_Packet 2 (d_ip x) DEST_PORT (s_ip x) (s_port x) 0 (s_reply x) = Some (answer x 0)"
    using packets_wf(4) [OF x, of 0] unfolding answer_def by (intro createPF_Packet_ok) simp
  have p: "ptype (ask x h) = 2" "getNodeByIP (cfg n) (source_ipAddr (ask x h)) = Some (s_node x)"
    "getNodeByIP (cfg n) (destination_ipAddr (ask x h)) = Some (d_node x)"
    "getNodeByIP (cfg n) (destination_ipAddr (answer x 0)) = Some (s_node x)" "host_name (cfg n) (source_ipAddr (answer x 0)) \<noteq> None"
    using node_ok_facts(1,2,6) [OF n] by (simp_all add: ask_def answer_def)
  obtain s1 s2 where b: "buffer_packet (answer x 0) ?s = Some s1" "sendMessageFromBuffer (cfg n) (clk n k) s1 = Some (s2,
      [\<lparr>dest_mac = next_hop (table ?s ! s_node x), src_mac = m, if_index = left_if n, body = answer x 0\<rparr>])" "idle s2" "table s2 = table ?s"
    using pass_on [OF f(1) p(4) f(2) l p(5) node_ok_facts(7) [OF n], of k] by blast
  have "ask_route (cfg n) (ask x h) s2 = Some (s2, [])" using b(3) by (simp add: ask_route_def idle_def)
  moreover have "deliver_app (cfg n) (s_reply x) (d_node x) (ask x h) ?s = Some (s1, [])"
    using b(1) c o by (simp add: deliver_app_def ask_def)
  ultimately have "handle_packet (cfg n) (clk n k) (s_reply x) sender (left_if n) (ask x h) s
      = Some (s2, [\<lparr>dest_mac = sender, src_mac = m, if_index = left_if n, body = answer x 0\<rparr>], [])"
    using handle_packet_app [OF p(1-3) l s, of k "s_reply x" sender] b(2) f(3) by (simp add: ask_def)
  then show thesis using that b(3,4) f(2,3) by (simp add: route_def)
qed

lemma app_end_client:
  assumes x: "session_ok x" and n: "node_ok x n" and l: "side (cfg n) (left_if n) m" and c: "curr_node (cfg n) = int (s_node x)"
    and s: "idle s" "searchMap (s_port x) (MapArray s) = Some path" and a: "checkAddressNotEmpty sender"
  obtains s' where "handle_packet (cfg n) (clk n k) reply sender (left_if n) (answer x h) s
      = Some (s', [], [(path, msg_send2 (d_ip x) DEST_PORT (s_reply x) (char_at (s_reply x) 1 - 48))])" "idle s'"
proof -
  let ?s = "learned n k (d_node x) sender h s"
  note f = learned_facts [OF s(1) node_ok_facts(4) [OF n] a, where n = n and k = k and h = h]
  have p: "ptype (answer x h) = 2" "getNodeByIP (cfg n) (source_ipAddr (answer x h)) = Some (d_node x)"
    "getNodeByIP (cfg n) (destination_ipAddr (answer x h)) = Some (s_node x)"
    using node_ok_facts(1,2) [OF n] by (simp_all add: answer_def)
  have "ask_route (cfg n) (answer x h) ?s = Some (?s, [])" "sendMessageFromBuffer (cfg n) (clk n k) ?s = Some (?s, [])"
    using f(1) by (auto simp: ask_route_def idle_def sendMessageFromBuffer_def)
  moreover have "deliver_app (cfg n) reply (s_node x) (answer x h) ?s
      = Some (?s, [(path, msg_send2 (d_ip x) DEST_PORT (s_reply x) (char_at (s_reply x) 1 - 48))])"
    using c s(2) f(5) x by (simp add: deliver_app_def answer_def session_ok_def load_def)
  ultimately have "handle_packet (cfg n) (clk n k) reply sender (left_if n) (answer x h) s
      = Some (?s, [], [(path, msg_send2 (d_ip x) DEST_PORT (s_reply x) (char_at (s_reply x) 1 - 48))])"
    using handle_packet_app [OF p l s(1), of k reply sender] by (simp add: answer_def)
  then show thesis using that f(1) by blast
qed

section \<open>A row of nodes\<close>

definition mid :: "session \<Rightarrow> node \<Rightarrow> bool" where
  "mid x n \<longleftrightarrow> node_ok x n \<and> side (cfg n) (left_if n) (left_mac n) \<and> side (cfg n) (right_if n) (right_mac n)
     \<and> curr_node (cfg n) \<noteq> int (s_node x) \<and> curr_node (cfg n) \<noteq> int (d_node x)"

lemma mid_flip [simp]: "mid x (flip n) \<longleftrightarrow> mid x n"
  by (auto simp: mid_def node_ok_def)

lemma node_ok_flip [simp]: "node_ok x (flip n) \<longleftrightarrow> node_ok x n"
  by (simp add: node_ok_def)

lemma route_flip [simp]: "route i ifx (flip n) s \<longleftrightarrow> route i ifx n s"
  by (simp add: route_def)

text \<open>The route request.\<close>

definition rreq_sent :: "session \<Rightarrow> node \<Rightarrow> odr \<Rightarrow> frame list \<Rightarrow> int \<Rightarrow> bool" where
  "rreq_sent x n s fs h \<longleftrightarrow> session_ok x \<and> side (cfg n) (right_if n) (right_mac n) \<and> fs = flood (cfg n) (rreq x h)"

definition rreq_ready :: "session \<Rightarrow> node \<Rightarrow> odr \<Rightarrow> bool" where
  "rreq_ready x n s \<longleftrightarrow> mid x n \<and> idle s \<and> unknown (s_node x) s \<and> unknown (d_node x) s
     \<and> highest_broadcast_id (table s ! d_node x) ! s_node x < s_bid x"

definition rreq_passed :: "session \<Rightarrow> node \<Rightarrow> node \<Rightarrow> odr \<Rightarrow> bool" where
  "rreq_passed x n n' s \<longleftrightarrow> mid x n' \<and> idle s \<and> route (s_node x) (left_if n') n' s \<and> next_hop (table s ! s_node x) = right_mac n
     \<and> unknown (d_node x) s"

interpretation requests: hop_by_hop junk beyond reply k "rreq_sent x" "\<lambda>_ _ _. True" "rreq_ready x" "rreq_passed x"
  for junk beyond reply k x
proof
  fix n s fs h n' s'
  assume e: "rreq_sent x n s fs h" and r: "rreq_ready x n' s'" and h: "0 \<le> h" "h + 1 < 2 ^ 31"
  have x: "session_ok x" and a: "checkAddressNotEmpty (right_mac n)" using e by (simp_all add: rreq_sent_def side_def)
  have m: "node_ok x n'" "side (cfg n') (left_if n') (left_mac n')" "side (cfg n') (right_if n') (right_mac n')"
    "curr_node (cfg n') \<noteq> int (s_node x)" "curr_node (cfg n') \<noteq> int (d_node x)" "idle s'" "unknown (s_node x) s'" "unknown (d_node x) s'"
    "highest_broadcast_id (table s' ! d_node x) ! s_node x < s_bid x"
    using r by (simp_all add: rreq_ready_def mid_def)
  have "carried junk beyond (left_mac n') (right_if n) fs = Some (right_mac n, rreq x h)"
    using e carried_flood [OF packets_wf(1) [OF x h(1)]] h by (simp add: rreq_sent_def)
  moreover obtain s'' where "handle_packet (cfg n') (clk n' k) reply (right_mac n) (left_if n') (rreq x h) s'
      = Some (s'', flood (cfg n') (rreq x (h + 1)), [])" "idle s''" "route (s_node x) (left_if n') n' s''"
    "next_hop (table s'' ! s_node x) = right_mac n" "unknown (d_node x) s''"
    using rreq_hop [OF x m(1,2,4-9) a h] by blast
  ultimately show "\<exists>sender p s'' fs'. carried junk beyond (left_mac n') (right_if n) fs = Some (sender, p)
        \<and> handle_packet (cfg n') (clk n' k) reply sender (left_if n') p s' = Some (s'', fs', [])
        \<and> rreq_sent x n' s'' fs' (h + 1) \<and> rreq_passed x n n' s'' \<and> (\<forall>m. True \<longrightarrow> True)"
    using x m r by (auto simp: rreq_sent_def rreq_passed_def rreq_ready_def)
qed

text \<open>The route reply.\<close>

definition rrep_sent :: "session \<Rightarrow> node \<Rightarrow> odr \<Rightarrow> frame list \<Rightarrow> int \<Rightarrow> bool" where
  "rrep_sent x n s fs h \<longleftrightarrow> session_ok x \<and> side (cfg n) (right_if n) (right_mac n)
     \<and> (\<exists>gs. fs = \<lparr>dest_mac = next_hop (table s ! s_node x), src_mac = right_mac n, if_index = right_if n, body = rrep x h\<rparr> # gs)"

definition rrep_ready :: "session \<Rightarrow> node \<Rightarrow> odr \<Rightarrow> bool" where
  "rrep_ready x n s \<longleftrightarrow> mid x n \<and> idle s \<and> route (s_node x) (right_if n) n s \<and> unknown (d_node x) s"

definition rrep_passed :: "session \<Rightarrow> node \<Rightarrow> node \<Rightarrow> odr \<Rightarrow> bool" where
  "rrep_passed x n n' s \<longleftrightarrow> mid x n' \<and> idle s \<and> route (d_node x) (left_if n') n' s \<and> next_hop (table s ! d_node x) = right_mac n"

interpretation replies: hop_by_hop junk beyond reply k "rrep_sent x" "\<lambda>n s n'. next_hop (table s ! s_node x) = left_mac n'" "rrep_ready x"
    "rrep_passed x" for junk beyond reply k x
proof
  fix n s fs h n' s'
  assume e: "rrep_sent x n s fs h" and nx: "next_hop (table s ! s_node x) = left_mac n'" and r: "rrep_ready x n' s'"
    and h: "0 \<le> h" "h + 1 < 2 ^ 31"
  have x: "session_ok x" and a: "checkAddressNotEmpty (right_mac n)" "length (right_mac n) = 6" using e by (simp_all add: rrep_sent_def side_def)
  have m: "node_ok x n'" "side (cfg n') (left_if n') (left_mac n')" "side (cfg n') (right_if n') (right_mac n')"
    "curr_node (cfg n') \<noteq> int (s_node x)" "idle s'" "unknown (d_node x) s'" "route (s_node x) (right_if n') n' s'"
    using r by (simp_all add: rrep_ready_def mid_def)
  have "length (left_mac n') = 6" using m(2) by (simp add: side_def)
  then have "carried junk beyond (left_mac n') (right_if n) fs = Some (right_mac n, rrep x h)"
    using e nx a(2) packets_wf(2) [OF x h(1)] h by (auto simp: rrep_sent_def carried_unicast)
  moreover obtain s'' where "handle_packet (cfg n') (clk n' k) reply (right_mac n) (left_if n') (rrep x h) s'
      = Some (s'', [\<lparr>dest_mac = next_hop (table s' ! s_node x), src_mac = right_mac n', if_index = right_if n', body = rrep x (h + 1)\<rparr>], [])"
    "idle s''" "route (d_node x) (left_if n') n' s''" "next_hop (table s'' ! d_node x) = right_mac n" "table s'' ! s_node x = table s' ! s_node x"
    using rrep_hop [OF x m a(1)] by blast
  ultimately show "\<exists>sender p s'' fs'. carried junk beyond (left_mac n') (right_if n) fs = Some (sender, p)
        \<and> handle_packet (cfg n') (clk n' k) reply sender (left_if n') p s' = Some (s'', fs', [])
        \<and> rrep_sent x n' s'' fs' (h + 1) \<and> rrep_passed x n n' s''
        \<and> (\<forall>m. next_hop (table s' ! s_node x) = left_mac m \<longrightarrow> next_hop (table s'' ! s_node x) = left_mac m)"
    using x m(3) r by (auto simp: rrep_sent_def rrep_passed_def rrep_ready_def)
qed

text \<open>The question on its way to the server, and the answer on its way back.\<close>

definition app :: "session \<Rightarrow> bool \<Rightarrow> int \<Rightarrow> packet" where
  "app x home h = (if home then answer x h else ask x h)"

definition app_src :: "session \<Rightarrow> bool \<Rightarrow> nat" where "app_src x home = (if home then d_node x else s_node x)"
definition app_dst :: "session \<Rightarrow> bool \<Rightarrow> nat" where "app_dst x home = (if home then s_node x else d_node x)"

definition app_sent :: "session \<Rightarrow> bool \<Rightarrow> node \<Rightarrow> odr \<Rightarrow> frame list \<Rightarrow> int \<Rightarrow> bool" where
  "app_sent x home n s fs h \<longleftrightarrow> session_ok x \<and> side (cfg n) (right_if n) (right_mac n)
     \<and> fs = [\<lparr>dest_mac = next_hop (table s ! app_dst x home), src_mac = right_mac n, if_index = right_if n, body = app x home h\<rparr>]"

definition app_ready :: "session \<Rightarrow> bool \<Rightarrow> node \<Rightarrow> odr \<Rightarrow> bool" where
  "app_ready x home n s \<longleftrightarrow> mid x n \<and> idle s \<and> route (app_dst x home) (right_if n) n s"

definition app_passed :: "session \<Rightarrow> bool \<Rightarrow> node \<Rightarrow> node \<Rightarrow> odr \<Rightarrow> bool" where
  "app_passed x home n n' s \<longleftrightarrow> mid x n' \<and> idle s \<and> route (app_src x home) (left_if n') n' s \<and> next_hop (table s ! app_src x home) = right_mac n"

interpretation apps: hop_by_hop junk beyond reply k "app_sent x home" "\<lambda>n s n'. next_hop (table s ! app_dst x home) = left_mac n'"
    "app_ready x home" "app_passed x home" for junk beyond reply k x home
proof
  fix n s fs h n' s'
  assume e: "app_sent x home n s fs h" and nx: "next_hop (table s ! app_dst x home) = left_mac n'" and r: "app_ready x home n' s'"
    and h: "0 \<le> h" "h + 1 < 2 ^ 31"
  let ?p = "app x home h" and ?i = "app_src x home" and ?j = "app_dst x home"
  have x: "session_ok x" and a: "checkAddressNotEmpty (right_mac n)" "length (right_mac n) = 6" using e by (simp_all add: app_sent_def side_def)
  have m: "side (cfg n') (left_if n') (left_mac n')" "side (cfg n') (right_if n') (right_mac n')" "idle s'" "route ?j (right_if n') n' s'"
    and n: "node_ok x n'" and c: "curr_node (cfg n') \<noteq> int ?j"
    using r by (simp_all add: app_ready_def mid_def app_dst_def)
  have "length (left_mac n') = 6" using m(1) by (simp add: side_def)
  moreover have "wf_packet ?p" using packets_wf(3,4) [OF x h(1)] h by (simp add: app_def)
  ultimately have "carried junk beyond (left_mac n') (right_if n) fs = Some (right_mac n, ?p)"
    using e nx a(2) by (auto simp: app_sent_def carried_unicast)
  moreover have p: "ptype ?p = 2" "getNodeByIP (cfg n') (source_ipAddr ?p) = Some ?i" "getNodeByIP (cfg n') (destination_ipAddr ?p) = Some ?j" "?i \<noteq> ?j"
    using node_ok_facts(1,2) [OF n] x by (simp_all add: app_def ask_def answer_def app_src_def app_dst_def session_ok_def)
  have q: "?p\<lparr>hop_count := hop_count ?p + 1\<rparr> = app x home (h + 1)" by (simp add: app_def ask_def answer_def)
  obtain s'' where "handle_packet (cfg n') (clk n' k) reply (right_mac n) (left_if n') ?p s'
      = Some (s'', [\<lparr>dest_mac = next_hop (table s' ! ?j), src_mac = right_mac n', if_index = right_if n', body = app x home (h + 1)\<rparr>], [])"
    "idle s''" "route ?i (left_if n') n' s''" "next_hop (table s'' ! ?i) = right_mac n" "table s'' ! ?j = table s' ! ?j"
    using app_hop [OF p m(1,2) c node_ok_facts(7) [OF n] m(3,4) a(1), of k reply] unfolding q by blast
  ultimately show "\<exists>sender p s'' fs'. carried junk beyond (left_mac n') (right_if n) fs = Some (sender, p)
        \<and> handle_packet (cfg n') (clk n' k) reply sender (left_if n') p s' = Some (s'', fs', [])
        \<and> app_sent x home n' s'' fs' (h + 1) \<and> app_passed x home n n' s''
        \<and> (\<forall>m. next_hop (table s' ! ?j) = left_mac m \<longrightarrow> next_hop (table s'' ! ?j) = left_mac m)"
    using x m(2) r by (auto simp: app_sent_def app_passed_def app_ready_def)
qed

section \<open>The ends of the row\<close>

definition start_ok :: "session \<Rightarrow> node \<Rightarrow> odr \<Rightarrow> bool" where
  "start_ok x n s \<longleftrightarrow> node_ok x n \<and> side (cfg n) (right_if n) (right_mac n) \<and> curr_node (cfg n) = int (s_node x)
     \<and> host_addr (cfg n) = s_ip x \<and> local_CanonicalIP (cfg n) = s_ip x
     \<and> idle s \<and> unknown (d_node x) s \<and> sourcePort s = s_port x \<and> broadcast_id s + 1 = s_bid x
     \<and> map_inv (MapArray s) \<and> 0 < map_free (MapArray s) \<and> searchMap (s_port x) (MapArray s) = None"

definition end_ok :: "session \<Rightarrow> node \<Rightarrow> odr \<Rightarrow> bool" where
  "end_ok x n s \<longleftrightarrow> node_ok x n \<and> side (cfg n) (left_if n) (left_mac n) \<and> curr_node (cfg n) = int (d_node x)
     \<and> idle s \<and> unknown (s_node x) s \<and> highest_broadcast_id (table s ! d_node x) ! s_node x < s_bid x"

text \<open>The first node asks for a route and keeps the question.\<close>

definition waiting :: "session \<Rightarrow> string \<Rightarrow> odr \<Rightarrow> bool" where
  "waiting x path s \<longleftrightarrow> odr_inv s \<and> num_packets_buffered s = 1 \<and> send_buffer s ! 0 = ask x 0 \<and> unknown (d_node x) s
     \<and> searchMap (s_port x) (MapArray s) = Some path"

lemma client_starts:
  assumes x: "session_ok x" and n: "start_ok x n s" and d: "d_ip x \<noteq> []" "CHR '';'' \<notin> set (d_ip x)"
  obtains s' where "handle_client (cfg n) (clk n 0) path (msg_send (d_ip x) DEST_PORT ''request time'' (s_flag x)) s
      = Some (s', flood (cfg n) (rreq x 0))" "waiting x path s'"
proof -
  have ok: "node_ok x n" "odr_inv s" "num_packets_buffered s = 0" "unknown (d_node x) s" using n by (simp_all add: start_ok_def idle_def)
  have f: "s_flag x = 0 \<or> s_flag x = 1" "length (d_ip x) < 20" "0 \<le> s_port x" using x by (auto simp: session_ok_def IPAddr_SIZE_def)
  have "length (dec (s_flag x)) \<le> 1" "length (dec DEST_PORT) \<le> 4"
    using f(1) dec_nat_length [of "nat (s_flag x)" 1] dec_nat_length [of 5678 4] by (auto simp: dec_def DEST_PORT_def)
  then have "length (msg_send (d_ip x) DEST_PORT ''request time'' (s_flag x)) < 100"
    using f(2) by (simp add: msg_send_def)
  then have pc: "parse_client (msg_send (d_ip x) DEST_PORT ''request time'' (s_flag x)) = Some (d_ip x, DEST_PORT, s_flag x, ''request time'')"
    using d f(1) by (intro parse_client_send) (auto simp: DEST_PORT_def)
  have q: "createPF_Packet 2 (s_ip x) (s_port x) (d_ip x) DEST_PORT 0 ''request time'' = Some (ask x 0)"
    using packets_wf(3) [OF x, of 0] unfolding ask_def by (intro createPF_Packet_ok) simp
  have r: "createPF_Packet 0 (s_ip x) (s_port x) (d_ip x) DEST_PORT 0 (rreq_msg (s_flag x) (s_bid x)) = Some (rreq x 0)"
    using packets_wf(1) [OF x, of 0] unfolding rreq_def by (intro createPF_Packet_ok) simp
  have b: "broadcast (cfg n) (rreq x 0) = Some (flood (cfg n) (rreq x 0))"
    using broadcast_flood [OF packets_wf(1) [OF x, of 0]] node_ok_facts(5,6) [OF ok(1)] by (simp add: rreq_def)
  let ?e = "if s_flag x = 1 then (table s ! d_node x)\<lparr>next_hop := replicate 6 0\<rparr> else table s ! d_node x"
  have u: "\<not> checkAddressNotEmpty (next_hop ?e)"
    using ok(4) even_mac_empty [of "replicate 6 0"] by (auto simp: unknown_def)
  have t: "d_node x < length (table s)" "length (send_buffer s) = BUFFER_SIZE"
    using ok(2) node_ok_facts(4) [OF ok(1)] by (simp_all add: odr_inv_def)
  let ?m = "addMap (s_port x) path (MapArray s)"
  let ?s = "s\<lparr>MapArray := ?m, send_buffer := (send_buffer s)[0 := ask x 0], num_packets_buffered := 1, broadcast_id := s_bid x,
      table := (table s)[d_node x := ?e]\<rparr>"
  have "sendMessageFromBuffer (cfg n) (clk n 0) ?s = Some (?s, [])"
  proof -
    have "(table s)[d_node x := ?e] ! d_node x = ?e" using t(1) by simp
    moreover have "load ((table s)[d_node x := ?e]) d = Some ((table s)[d_node x := ?e] ! d)" if "d = d_node x" for d
      using t(1) that by (simp add: load_def)
    ultimately have "buffer_loop (cfg n) (clk n 0) ((table s)[d_node x := ?e]) 1 0 ((send_buffer s)[0 := ask x 0]) 1
        = Some ((send_buffer s)[0 := ask x 0], 1, [])"
      using t u node_ok_facts(2) [OF ok(1)] by (simp add: One_nat_def load_def [of "_[0 := _]"] ask_def BUFFER_SIZE_def)
    then show ?thesis by (simp add: sendMessageFromBuffer_def)
  qed
  moreover have "store (send_buffer s) 0 (ask x 0) = Some ((send_buffer s)[0 := ask x 0])" using t(2) by (simp add: store_def BUFFER_SIZE_def)
  moreover have "no_route (cfg n) (clk n 0) ?e" using u by (simp add: no_route_def)
  ultimately have h: "handle_client (cfg n) (clk n 0) path (msg_send (d_ip x) DEST_PORT ''request time'' (s_flag x)) s
      = Some (?s\<lparr>sourcePort := s_port x + 1\<rparr>, flood (cfg n) (rreq x 0))"
    using n q r b t(1) ok(3) node_ok_facts(2) [OF ok(1)]
    by (simp add: handle_client_def pc client_request_def start_ok_def buffer_packet_def load_def [of "table s"] Let_def)
  have "searchMap (s_port x) ?m = Some path"
    using ports.search_add [of "MapArray s" "s_port x" "s_port x" path] n f(3) by (simp add: start_ok_def)
  moreover have "odr_inv (?s\<lparr>sourcePort := s_port x + 1\<rparr>)" using handle_client_inv [OF ok(2) h] .
  ultimately have "waiting x path (?s\<lparr>sourcePort := s_port x + 1\<rparr>)"
    using t u by (simp add: waiting_def unknown_def BUFFER_SIZE_def)
  with h show thesis using that by blast
qed

section \<open>The four passages\<close>

definition leads_left :: "nat \<Rightarrow> (node \<times> odr) list \<Rightarrow> bool" where
  "leads_left i c \<longleftrightarrow> successively (\<lambda>(n, s) (n', s'). next_hop (table s' ! i) = right_mac n) c"

definition leads_right :: "nat \<Rightarrow> (node \<times> odr) list \<Rightarrow> bool" where
  "leads_right i c \<longleftrightarrow> successively (\<lambda>(n, s) (n', s'). next_hop (table s ! i) = left_mac n') c"

lemma leads_turn: "leads_left i c \<Longrightarrow> leads_right i (turn c)"
  by (simp add: leads_left_def leads_right_def successively_turn case_prod_beta)

lemma successively_elements:
  "successively (\<lambda>(n, s) (n', s'). P n n' s') (y # mids) \<Longrightarrow> (n', s') \<in> set mids \<Longrightarrow> \<exists>n. P n n' s'"
proof (induction mids arbitrary: y)
  case (Cons z mids)
  have "successively (\<lambda>(n, s) (n', s'). P n n' s') (z # mids)" using Cons.prems(1) by simp
  note ih = Cons.IH [OF this]
  show ?case
  proof (cases "(n', s') = z")
    case True
    then show ?thesis using Cons.prems(1) by (auto split: prod.splits)
  next
    case False
    then show ?thesis using Cons.prems(2) ih by auto
  qed
qed simp

lemma leads_left_snoc:
  assumes "successively (\<lambda>(n, s) (n', s'). P n n' s') (y # mids)" "\<And>n n' s'. P n n' s' \<Longrightarrow> next_hop (table s' ! i) = right_mac n"
    "next_hop (table t ! i) = right_mac (fst (last (y # mids)))"
  shows "leads_left i (y # mids @ [(m, t)])"
proof -
  have "leads_left i (y # mids)"
    unfolding leads_left_def using assms(1) by (rule successively_mono) (auto dest: assms(2))
  then show ?thesis
    using assms(3) successively_append_iff [of "\<lambda>(n, s) (n', s'). next_hop (table s' ! i) = right_mac n" "y # mids" "[(m, t)]"]
    by (simp add: leads_left_def case_prod_beta)
qed

lemma successively_True: "successively (\<lambda>(n, s) (n', s'). True) c"
  by (induction c rule: induct_list012) auto

lemma rreq_passage:
  assumes x: "session_ok x" and e: "rreq_sent x n s fs 0" and h: "int (length mids) + 1 < 2 ^ 31"
    and r: "\<forall>(n', s') \<in> set mids. rreq_ready x n' s'" and m: "end_ok x m t"
  obtains mids' t' out where "onward junk beyond reply k ((n, s) # mids @ [(m, t)]) fs [] = Some ((n, s) # mids' @ [(m, t')], out, [])"
    "map fst mids' = map fst mids" "leads_left (s_node x) ((n, s) # mids' @ [(m, t')])"
    "\<forall>(n', s') \<in> set mids'. rrep_ready x (flip n') s'" "rrep_sent x (flip m) t' out 0" "idle t'"
proof -
  let ?Q = "\<lambda>n' t' out apps. apps = [] \<and> rrep_sent x (flip m) t' out 0 \<and> idle t' \<and> next_hop (table t' ! s_node x) = right_mac n'"
  have h': "0 + int (length mids) + 1 < 2 ^ 31" using h by simp
  have m': "node_ok x m" "side (cfg m) (left_if m) (left_mac m)" "curr_node (cfg m) = int (d_node x)" "idle t" "unknown (s_node x) t"
    "highest_broadcast_id (table t ! d_node x) ! s_node x < s_bid x" using m by (simp_all add: end_ok_def)
  have last: "\<exists>sender p t' out apps. carried junk beyond (left_mac m) (right_if n') fs = Some (sender, p)
      \<and> handle_packet (cfg m) (clk m k) reply sender (left_if m) p t = Some (t', out, apps) \<and> ?Q n' t' out apps"
    if e: "rreq_sent x n' s' fs h" and True and h: "0 \<le> h" "h + 1 < 2 ^ 31" for n' s' fs h
  proof -
    have a: "checkAddressNotEmpty (right_mac n')" using e by (simp add: rreq_sent_def side_def)
    have "carried junk beyond (left_mac m) (right_if n') fs = Some (right_mac n', rreq x h)"
      using e carried_flood [OF packets_wf(1) [OF x h(1)]] h by (simp add: rreq_sent_def)
    moreover obtain t' fs' where "handle_packet (cfg m) (clk m k) reply (right_mac n') (left_if m) (rreq x h) t
        = Some (t', \<lparr>dest_mac = right_mac n', src_mac = left_mac m, if_index = left_if m, body = rrep x 0\<rparr> # fs', [])"
      "idle t'" "next_hop (table t' ! s_node x) = right_mac n'"
      using rreq_end [OF x m' a h] by blast
    ultimately show ?thesis using x m'(2) by (auto simp: rrep_sent_def)
  qed
  obtain mids' t' out apps where o: "onward junk beyond reply k ((n, s) # mids @ [(m, t)]) fs [] = Some ((n, s) # mids' @ [(m, t')], out, apps)"
    "map fst mids' = map fst mids" "successively (\<lambda>(n, s) (n', s'). rreq_passed x n n' s') ((n, s) # mids')" "?Q (fst (last ((n, s) # mids'))) t' out apps"
    by (rule requests.row_then [OF e order_refl h' successively_True r last])
  have "leads_left (s_node x) ((n, s) # mids' @ [(m, t')])"
    using o(4) by (intro leads_left_snoc [OF o(3)]) (auto simp: rreq_passed_def)
  moreover have "\<forall>(n', s') \<in> set mids'. rrep_ready x (flip n') s'"
    using successively_elements [OF o(3)] by (fastforce simp: rreq_passed_def rrep_ready_def)
  ultimately show thesis using that o by blast
qed

lemma rrep_passage:
  assumes x: "session_ok x" and e: "rrep_sent x n s fs 0" and h: "int (length mids) + 1 < 2 ^ 31"
    and nx: "leads_right (s_node x) ((n, s) # mids @ [(m, t)])" and r: "\<forall>(n', s') \<in> set mids. rrep_ready x n' s'"
    and m: "node_ok x m" "side (cfg m) (left_if m) (left_mac m)" "curr_node (cfg m) = int (s_node x)" and t: "waiting x path t"
  obtains mids' t' out where "onward junk beyond reply k ((n, s) # mids @ [(m, t)]) fs [] = Some ((n, s) # mids' @ [(m, t')], out, [])"
    "map fst mids' = map fst mids" "leads_left (d_node x) ((n, s) # mids' @ [(m, t')])"
    "\<forall>(n', s') \<in> set mids'. app_ready x False (flip n') s'" "app_sent x False (flip m) t' out 0" "idle t'" "MapArray t' = MapArray t"
proof -
  let ?Q = "\<lambda>n' t' out apps. apps = [] \<and> app_sent x False (flip m) t' out 0 \<and> idle t' \<and> MapArray t' = MapArray t
    \<and> next_hop (table t' ! d_node x) = right_mac n'"
  have t': "odr_inv t" "num_packets_buffered t = 1" "send_buffer t ! 0 = ask x 0" "unknown (d_node x) t" using t by (simp_all add: waiting_def)
  have h': "0 + int (length mids) + 1 < 2 ^ 31" using h by simp
  have last: "\<exists>sender p t' out apps. carried junk beyond (left_mac m) (right_if n') fs = Some (sender, p)
      \<and> handle_packet (cfg m) (clk m k) reply sender (left_if m) p t = Some (t', out, apps) \<and> ?Q n' t' out apps"
    if e: "rrep_sent x n' s' fs h" and nx: "next_hop (table s' ! s_node x) = left_mac m" and h: "0 \<le> h" "h + 1 < 2 ^ 31" for n' s' fs h
  proof -
    have a: "checkAddressNotEmpty (right_mac n')" "length (right_mac n') = 6" "length (left_mac m) = 6"
      using e m(2) by (simp_all add: rrep_sent_def side_def)
    have "carried junk beyond (left_mac m) (right_if n') fs = Some (right_mac n', rrep x h)"
      using e nx a packets_wf(2) [OF x h(1)] h by (auto simp: rrep_sent_def carried_unicast)
    moreover obtain t' where "handle_packet (cfg m) (clk m k) reply (right_mac n') (left_if m) (rrep x h) t
        = Some (t', [\<lparr>dest_mac = right_mac n', src_mac = left_mac m, if_index = left_if m, body = ask x 0\<rparr>], [])"
      "idle t'" "next_hop (table t' ! d_node x) = right_mac n'" "MapArray t' = MapArray t"
      using rrep_end [OF x m t' a(1)] by blast
    ultimately show ?thesis using x m(2) by (auto simp: app_sent_def app_def app_dst_def)
  qed
  obtain mids' t' out apps where o: "onward junk beyond reply k ((n, s) # mids @ [(m, t)]) fs [] = Some ((n, s) # mids' @ [(m, t')], out, apps)"
    "map fst mids' = map fst mids" "successively (\<lambda>(n, s) (n', s'). rrep_passed x n n' s') ((n, s) # mids')" "?Q (fst (last ((n, s) # mids'))) t' out apps"
    by (rule replies.row_then [OF e order_refl h' nx [unfolded leads_right_def] r last])
  have "leads_left (d_node x) ((n, s) # mids' @ [(m, t')])"
    using o(4) by (intro leads_left_snoc [OF o(3)]) (auto simp: rrep_passed_def)
  moreover have "\<forall>(n', s') \<in> set mids'. app_ready x False (flip n') s'"
    using successively_elements [OF o(3)] by (fastforce simp: rrep_passed_def app_ready_def app_dst_def)
  ultimately show thesis using that o by blast
qed

lemma carried_app:
  assumes "app_sent x home n s fs h" "next_hop (table s ! app_dst x home) = left_mac m" "length (left_mac m) = 6" "0 \<le> h" "h + 1 < 2 ^ 31"
  shows "carried junk beyond (left_mac m) (right_if n) fs = Some (right_mac n, app x home h)" "checkAddressNotEmpty (right_mac n)"
proof -
  have "wf_packet (app x home h)" using assms packets_wf(3,4) [of x h] by (simp add: app_sent_def app_def)
  then show "carried junk beyond (left_mac m) (right_if n) fs = Some (right_mac n, app x home h)" "checkAddressNotEmpty (right_mac n)"
    using assms by (auto simp: app_sent_def side_def carried_unicast)
qed

lemma ask_passage:
  assumes x: "session_ok x" and e: "app_sent x False n s fs 0" and h: "int (length mids) + 1 < 2 ^ 31"
    and nx: "leads_right (d_node x) ((n, s) # mids @ [(m, t)])" and r: "\<forall>(n', s') \<in> set mids. app_ready x False n' s'"
    and m: "node_ok x m" "side (cfg m) (left_if m) (left_mac m)" "curr_node (cfg m) = int (d_node x)" and t: "idle t"
  obtains mids' t' out where "onward junk beyond (s_reply x) k ((n, s) # mids @ [(m, t)]) fs [] = Some ((n, s) # mids' @ [(m, t')], out, [])"
    "map fst mids' = map fst mids" "leads_left (s_node x) ((n, s) # mids' @ [(m, t')])"
    "\<forall>(n', s') \<in> set mids'. app_ready x True (flip n') s'" "app_sent x True (flip m) t' out 0" "idle t'"
proof -
  let ?Q = "\<lambda>n' t' out apps. apps = [] \<and> app_sent x True (flip m) t' out 0 \<and> idle t' \<and> next_hop (table t' ! s_node x) = right_mac n'"
  have h': "0 + int (length mids) + 1 < 2 ^ 31" using h by simp
  have nx': "successively (\<lambda>(n, s) (n', s'). next_hop (table s ! app_dst x False) = left_mac n') ((n, s) # mids @ [(m, t)])"
    using nx by (simp add: leads_right_def app_dst_def)
  have last: "\<exists>sender p t' out apps. carried junk beyond (left_mac m) (right_if n') fs = Some (sender, p)
      \<and> handle_packet (cfg m) (clk m k) (s_reply x) sender (left_if m) p t = Some (t', out, apps) \<and> ?Q n' t' out apps"
    if e: "app_sent x False n' s' fs h" and nx: "next_hop (table s' ! app_dst x False) = left_mac m" and h: "0 \<le> h" "h + 1 < 2 ^ 31" for n' s' fs h
  proof -
    have "length (left_mac m) = 6" using m(2) by (simp add: side_def)
    note c = carried_app [OF e nx this h]
    obtain t' where "handle_packet (cfg m) (clk m k) (s_reply x) (right_mac n') (left_if m) (ask x h) t
        = Some (t', [\<lparr>dest_mac = right_mac n', src_mac = left_mac m, if_index = left_if m, body = answer x 0\<rparr>], [])"
      "idle t'" "next_hop (table t' ! s_node x) = right_mac n'"
      using app_end_server [OF x m t c(2)] by blast
    then show ?thesis using x m(2) c(1) by (auto simp: app_sent_def app_def app_dst_def)
  qed
  obtain mids' t' out apps where o: "onward junk beyond (s_reply x) k ((n, s) # mids @ [(m, t)]) fs [] = Some ((n, s) # mids' @ [(m, t')], out, apps)"
    "map fst mids' = map fst mids" "successively (\<lambda>(n, s) (n', s'). app_passed x False n n' s') ((n, s) # mids')" "?Q (fst (last ((n, s) # mids'))) t' out apps"
    by (rule apps.row_then [OF e order_refl h' nx' r last])
  have "leads_left (s_node x) ((n, s) # mids' @ [(m, t')])"
    using o(4) by (intro leads_left_snoc [OF o(3)]) (auto simp: app_passed_def app_src_def)
  moreover have "\<forall>(n', s') \<in> set mids'. app_ready x True (flip n') s'"
    using successively_elements [OF o(3)] by (fastforce simp: app_passed_def app_ready_def app_dst_def app_src_def)
  ultimately show thesis using that o by blast
qed

lemma answer_passage:
  assumes x: "session_ok x" and e: "app_sent x True n s fs 0" and h: "int (length mids) + 1 < 2 ^ 31"
    and nx: "leads_right (s_node x) ((n, s) # mids @ [(m, t)])" and r: "\<forall>(n', s') \<in> set mids. app_ready x True n' s'"
    and m: "node_ok x m" "side (cfg m) (left_if m) (left_mac m)" "curr_node (cfg m) = int (s_node x)"
    and t: "idle t" "searchMap (s_port x) (MapArray t) = Some path"
  obtains c where "onward junk beyond reply k ((n, s) # mids @ [(m, t)]) fs []
      = Some (c, [], [(path, msg_send2 (d_ip x) DEST_PORT (s_reply x) (char_at (s_reply x) 1 - 48))])"
proof -
  let ?Q = "\<lambda>n' t' out apps. out = [] \<and> apps = [(path, msg_send2 (d_ip x) DEST_PORT (s_reply x) (char_at (s_reply x) 1 - 48))]"
  have h': "0 + int (length mids) + 1 < 2 ^ 31" using h by simp
  have nx': "successively (\<lambda>(n, s) (n', s'). next_hop (table s ! app_dst x True) = left_mac n') ((n, s) # mids @ [(m, t)])"
    using nx by (simp add: leads_right_def app_dst_def)
  have last: "\<exists>sender p t' out apps. carried junk beyond (left_mac m) (right_if n') fs = Some (sender, p)
      \<and> handle_packet (cfg m) (clk m k) reply sender (left_if m) p t = Some (t', out, apps) \<and> ?Q n' t' out apps"
    if e: "app_sent x True n' s' fs h" and nx: "next_hop (table s' ! app_dst x True) = left_mac m" and h: "0 \<le> h" "h + 1 < 2 ^ 31" for n' s' fs h
  proof -
    have "length (left_mac m) = 6" using m(2) by (simp add: side_def)
    note c = carried_app [OF e nx this h]
    obtain t' where "handle_packet (cfg m) (clk m k) reply (right_mac n') (left_if m) (answer x h) t
        = Some (t', [], [(path, msg_send2 (d_ip x) DEST_PORT (s_reply x) (char_at (s_reply x) 1 - 48))])"
      using app_end_client [OF x m t c(2)] by blast
    then show ?thesis using c(1) by (auto simp: app_def)
  qed
  obtain mids' t' out apps where "onward junk beyond reply k ((n, s) # mids @ [(m, t)]) fs [] = Some ((n, s) # mids' @ [(m, t')], out, apps)"
    "?Q (fst (last ((n, s) # mids'))) t' out apps"
    by (rule apps.row_then [OF e order_refl h' nx' r last])
  then show thesis using that by blast
qed

lemma turn_row: "turn ((n, s) # mids @ [(m, t)]) = (flip m, t) # turn mids @ [(flip n, s)]"
  by (simp add: turn_Cons)

lemma ready_turn: "\<forall>(n, s) \<in> set mids. P (flip n) s \<Longrightarrow> \<forall>(n, s) \<in> set (turn mids). P n s"
  by (fastforce simp: set_turn)

lemma length_turn_eq: "map fst mids' = map fst mids \<Longrightarrow> length (turn mids') = length mids"
  by (metis length_map turn_simps(5))

lemma answer_printed:
  assumes "session_ok x" "d_ip x \<noteq> []" "CHR '';'' \<notin> set (d_ip x)" "CHR '';'' \<notin> set (s_reply x)"
  shows "show_receipt (msg_send2 (d_ip x) DEST_PORT (s_reply x) f) (nul # old) = Printed (Some (s_reply x))"
proof -
  have "printReceivingMsg (msg_send2 (d_ip x) DEST_PORT (s_reply x) f @ nul # old) = Some (Some (s_reply x @ tail_text (nul # old)))"
    using assms by (intro print_reply) (auto simp: session_ok_def DEST_PORT_def)
  then show ?thesis by (simp add: show_receipt_def tail_text_def cstr_def)
qed

section \<open>Property\<close>

text \<open>
  C6 (a time request is answered over any number of nodes).  Routing daemons in a row know no route to either end.  A
  client of the first one asks the last node for its time.  The route request is flooded along the row, the
  reply comes back and installs the route, the waiting question leaves and is handed on to the time server,
  and its answer comes back to the client that asked, which prints the server's text; all over the bytes of
  the frames, provided that the exchange takes less than the time after which a route is stale and that
  every hardware address on the way has an odd byte.
\<close>

theorem conversation_completes:
  assumes "session_ok x" and "d_ip x \<noteq> []" and "CHR '';'' \<notin> set (d_ip x)" and "CHR '';'' \<notin> set (s_reply x)"
    and "start_ok x n s" and "\<forall>(n', s') \<in> set mids. rreq_ready x n' s'" and "end_ok x m t" and "int (length mids) + 1 < 2 ^ 31"
  shows "\<exists>c text. conversation junk beyond (s_reply x) path (msg_send (d_ip x) DEST_PORT ''request time'' (s_flag x)) ((n, s) # mids @ [(m, t)])
      = Some (c, [], [(path, text)]) \<and> show_receipt text (nul # old) = Printed (Some (s_reply x))"
proof -
  note x = assms(1)
  have n: "node_ok x (flip n)" "side (cfg (flip n)) (left_if (flip n)) (left_mac (flip n))" "curr_node (cfg (flip n)) = int (s_node x)"
    and m: "node_ok x m" "side (cfg m) (left_if m) (left_mac m)" "curr_node (cfg m) = int (d_node x)"
    using assms(5,7) by (simp_all add: start_ok_def end_ok_def)
  let ?text = "msg_send2 (d_ip x) DEST_PORT (s_reply x) (char_at (s_reply x) 1 - 48)"
  obtain s1 where c: "handle_client (cfg n) (clk n 0) path (msg_send (d_ip x) DEST_PORT ''request time'' (s_flag x)) s
      = Some (s1, flood (cfg n) (rreq x 0))" "waiting x path s1"
    by (rule client_starts [OF x assms(5,2,3)])
  then have "rreq_sent x n s1 (flood (cfg n) (rreq x 0)) 0" using x assms(5) by (simp add: rreq_sent_def start_ok_def)
  from rreq_passage [OF x this assms(8,6,7)] obtain mids1 t1 out1 where
    p1: "onward junk beyond (s_reply x) 1 ((n, s1) # mids @ [(m, t)]) (flood (cfg n) (rreq x 0)) [] = Some ((n, s1) # mids1 @ [(m, t1)], out1, [])"
    and l1: "map fst mids1 = map fst mids" "leads_left (s_node x) ((n, s1) # mids1 @ [(m, t1)])"
      "\<forall>(n', s') \<in> set mids1. rrep_ready x (flip n') s'" "rrep_sent x (flip m) t1 out1 0" "idle t1" by metis
  have len: "int (length (turn mids1)) + 1 < 2 ^ 31" using length_turn_eq [OF l1(1)] assms(8) by simp
  from rrep_passage [OF x l1(4) len leads_turn [OF l1(2), unfolded turn_row] ready_turn [OF l1(3)] n c(2)] obtain mids2 t2 out2 where
    p2: "onward junk beyond (s_reply x) 2 ((flip m, t1) # turn mids1 @ [(flip n, s1)]) out1 [] = Some ((flip m, t1) # mids2 @ [(flip n, t2)], out2, [])"
    and l2: "map fst mids2 = map fst (turn mids1)" "leads_left (d_node x) ((flip m, t1) # mids2 @ [(flip n, t2)])"
      "\<forall>(n', s') \<in> set mids2. app_ready x False (flip n') s'" "app_sent x False (flip (flip n)) t2 out2 0" "idle t2" "MapArray t2 = MapArray s1" by metis
  have len2: "int (length (turn mids2)) + 1 < 2 ^ 31" using length_turn_eq [OF l2(1)] len by simp
  from ask_passage [OF x l2(4) [unfolded flip_flip] len2 leads_turn [OF l2(2), unfolded turn_row flip_flip] ready_turn [OF l2(3)] m l1(5)] obtain mids3 t3 out3 where
    p3: "onward junk beyond (s_reply x) 3 ((n, t2) # turn mids2 @ [(m, t1)]) out2 [] = Some ((n, t2) # mids3 @ [(m, t3)], out3, [])"
    and l3: "map fst mids3 = map fst (turn mids2)" "leads_left (s_node x) ((n, t2) # mids3 @ [(m, t3)])"
      "\<forall>(n', s') \<in> set mids3. app_ready x True (flip n') s'" "app_sent x True (flip m) t3 out3 0" by metis
  have len3: "int (length (turn mids3)) + 1 < 2 ^ 31" using length_turn_eq [OF l3(1)] len2 by simp
  have sm: "searchMap (s_port x) (MapArray t2) = Some path" using c(2) l2(6) by (simp add: waiting_def)
  obtain c4 where p4: "onward junk beyond (s_reply x) 4 ((flip m, t3) # turn mids3 @ [(flip n, t2)]) out3 [] = Some (c4, [], [(path, ?text)])"
    by (rule answer_passage [OF x l3(4) len3 leads_turn [OF l3(2), unfolded turn_row] ready_turn [OF l3(3)] n l2(5) sm])
  have "conversation junk beyond (s_reply x) path (msg_send (d_ip x) DEST_PORT ''request time'' (s_flag x)) ((n, s) # mids @ [(m, t)])
      = Some (c4, [], [(path, ?text)])"
    using c(1) p1 p2 p3 p4 by (simp add: conversation_def turn_row)
  then show ?thesis using answer_printed [OF assms(1-4)] by blast
qed

text \<open>Three machines in a row: the first has asked the third, and the second lies between them.\<close>

definition row_session :: session where
  "row_session = \<lparr>s_ip = ''10.0.0.1'', d_ip = ''10.0.0.3'', s_node = 1, d_node = 3, s_port = 1, s_flag = 0, s_bid = 1,
     s_reply = ''Wed Jun 30 21:49:08 1993'' @ [CHR 0x0D, CHR 0x0A]\<rparr>"

definition vm :: "string \<Rightarrow> string \<Rightarrow> byte \<Rightarrow> node" where
  "vm name ip b = \<lparr>cfg = \<lparr>hostname_of = lan, vm_name = name, host_addr = ip, local_CanonicalIP = ip,
     interfaces = [([0, 12, 41, 0, b, 33], 3), ([0, 12, 41, 0, b, 43], 4)], stale_time = 20\<rparr>,
     left_if = 3, left_mac = [0, 12, 41, 0, b, 33], right_if = 4, right_mac = [0, 12, 41, 0, b, 43], clk = \<lambda>k. 100 + int (min k 4)\<rparr>"

lemma row_session_ok: "session_ok row_session"
  by (simp add: session_ok_def row_session_def IPAddr_SIZE_def DATA_SIZE_def nul_def)

lemma vm_side:
  "side (cfg (vm name ip b)) (left_if (vm name ip b)) (left_mac (vm name ip b))"
  "side (cfg (vm name ip b)) (right_if (vm name ip b)) (right_mac (vm name ip b))"
proof -
  have "(41 :: byte) AND 1 = 1" by code_simp
  then show "side (cfg (vm name ip b)) (left_if (vm name ip b)) (left_mac (vm name ip b))"
    "side (cfg (vm name ip b)) (right_if (vm name ip b)) (right_mac (vm name ip b))"
    by (simp_all add: side_def vm_def getMacAddrByInferFaceNum_def checkAddressNotEmpty_def numeral_eq_Suc)
qed

lemma vm_ok: "node_ok row_session (vm name ip b)"
proof -
  have "getNodeByIP vm2 ''10.0.0.1'' = Some 1" "getNodeByIP vm2 ''10.0.0.3'' = Some 3" by code_simp+
  then have "getNodeByIP (cfg (vm name ip b)) ''10.0.0.1'' = Some 1" "getNodeByIP (cfg (vm name ip b)) ''10.0.0.3'' = Some 3"
    by (simp_all add: getNodeByIP_def host_name_def vm_def vm2_def)
  moreover have "100 + int (min i 4) < 100 + int (min j 4) + 20" for i j :: nat by simp
  ultimately show ?thesis by (simp add: node_ok_def row_session_def vm_def)
qed

lemma idle_init: "idle odr_init"
  using odr_init_inv by (simp add: idle_def odr_init_def)

lemma init_unknown: "i \<le> NODES \<Longrightarrow> unknown i odr_init"
  using even_mac_empty [of "replicate 6 0"] by (simp add: unknown_def odr_init_def zero_entry_def nth_append del: replicate_Suc)

lemma row_ends:
  "start_ok row_session (vm ''vm1'' ''10.0.0.1'' 1) odr_init" "rreq_ready row_session (vm ''vm2'' ''10.0.0.2'' 2) odr_init"
  "end_ok row_session (vm ''vm3'' ''10.0.0.3'' 3) odr_init"
proof -
  have c: "curr_node (cfg (vm ''vm1'' ''10.0.0.1'' 1)) = 1" "curr_node (cfg (vm ''vm2'' ''10.0.0.2'' 2)) = 2"
    "curr_node (cfg (vm ''vm3'' ''10.0.0.3'' 3)) = 3" by code_simp+
  have t: "highest_broadcast_id (table odr_init ! 3) ! 1 = 0" by code_simp
  have u: "unknown 1 odr_init" "unknown 3 odr_init" using init_unknown by (simp_all add: NODES_def)
  have p: "s_node row_session = 1" "d_node row_session = 3" "s_port row_session = 1" "s_bid row_session = 1" "s_ip row_session = ''10.0.0.1''"
    by (simp_all add: row_session_def)
  have o: "sourcePort odr_init = 1" "broadcast_id odr_init = 0" "MapArray odr_init = initialMap" by (simp_all add: odr_init_def)
  show "start_ok row_session (vm ''vm1'' ''10.0.0.1'' 1) odr_init"
    unfolding start_ok_def p o using vm_ok vm_side c(1) idle_init u initialMap_facts by (simp add: vm_def MAP_SIZE_def)
  show "rreq_ready row_session (vm ''vm2'' ''10.0.0.2'' 2) odr_init"
    unfolding rreq_ready_def mid_def p using vm_ok vm_side c(2) idle_init u t by simp
  show "end_ok row_session (vm ''vm3'' ''10.0.0.3'' 3) odr_init"
    unfolding end_ok_def p using vm_ok vm_side c(3) idle_init u t by simp
qed

theorem conversation_completes_witness:
  "\<exists>c text. conversation (\<lambda>i. of_nat i) [] (s_reply row_session) ''/tmp/a'' ''10.0.0.3;5678;0;request time''
      [(vm ''vm1'' ''10.0.0.1'' 1, odr_init), (vm ''vm2'' ''10.0.0.2'' 2, odr_init), (vm ''vm3'' ''10.0.0.3'' 3, odr_init)]
      = Some (c, [], [(''/tmp/a'', text)])
    \<and> show_receipt text (nul # ''x'') = Printed (Some (''Wed Jun 30 21:49:08 1993'' @ [CHR 0x0D, CHR 0x0A]))"
proof -
  have m: "msg_send (d_ip row_session) DEST_PORT ''request time'' (s_flag row_session) = ''10.0.0.3;5678;0;request time''" by code_simp
  have "d_ip row_session \<noteq> []" "CHR '';'' \<notin> set (d_ip row_session)" "CHR '';'' \<notin> set (s_reply row_session)"
    by (simp_all add: row_session_def)
  from conversation_completes [OF row_session_ok this row_ends(1) _ row_ends(3), of "[(vm ''vm2'' ''10.0.0.2'' 2, odr_init)]" "\<lambda>i. of_nat i" "[]" "''/tmp/a''" "''x''"]
  show ?thesis using row_ends(2) unfolding m by (simp add: row_session_def)
qed

end
