(* ===== verification/Arp_Props.thy ===== *)
theory Arp_Props
  imports Arp
begin

text \<open>
  What the resolution daemon guarantees: dotted addresses and messages survive the round trip, a request of
  a client is resolved over two nodes, what happens to later clients, and when the table overflows.
\<close>

section \<open>Dotted addresses\<close>

lemma takeWhile_digits:
  "\<forall>c \<in> set ds. is_digit c \<Longrightarrow> rest = [] \<or> \<not> is_digit (hd rest) \<Longrightarrow>
    takeWhile is_digit (ds @ rest) = ds \<and> dropWhile is_digit (ds @ rest) = rest"
  by (cases rest) (auto simp: takeWhile_append2 dropWhile_append2)

lemma scan_int_dec:
  assumes "0 \<le> n" "n < 2 ^ 31" "rest = [] \<or> \<not> is_digit (hd rest)"
  shows "scan_int (dec n @ rest) = Some (n, rest)"
proof -
  let ?ds = "dec_nat (nat n)"
  obtain c cs where c: "?ds = c # cs" by (cases "?ds") auto
  have dc: "is_digit c" using dec_nat_digits [of c "nat n"] c by simp
  have "\<not> is_space c" "c \<noteq> CHR ''-''" "c \<noteq> CHR ''+''" using dc by (auto simp: is_digit_def is_space_def)
  then have s: "dropWhile is_space (?ds @ rest) = ?ds @ rest" "hd ?ds \<noteq> CHR ''-''" "hd ?ds \<noteq> CHR ''+''"
    by (simp_all add: c)
  have t: "takeWhile is_digit (?ds @ rest) = ?ds" "dropWhile is_digit (?ds @ rest) = rest"
    using takeWhile_digits [OF _ assms(3), of ?ds] dec_nat_digits by blast+
  have "max (- (2 ^ 63)) (min (2 ^ 63 - 1) n) = n" "int32 n" using assms(1,2) by (simp_all add: int32_def)
  then show ?thesis
    using assms(1) by (simp add: scan_int_def dec_def s t digits_val_dec_nat to_int32_id Let_def del: append_assoc)
qed

lemma scan_int_byte [simp]: "rest = [] \<or> \<not> is_digit (hd rest) \<Longrightarrow> scan_int (dec (uint (b::byte)) @ rest) = Some (uint b, rest)"
proof -
  assume "rest = [] \<or> \<not> is_digit (hd rest)"
  moreover have "uint b < 2 ^ 31" using unsigned_less [of b, where ?'a = int] by simp
  ultimately show ?thesis by (intro scan_int_dec) simp_all
qed

lemma not_digit_dot [simp]: "\<not> is_digit CHR ''.''"
  by (simp add: is_digit_def)

lemma setIPAddr_ntop: "length ip = 4 \<Longrightarrow> setIPAddr (ip_ntop ip) = Some ip"
proof -
  assume "length ip = 4"
  then obtain a b c d where ip: "ip = [a, b, c, d]" by (auto simp: numeral_eq_Suc length_Suc_conv)
  have d: "scan_int (dec (uint d)) = Some (uint d, [])" using scan_int_byte [of "[]" d] by simp
  show ?thesis by (simp add: setIPAddr_def ip_ntop_def ip d)
qed

lemma ip_ntop_inj: "length ip = 4 \<Longrightarrow> length ip' = 4 \<Longrightarrow> ip_ntop ip = ip_ntop ip' \<longleftrightarrow> ip = ip'"
  using setIPAddr_ntop by (metis option.inject)

lemma ip_ntop_chars: "nul \<notin> set (ip_ntop ip)"
  using nul_not_dec by (auto simp: ip_ntop_def nul_def)

lemma ip_ntop_length: "length (ip_ntop ip) < IPADDR_SIZE"
proof -
  have "length (dec (uint b)) \<le> 3" for b :: byte
  proof -
    have "unat b < 256" using unsigned_less [of b, where ?'a = nat] by simp
    then show ?thesis using dec_nat_length [of "nat (uint b)" 3] by (simp add: dec_def)
  qed
  from this [of "ip ! 0"] this [of "ip ! 1"] this [of "ip ! 2"] this [of "ip ! 3"]
  show ?thesis by (simp add: ip_ntop_def IPADDR_SIZE_def)
qed

section \<open>Messages\<close>

lemma decode_encode_arp: "wf_arp m \<Longrightarrow> decode_arp (encode_arp m) = Some m"
  by (auto simp: decode_arp_def encode_arp_def wf_arp_def nth_append numeral_eq_Suc)

lemma encode_arp_length: "wf_arp m \<Longrightarrow> length (encode_arp m) = 30"
  by (simp add: encode_arp_def wf_arp_def)

lemma decode_arp_wf: "decode_arp bs = Some m \<Longrightarrow> wf_arp m"
  by (auto simp: decode_arp_def wf_arp_def split: if_splits)

interpretation arp: wire_codec encode_arp decode_arp wf_arp 30
  by unfold_locales (simp_all add: decode_encode_arp encode_arp_length decode_arp_wf)

lemma arp_frame_received:
  assumes "wf_arp m" "length src = 6" "length dst = 6"
  shows "recvArpMessage (sendArpMessage src dst m) = Some m" and "length (sendArpMessage src dst m) = ARP_LEN"
proof -
  have l: "length (encode_arp m) = 30" using arp.enc_length [OF assms(1)] .
  have "sendArpMessage src dst m = dst @ src @ SELF_PROTOCOL @ encode_arp m @ replicate 6 0"
    using assms(2,3) l by (simp add: sendArpMessage_def Let_def SELF_PROTOCOL_def ARP_LEN_def)
  then show "recvArpMessage (sendArpMessage src dst m) = Some m" "length (sendArpMessage src dst m) = ARP_LEN"
    using assms(2,3) l arp.dec_enc [OF assms(1)] by (simp_all add: recvArpMessage_def SELF_PROTOCOL_def ARP_LEN_def)
qed

section \<open>The table\<close>

definition put_entry :: "string \<Rightarrow> mac \<times> int \<times> int \<times> int \<Rightarrow> arp_entry list \<Rightarrow> arp_entry list" where
  "put_entry ip v t = (case v of (m, hat, ifx, fd) \<Rightarrow>
     t @ [\<lparr>a_ipAddr = ip, a_macAddr = m, sll_hatype = hat, sll_ifindex = ifx, conn_fd = fd\<rparr>])"

definition entry_data :: "arp_entry \<Rightarrow> mac \<times> int \<times> int \<times> int" where
  "entry_data e = (a_macAddr e, sll_hatype e, sll_ifindex e, conn_fd e)"

definition lookup_entry :: "string \<Rightarrow> arp_entry list \<Rightarrow> (mac \<times> int \<times> int \<times> int) option" where
  "lookup_entry ip t = map_option (\<lambda>i. entry_data (t ! i)) (indexOfIP ip t)"

interpretation table: slot_table put_entry lookup_entry "\<lambda>t. ARP_TABLE_SIZE - length t" "\<lambda>_. True" "\<lambda>t. length t \<le> ARP_TABLE_SIZE"
proof
  fix t :: "arp_entry list" and ip and v :: "mac \<times> int \<times> int \<times> int"
  assume t: "length t \<le> ARP_TABLE_SIZE" and f: "0 < ARP_TABLE_SIZE - length t"
  obtain m hat ifx fd where v: "v = (m, hat, ifx, fd)" by (cases v)
  show "length (put_entry ip v t) \<le> ARP_TABLE_SIZE" using f by (simp add: put_entry_def v)
  show "ARP_TABLE_SIZE - length (put_entry ip v t) = ARP_TABLE_SIZE - length t - 1" by (simp add: put_entry_def v)
  show "lookup_entry j (put_entry ip v t) = (case lookup_entry j t of Some x \<Rightarrow> Some x | None \<Rightarrow> if j = ip then Some v else None)" for j
    by (auto simp: lookup_entry_def indexOfIP_def put_entry_def v find_index_append entry_data_def nth_append
        split: option.splits dest: find_index_bound)
qed

lemma indexOfIP_new: "indexOfIP ip t = None \<Longrightarrow> a_ipAddr e = ip \<Longrightarrow> indexOfIP ip (t @ [e]) = Some (length t)"
  by (simp add: indexOfIP_def find_index_append)

lemma indexOfIP_Some: "indexOfIP ip t = Some i \<Longrightarrow> i < length t \<and> a_ipAddr (t ! i) = ip"
  by (auto simp: indexOfIP_def find_index_Some)

text \<open>The comparison of memory.\<close>

lemma str_eq_ends: "0 \<in> set xs \<Longrightarrow> length xs \<le> length ys \<Longrightarrow> str_eq xs ys \<noteq> None"
  by (induction xs ys rule: str_eq.induct) auto

lemma str_eq_same_zero: "0 \<in> set zs \<Longrightarrow> str_eq (zs @ xs) (zs @ ys) = Some True"
  by (induction zs) auto

lemma str_eq_same: "0 \<notin> set zs \<Longrightarrow> str_eq (zs @ xs) (zs @ ys) = str_eq xs ys"
  by (induction zs) auto

definition entry_sane :: "arp_entry \<Rightarrow> bool" where
  "entry_sane e \<longleftrightarrow> length (a_macAddr e) = 6 \<and> 0 \<le> sll_ifindex e \<and> sll_ifindex e < 2 ^ 24"

lemma entry_mem_zero: "entry_sane e \<Longrightarrow> 0 \<in> set (entry_mem e) \<and> length (entry_mem e) = 16"
proof -
  assume e: "entry_sane e"
  then have "drop_bit 24 (sll_ifindex e) = 0" by (simp add: entry_sane_def drop_bit_eq_div)
  then show ?thesis using e by (simp add: entry_mem_def entry_sane_def be32_bytes_def)
qed

lemma checkEntryExist_returns:
  assumes "list_all entry_sane t" "wf_arp m"
  shows "checkEntryExist m t \<noteq> None"
proof -
  have "length (sender_mem m) = 20" using assms(2) by (simp add: sender_mem_def wf_arp_def)
  then have "check_entries ip (sender_mem m) i t \<noteq> None" for ip i
    using assms(1)
  proof (induction t arbitrary: i)
    case (Cons e t)
    then obtain b where "str_eq (entry_mem e) (sender_mem m) = Some b"
      using str_eq_ends [of "entry_mem e" "sender_mem m"] entry_mem_zero [of e] by auto
    then show ?case using Cons by auto
  qed simp
  then show ?thesis by (simp add: checkEntryExist_def)
qed

section \<open>The invariant\<close>

definition arp_inv :: "arp \<Rightarrow> bool" where
  "arp_inv st \<longleftrightarrow> length (arpTable st) \<le> ARP_TABLE_SIZE \<and> list_all entry_sane (arpTable st)"

fun event_sane :: "arp_event \<Rightarrow> bool" where
  "event_sane (ArpClient fd reads) \<longleftrightarrow> True"
| "event_sane (ArpPacket ifindex hat bytes) \<longleftrightarrow> 0 \<le> ifindex \<and> ifindex < 2 ^ 24"

lemma add_entry_inv: "arp_inv st \<Longrightarrow> entry_sane e \<Longrightarrow> add_entry e st = Some st' \<Longrightarrow> arp_inv st'"
  by (auto simp: arp_inv_def add_entry_def split: if_splits)

lemma recvArpMessage_total: "\<exists>m. recvArpMessage bytes = Some m \<and> wf_arp m"
proof -
  have "length (drop 14 (take 44 (bytes @ replicate 44 0))) = 30" by simp
  then obtain m where "decode_arp (drop 14 (take 44 (bytes @ replicate 44 0))) = Some m" by (simp add: decode_arp_def)
  then show ?thesis using decode_arp_wf by (auto simp: recvArpMessage_def Let_def)
qed

lemma arp_reply_inv:
  assumes "arp_inv st" "0 \<le> ifx" "ifx < 2 ^ 24" "wf_arp m"
  shows "arp_inv (fst (arp_reply ifx hat m st))"
proof -
  have "entry_sane e' \<Longrightarrow> list_all entry_sane (arpTable st) \<Longrightarrow> list_all entry_sane ((arpTable st)[i := e'])" for i e'
    using set_update_subset_insert [of "arpTable st" i e'] by (auto simp: list_all_iff)
  then show ?thesis
    using assms by (auto simp: arp_reply_def arp_inv_def Let_def entry_sane_def wf_arp_def split: option.splits)
qed

text \<open>The effects that concern a descriptor.\<close>

fun touches :: "int \<Rightarrow> arp_effect \<Rightarrow> bool" where
  "touches fd (ArpFrame src dst ifx m) \<longleftrightarrow> False"
| "touches fd (ToClient fd' bs) \<longleftrightarrow> fd = fd'"
| "touches fd (CloseFd fd') \<longleftrightarrow> fd = fd'"

definition untouched :: "int \<Rightarrow> arp_effect list \<Rightarrow> bool" where
  "untouched fd fx \<longleftrightarrow> list_all (\<lambda>f. \<not> touches fd f) fx"

lemma client_lookupE [consumes 1, case_names new old]:
  assumes "client_lookup ifs fd ip st = Some (st', fx)"
  obtains e where "indexOfIP ip (arpTable st) = None" "a_macAddr e = replicate 6 0" "sll_ifindex e = 0" "a_ipAddr e = ip"
      "conn_fd e = fd" "add_entry e st = Some st'" "\<forall>fd. untouched fd fx"
  | i where "indexOfIP ip (arpTable st) = Some i" "st' = st"
      "fx = (if checkAddressNotEmpty (a_macAddr (arpTable st ! i)) then [ToClient fd (a_macAddr (arpTable st ! i)), CloseFd fd] else [])"
proof (cases "indexOfIP ip (arpTable st)")
  case None
  let ?e = "\<lparr>a_ipAddr = ip, a_macAddr = replicate 6 0, sll_hatype = 0, sll_ifindex = 0, conn_fd = fd\<rparr>"
  have "add_entry ?e st = Some st' \<and> (\<exists>src dst ifx m. fx = [ArpFrame src dst ifx m])"
    using assms None by (auto simp: client_lookup_def bind_eq_Some_conv)
  then have "add_entry ?e st = Some st'" "\<forall>fd. untouched fd fx" by (auto simp: untouched_def)
  then show ?thesis using that(1) [of ?e] None by simp
next
  case (Some i)
  have "st' = st" "fx = (if checkAddressNotEmpty (a_macAddr (arpTable st ! i)) then [ToClient fd (a_macAddr (arpTable st ! i)), CloseFd fd] else [])"
    using assms Some by (auto simp: client_lookup_def)
  from that(2) [OF Some this] show ?thesis .
qed

lemma arp_client_inv:
  assumes "arp_inv st" "arp_client ifs fd reads st = Some (st', fx)"
  shows "arp_inv st'"
proof -
  obtain ip where "client_lookup ifs fd ip st = Some (st', fx)" using assms(2) by (auto simp: arp_client_def bind_eq_Some_conv)
  then show ?thesis
  proof (cases rule: client_lookupE)
    case (new e)
    then have "entry_sane e" by (simp add: entry_sane_def)
    then show ?thesis using add_entry_inv assms(1) new(6) by blast
  qed (use assms(1) in simp)
qed

lemma arp_request_inv:
  assumes "arp_inv st" "0 \<le> ifx" "ifx < 2 ^ 24" "wf_arp m" "arp_request ifs ifx hat m st = Some (st', fx)"
  shows "arp_inv st'"
proof -
  have "entry_sane \<lparr>a_ipAddr = ip_ntop (sender_ip m), a_macAddr = sender_mac m, sll_hatype = hat, sll_ifindex = ifx, conn_fd = -1\<rparr>"
    using assms(2-4) by (simp add: entry_sane_def wf_arp_def)
  then show ?thesis
    using assms(1,5) by (auto simp: arp_request_def bind_eq_Some_conv Let_def split: if_splits intro: add_entry_inv)
qed

lemma arp_step_inv: "arp_inv st \<Longrightarrow> event_sane ev \<Longrightarrow> arp_step ifs st ev = Some (st', fx) \<Longrightarrow> arp_inv st'"
proof (cases ev)
  case (ArpPacket ifx hat bytes)
  assume i: "arp_inv st" and e: "event_sane ev" and s: "arp_step ifs st ev = Some (st', fx)"
  obtain m where m: "recvArpMessage bytes = Some m" "wf_arp m" using recvArpMessage_total by blast
  show ?thesis
    using s e m(1) arp_request_inv [OF i _ _ m(2)] arp_reply_inv [OF i _ _ m(2), of ifx hat] i
    by (auto simp: ArpPacket arp_packet_def split: if_splits)
qed (auto intro: arp_client_inv)

section \<open>Resolution\<close>

lemma char_of_zero [simp]: "char_of_byte 0 = nul"
  by (metis byte_of_char_of byte_of_zero)

lemma cstr_string: "nul \<notin> set s \<Longrightarrow> rest = [] \<or> hd rest = nul \<Longrightarrow> cstr (s @ rest) = s"
  by (cases rest) (auto simp: cstr_append, auto simp: cstr_def)

lemma read_ip_ntop:
  assumes "rest = [] \<or> hd rest = 0"
  shows "read_ip [map byte_of (ip_ntop ip) @ rest] = Some (ip_ntop ip)"
proof -
  have l: "length (ip_ntop ip) < IPADDR_SIZE" by (rule ip_ntop_length)
  let ?r = "map char_of_byte (take (IPADDR_SIZE - length (ip_ntop ip)) rest)"
  have "map char_of_byte (take IPADDR_SIZE (map byte_of (ip_ntop ip) @ rest)) = ip_ntop ip @ ?r"
    using l by (simp add: comp_def)
  moreover have "?r = [] \<or> hd ?r = nul" using assms l by (cases rest) (auto simp: take_Cons')
  ultimately have "cstr (map char_of_byte (take IPADDR_SIZE (map byte_of (ip_ntop ip) @ rest))) = ip_ntop ip"
    using cstr_string [OF ip_ntop_chars] by simp
  moreover have "map byte_of (ip_ntop ip) @ rest \<noteq> []" by (simp add: ip_ntop_def)
  ultimately show ?thesis using l by (simp add: read_ip_def Let_def del: map_append map_map take_append append_is_Nil_conv)
qed

text \<open>A client asks for an address that is not in the table.\<close>

lemma arp_client_asks:
  assumes "indexOfIP (ip_ntop tip) (arpTable st) = None" "length (arpTable st) < ARP_TABLE_SIZE" "length tip = 4"
    and "i_ipAddr a = ip_ntop sip" "length sip = 4" "rest = [] \<or> hd rest = 0"
  shows "arp_client (a # ifs) fd [map byte_of (ip_ntop tip) @ rest] st =
    Some (st\<lparr>arpTable := arpTable st @ [\<lparr>a_ipAddr = ip_ntop tip, a_macAddr = replicate 6 0, sll_hatype = 0, sll_ifindex = 0, conn_fd = fd\<rparr>]\<rparr>,
      [ArpFrame (i_macAddr a) (replicate 6 0xFF) (i_interfaceNum a)
        (initArpMessage\<lparr>target_ip := tip, sender_ip := sip, target_mac := replicate 6 0xFF, sender_mac := i_macAddr a, msg_op := [0, 0xFF]\<rparr>)])"
  using assms by (simp add: arp_client_def read_ip_ntop client_lookup_def add_entry_def load_def request_message_def setIPAddr_ntop)

text \<open>A request for this node, and the reply that answers the question of a client.\<close>

lemma arp_request_answers:
  assumes "arp_inv st" "length (arpTable st) < ARP_TABLE_SIZE" "wf_arp m" "i_interfaceNum b \<noteq> -1" "i_ipAddr b = ip_ntop (target_ip m)"
  shows "\<exists>st'. arp_request (b # ifs) ifx hat m st = Some (st',
    [ArpFrame (i_macAddr b) (sender_mac m) (i_interfaceNum b) (reply_message b m)])"
proof -
  obtain i where "checkEntryExist m (arpTable st) = Some i"
    using checkEntryExist_returns assms(1,3) by (auto simp: arp_inv_def)
  then show ?thesis
    using assms(2,4,5) by (auto simp: arp_request_def checkIsDestNode_def add_entry_def load_def Let_def reply_message_def)
qed

lemma arp_reply_delivers:
  assumes "indexOfIP (ip_ntop (sender_ip m)) (arpTable st) = Some i" "conn_fd (arpTable st ! i) = fd" "0 \<le> fd"
  shows "arp_reply ifx hat m st = (st\<lparr>arpTable := (arpTable st)[i := (arpTable st ! i)\<lparr>a_macAddr := sender_mac m, sll_ifindex := ifx,
      sll_hatype := hat, conn_fd := -1\<rparr>]\<rparr>, [ToClient fd (sender_mac m), CloseFd fd])"
  using assms by (simp add: arp_reply_def Let_def)

lemma indexOfIP_update:
  assumes "indexOfIP ip t = Some i" "a_ipAddr e = ip"
  shows "indexOfIP ip (t[i := e]) = Some i"
  using assms by (auto simp: indexOfIP_def find_index_Some nth_list_update)

section \<open>Properties\<close>

text \<open>
  C16 (resolution between two nodes).  Node A does not know the address of node B: a client of A that asks for it
  makes A enter the question with the client's descriptor and broadcast a request; B answers it to A alone, and the reply makes A write B's hardware address
  to the client and close the connection; afterwards the table of A has the address and A answers the
  next client at once.  The frames are read by their receivers as the bytes that were sent.
\<close>

theorem arp_resolves:
  assumes "indexOfIP (ip_ntop ipB) (arpTable stA) = None" and "length (arpTable stA) < ARP_TABLE_SIZE"
    and "arp_inv stB" and "length (arpTable stB) < ARP_TABLE_SIZE"
    and "i_ipAddr a = ip_ntop ipA" and "length (i_macAddr a) = 6" and "length ipA = 4"
    and "i_ipAddr b = ip_ntop ipB" and "length (i_macAddr b) = 6" and "length ipB = 4" and "i_interfaceNum b \<noteq> -1" and "0 \<le> fd"
    and "rest = [] \<or> hd rest = 0" and "rest' = [] \<or> hd rest' = 0"
  shows "\<exists>req rep stA' stB' stA''.
    arp_client (a # ifsA) fd [map byte_of (ip_ntop ipB) @ rest] stA
      = Some (stA', [ArpFrame (i_macAddr a) (replicate 6 0xFF) (i_interfaceNum a) req])
    \<and> lookup_entry (ip_ntop ipB) (arpTable stA') = Some (replicate 6 0, 0, 0, fd)
    \<and> arp_packet (b # ifsB) ifx hat (sendArpMessage (i_macAddr a) (replicate 6 0xFF) req) stB
      = Some (stB', [ArpFrame (i_macAddr b) (i_macAddr a) (i_interfaceNum b) rep])
    \<and> arp_packet (a # ifsA) ifx' hat' (sendArpMessage (i_macAddr b) (i_macAddr a) rep) stA'
      = Some (stA'', [ToClient fd (i_macAddr b), CloseFd fd])
    \<and> (checkAddressNotEmpty (i_macAddr b) \<longrightarrow>
        arp_client (a # ifsA) fd' [map byte_of (ip_ntop ipB) @ rest'] stA''
          = Some (stA'', [ToClient fd' (i_macAddr b), CloseFd fd']))"
proof -
  let ?req = "initArpMessage\<lparr>target_ip := ipB, sender_ip := ipA, target_mac := replicate 6 0xFF, sender_mac := i_macAddr a, msg_op := [0, 0xFF]\<rparr>"
  let ?e = "\<lparr>a_ipAddr = ip_ntop ipB, a_macAddr = replicate 6 0, sll_hatype = 0, sll_ifindex = 0, conn_fd = fd\<rparr>"
  let ?A = "stA\<lparr>arpTable := arpTable stA @ [?e]\<rparr>"
  let ?rep = "reply_message b ?req"
  let ?A2 = "?A\<lparr>arpTable := (arpTable ?A)[length (arpTable stA) := ?e\<lparr>a_macAddr := i_macAddr b, sll_ifindex := ifx', sll_hatype := hat', conn_fd := -1\<rparr>]\<rparr>"
  have w: "wf_arp ?req" "wf_arp ?rep"
    using assms(6,7,9,10) by (simp_all add: wf_arp_def initArpMessage_def reply_message_def)
  note c = arp_client_asks [OF assms(1,2,10,5,7,13), of ifsA fd]
  have "lookup_entry (ip_ntop ipB) (arpTable stA) = None" using assms(1) by (simp add: lookup_entry_def)
  then have q: "lookup_entry (ip_ntop ipB) (arpTable ?A) = Some (replicate 6 0, 0, 0, fd)"
    using table.search_add [of "arpTable stA" "ip_ntop ipB" "ip_ntop ipB" "(replicate 6 0, 0, 0, fd)"] assms(2)
    by (simp add: put_entry_def)
  obtain stB' where "arp_request (b # ifsB) ifx hat ?req stB
      = Some (stB', [ArpFrame (i_macAddr b) (i_macAddr a) (i_interfaceNum b) ?rep])"
    using arp_request_answers [OF assms(3,4) w(1) assms(11), of ifsB ifx hat] assms(8) by auto
  then have r: "arp_packet (b # ifsB) ifx hat (sendArpMessage (i_macAddr a) (replicate 6 0xFF) ?req) stB
      = Some (stB', [ArpFrame (i_macAddr b) (i_macAddr a) (i_interfaceNum b) ?rep])"
    using arp_frame_received(1) [OF w(1) assms(6)] by (simp add: arp_packet_def)
  have i: "indexOfIP (ip_ntop ipB) (arpTable ?A) = Some (length (arpTable stA))"
    using indexOfIP_new [OF assms(1)] by simp
  have "arp_reply ifx' hat' ?rep ?A = (?A2, [ToClient fd (i_macAddr b), CloseFd fd])"
    using arp_reply_delivers [of ?rep ?A "length (arpTable stA)" fd ifx' hat'] i assms(12) by (simp add: reply_message_def)
  then have p: "arp_packet (a # ifsA) ifx' hat' (sendArpMessage (i_macAddr b) (i_macAddr a) ?rep) ?A
      = Some (?A2, [ToClient fd (i_macAddr b), CloseFd fd])"
    using arp_frame_received(1) [OF w(2) assms(9,6)] by (simp add: arp_packet_def reply_message_def)
  have "indexOfIP (ip_ntop ipB) (arpTable ?A2) = Some (length (arpTable stA))"
    using indexOfIP_update [OF i, of "?e\<lparr>a_macAddr := i_macAddr b, sll_ifindex := ifx', sll_hatype := hat', conn_fd := -1\<rparr>"] by simp
  then have "checkAddressNotEmpty (i_macAddr b) \<longrightarrow>
      arp_client (a # ifsA) fd' [map byte_of (ip_ntop ipB) @ rest'] ?A2 = Some (?A2, [ToClient fd' (i_macAddr b), CloseFd fd'])"
    using read_ip_ntop [OF assms(14)] by (simp add: arp_client_def client_lookup_def)
  with c q r p show ?thesis by blast
qed

definition node_a :: arp_interface where
  "node_a = \<lparr>i_macAddr = [0, 12, 41, 1, 1, 1], i_ipAddr = ip_ntop [130, 245, 156, 21], i_interfaceNum = 2\<rparr>"

definition node_b :: arp_interface where
  "node_b = \<lparr>i_macAddr = [0, 12, 41, 2, 2, 3], i_ipAddr = ip_ntop [130, 245, 156, 22], i_interfaceNum = 2\<rparr>"

theorem arp_resolves_witness:
  "\<exists>req rep stA' stB' stA''.
    arp_client [node_a] 5 [map byte_of (ip_ntop [130, 245, 156, 22])] arp_init
      = Some (stA', [ArpFrame (i_macAddr node_a) (replicate 6 0xFF) 2 req])
    \<and> lookup_entry (ip_ntop [130, 245, 156, 22]) (arpTable stA') = Some (replicate 6 0, 0, 0, 5)
    \<and> arp_packet [node_b] 2 1 (sendArpMessage (i_macAddr node_a) (replicate 6 0xFF) req) arp_init
      = Some (stB', [ArpFrame (i_macAddr node_b) (i_macAddr node_a) 2 rep])
    \<and> arp_packet [node_a] 2 1 (sendArpMessage (i_macAddr node_b) (i_macAddr node_a) rep) stA'
      = Some (stA'', [ToClient 5 [0, 12, 41, 2, 2, 3], CloseFd 5])"
proof -
  have e: "indexOfIP (ip_ntop [130, 245, 156, 22]) (arpTable arp_init) = None" "length (arpTable arp_init) < ARP_TABLE_SIZE" "arp_inv arp_init"
    by (simp_all add: arp_init_def indexOfIP_def ARP_TABLE_SIZE_def arp_inv_def)
  show ?thesis
    using arp_resolves [OF e(1,2) e(3,2), of node_a "[130, 245, 156, 21]" node_b 5 "[]" "[]" "[]" "[]" 2 1 2 1 6]
    by (simp add: node_a_def node_b_def) blast
qed

text \<open>A descriptor that no entry holds.\<close>

definition unknown_fd :: "int \<Rightarrow> arp \<Rightarrow> bool" where
  "unknown_fd fd st \<longleftrightarrow> 0 \<le> fd \<and> (\<forall>e \<in> set (arpTable st). conn_fd e \<noteq> fd)"

fun is_client :: "int \<Rightarrow> arp_event \<Rightarrow> bool" where
  "is_client fd (ArpClient fd' reads) \<longleftrightarrow> fd = fd'"
| "is_client fd (ArpPacket ifx hat bytes) \<longleftrightarrow> False"

lemma add_entry_unknown: "add_entry e st = Some st' \<Longrightarrow> unknown_fd fd st \<Longrightarrow> conn_fd e \<noteq> fd \<Longrightarrow> unknown_fd fd st'"
  by (auto simp: add_entry_def unknown_fd_def split: if_splits)

lemma arp_client_unknown:
  assumes "unknown_fd fd st" "fd' \<noteq> fd" "arp_client ifs fd' reads st = Some (st', fx)"
  shows "unknown_fd fd st' \<and> untouched fd fx"
proof -
  obtain ip where "client_lookup ifs fd' ip st = Some (st', fx)" using assms(3) by (auto simp: arp_client_def bind_eq_Some_conv)
  then show ?thesis
  proof (cases rule: client_lookupE)
    case (new e)
    then show ?thesis using add_entry_unknown [OF new(6) assms(1)] assms(2) by simp
  next
    case (old i)
    then show ?thesis using assms(1,2) by (simp add: untouched_def)
  qed
qed

lemma arp_request_unknown:
  assumes "unknown_fd fd st" "arp_request ifs ifx hat m st = Some (st', fx)"
  shows "unknown_fd fd st' \<and> untouched fd fx"
proof -
  let ?e = "\<lparr>a_ipAddr = ip_ntop (sender_ip m), a_macAddr = sender_mac m, sll_hatype = hat, sll_ifindex = ifx, conn_fd = -1\<rparr>"
  have "conn_fd ?e \<noteq> fd" using assms(1) by (simp add: unknown_fd_def)
  then show ?thesis
    using assms add_entry_unknown [of ?e st st' fd]
    by (auto simp: arp_request_def bind_eq_Some_conv Let_def untouched_def split: if_splits)
qed

lemma arp_reply_unknown:
  assumes "unknown_fd fd st"
  shows "unknown_fd fd (fst (arp_reply ifx hat m st)) \<and> untouched fd (snd (arp_reply ifx hat m st))"
proof (cases "indexOfIP (ip_ntop (sender_ip m)) (arpTable st)")
  case None
  then show ?thesis using assms by (simp add: arp_reply_def untouched_def)
next
  case (Some i)
  let ?e = "arpTable st ! i"
  have c: "conn_fd ?e \<noteq> fd" "0 \<le> fd" using assms indexOfIP_Some [OF Some] by (simp_all add: unknown_fd_def)
  have "unknown_fd fd (st\<lparr>arpTable := (arpTable st)[i := e']\<rparr>)" if "conn_fd e' \<noteq> fd" for e'
    using assms that set_update_subset_insert [of "arpTable st" i e'] by (auto simp: unknown_fd_def)
  then show ?thesis using c Some by (auto simp: arp_reply_def Let_def untouched_def)
qed

lemma arp_step_unknown:
  assumes "unknown_fd fd st" "\<not> is_client fd ev" "arp_step ifs st ev = Some (st', fx)"
  shows "unknown_fd fd st' \<and> untouched fd fx"
proof (cases ev)
  case (ArpClient fd' reads)
  then have "fd' \<noteq> fd" "arp_client ifs fd' reads st = Some (st', fx)" using assms(2,3) by auto
  then show ?thesis by (rule arp_client_unknown [OF assms(1)])
next
  case (ArpPacket ifx hat bytes)
  then obtain m where "arp_request ifs ifx hat m st = Some (st', fx) \<or> arp_reply ifx hat m st = (st', fx) \<or> st' = st \<and> fx = []"
    using assms(3) by (auto simp: arp_packet_def bind_eq_Some_conv split: if_splits)
  then show ?thesis
    using assms(1) arp_request_unknown [OF assms(1)] arp_reply_unknown [OF assms(1), of ifx hat m]
    by (auto simp: untouched_def)
qed

lemma arp_run_unknown:
  "unknown_fd fd st \<Longrightarrow> \<forall>ev \<in> set evs. \<not> is_client fd ev \<Longrightarrow> arp_run ifs st evs = Some (st', fx) \<Longrightarrow> untouched fd fx"
proof (induction evs arbitrary: st fx)
  case (Cons ev evs)
  from Cons.prems(3) obtain st1 fx1 fx2 where s: "arp_step ifs st ev = Some (st1, fx1)" "arp_run ifs st1 evs = Some (st', fx2)" "fx = fx1 @ fx2"
    by (auto simp: bind_eq_Some_conv)
  then have "unknown_fd fd st1" "untouched fd fx1" using arp_step_unknown Cons.prems(1,2) by auto
  then show ?case using Cons.IH s(2,3) Cons.prems(2) by (auto simp: untouched_def)
qed (simp add: untouched_def)

text \<open>
  A second client is forgotten.  A client that asks for an address for which a request is already under way
  (an entry without hardware address) gets no answer, no frame is sent, and its descriptor is nowhere
  recorded: whatever arrives later, nothing is ever written to it and it is never closed.
\<close>

theorem second_client_forgotten:
  assumes "indexOfIP ip (arpTable st) = Some i" and "\<not> checkAddressNotEmpty (a_macAddr (arpTable st ! i))"
    and "read_ip reads = Some ip" and "unknown_fd fd st" and "\<forall>ev \<in> set evs. \<not> is_client fd ev"
    and "arp_run ifs st (ArpClient fd reads # evs) = Some (st', fx)"
  shows "arp_client ifs fd reads st = Some (st, []) \<and> untouched fd fx"
proof -
  have c: "arp_client ifs fd reads st = Some (st, [])" using assms(1-3) by (simp add: arp_client_def client_lookup_def)
  then have "arp_run ifs st evs = Some (st', fx)" using assms(6) by (auto simp: bind_eq_Some_conv)
  then show ?thesis using arp_run_unknown [OF assms(4,5)] c by blast
qed

definition asked :: arp where
  "asked = \<lparr>arpTable = [\<lparr>a_ipAddr = ip_ntop [130, 245, 156, 22], a_macAddr = replicate 6 0, sll_hatype = 0, sll_ifindex = 0, conn_fd = 5\<rparr>]\<rparr>"

definition reply_b :: arp_message where
  "reply_b = initArpMessage\<lparr>msg_op := [0xFF, 0], sender_ip := [130, 245, 156, 22], sender_mac := [0, 12, 41, 2, 2, 3],
     target_ip := [130, 245, 156, 21], target_mac := [0, 12, 41, 1, 1, 1]\<rparr>"

theorem second_client_forgotten_witness:
  "\<exists>st'. arp_run [node_a] asked [ArpClient 6 [map byte_of ''130.245.156.22''],
      ArpPacket 2 1 (sendArpMessage [0, 12, 41, 2, 2, 3] [0, 12, 41, 1, 1, 1] reply_b)]
    = Some (st', [ToClient 5 [0, 12, 41, 2, 2, 3], CloseFd 5])
    \<and> untouched 6 [ToClient 5 [0, 12, 41, 2, 2, 3], CloseFd 5]"
proof -
  let ?c = "[map byte_of ''130.245.156.22'']"
  let ?ev = "ArpPacket 2 1 (sendArpMessage [0, 12, 41, 2, 2, 3] [0, 12, 41, 1, 1, 1] reply_b)"
  have e: "indexOfIP ''130.245.156.22'' (arpTable asked) = Some 0" "\<not> checkAddressNotEmpty (a_macAddr (arpTable asked ! 0))"
    "read_ip ?c = Some ''130.245.156.22''" by code_simp+
  have u: "unknown_fd 6 asked" by (simp add: unknown_fd_def asked_def)
  have "map_option snd (arp_run [node_a] asked [ArpClient 6 ?c, ?ev]) = Some [ToClient 5 [0, 12, 41, 2, 2, 3], CloseFd 5]"
    by code_simp
  then obtain st' where r: "arp_run [node_a] asked [ArpClient 6 ?c, ?ev] = Some (st', [ToClient 5 [0, 12, 41, 2, 2, 3], CloseFd 5])"
    by (auto simp del: arp_run.simps)
  from second_client_forgotten [OF e u _ r] r show ?thesis by (auto simp del: arp_run.simps)
qed

text \<open>Requests of one neighbour.\<close>

lemma check_entries_none: "\<forall>e \<in> set t. str_eq (entry_mem e) mem = Some False \<Longrightarrow> check_entries ip mem i t = Some (-1)"
  by (induction t arbitrary: i) auto

definition neighbour_entry :: "arp_message \<Rightarrow> int \<Rightarrow> int \<Rightarrow> arp_entry" where
  "neighbour_entry m hat ifx = \<lparr>a_ipAddr = ip_ntop (sender_ip m), a_macAddr = sender_mac m, sll_hatype = hat, sll_ifindex = ifx, conn_fd = -1\<rparr>"

lemma neighbour_not_found:
  assumes "wf_arp m" "0 \<notin> set (sender_mac m)" "word_of_int hat \<noteq> sender_ip m ! 0"
  shows "str_eq (entry_mem (neighbour_entry m hat ifx)) (sender_mem m) = Some False"
proof -
  obtain x xs where x: "sender_ip m = x # xs" using assms(1) by (cases "sender_ip m") (auto simp: wf_arp_def)
  then show ?thesis using assms by (simp add: entry_mem_def sender_mem_def neighbour_entry_def str_eq_same)
qed

lemma neighbour_found:
  assumes "0 \<in> set (sender_mac m)"
  shows "str_eq (entry_mem (neighbour_entry m hat ifx)) (sender_mem m) = Some True"
  using str_eq_same_zero [OF assms] by (simp add: entry_mem_def sender_mem_def neighbour_entry_def)

lemma request_step:
  assumes "wf_arp m" "msg_op m = [0x00, 0xFF]" "checkIsDestNode (b # ifs) (target_ip m)" "length src = 6" "length dst = 6"
    and "checkEntryExist m t = Some i"
  shows "arp_step (b # ifs) \<lparr>arpTable = t\<rparr> (ArpPacket ifx hat (sendArpMessage src dst m)) =
    (if i = -1 \<and> ARP_TABLE_SIZE \<le> length t then None
     else Some (\<lparr>arpTable = if i = -1 then t @ [neighbour_entry m hat ifx] else t\<rparr>,
       [ArpFrame (i_macAddr b) (sender_mac m) (i_interfaceNum b) (reply_message b m)]))"
  using assms arp_frame_received(1) [OF assms(1,4,5)]
  by (auto simp: arp_packet_def arp_request_def add_entry_def load_def Let_def reply_message_def neighbour_entry_def)

lemma requests_fill_table:
  assumes "wf_arp m" "msg_op m = [0x00, 0xFF]" "checkIsDestNode (b # ifs) (target_ip m)" "length src = 6" "length dst = 6"
    and "0 \<notin> set (sender_mac m)" "word_of_int hat \<noteq> sender_ip m ! 0" "k \<le> ARP_TABLE_SIZE"
  shows "arp_run (b # ifs) \<lparr>arpTable = replicate k (neighbour_entry m hat ifx)\<rparr> (replicate n (ArpPacket ifx hat (sendArpMessage src dst m))) =
    (if k + n \<le> ARP_TABLE_SIZE
     then Some (\<lparr>arpTable = replicate (k + n) (neighbour_entry m hat ifx)\<rparr>,
        replicate n (ArpFrame (i_macAddr b) (sender_mac m) (i_interfaceNum b) (reply_message b m)))
     else None)"
  using assms(8)
proof (induction n arbitrary: k)
  case (Suc n)
  let ?e = "neighbour_entry m hat ifx"
  have "checkEntryExist m (replicate k ?e) = Some (-1)"
    unfolding checkEntryExist_def by (rule check_entries_none) (use neighbour_not_found [OF assms(1,6,7)] in auto)
  note s = request_step [OF assms(1-5) this, of ifx hat]
  show ?case
  proof (cases "k < ARP_TABLE_SIZE")
    case True
    then show ?thesis using s Suc.IH [of "Suc k"] by (simp add: replicate_append_same del: arp_step.simps)
  next
    case False
    then show ?thesis using s by (simp del: arp_step.simps)
  qed
qed simp

text \<open>
  C40 (a neighbour fills the table).  \<^verbatim>\<open>checkEntryExist\<close> compares hardware addresses with \<^verbatim>\<open>strcmp\<close>.  If the sender's
  address has no zero byte, the comparison runs on into the hardware type of the entry and the address in
  the message, and unless these agree every request of the same neighbour adds an entry: the twenty-first
  is stored behind the end of the table.  If it has a zero byte, the second request finds the first entry.
\<close>

theorem requests_overflow_table:
  assumes "wf_arp m" and "msg_op m = [0x00, 0xFF]" and "checkIsDestNode (b # ifs) (target_ip m)"
    and "length src = 6" and "length dst = 6"
  shows "(0 \<notin> set (sender_mac m) \<and> word_of_int hat \<noteq> sender_ip m ! 0 \<longrightarrow>
      map_option (\<lambda>(st, fx). length (arpTable st)) (arp_run (b # ifs) arp_init (replicate n (ArpPacket ifx hat (sendArpMessage src dst m))))
        = (if n \<le> ARP_TABLE_SIZE then Some n else None))
    \<and> (0 \<in> set (sender_mac m) \<and> 0 < n \<longrightarrow>
      map_option (\<lambda>(st, fx). length (arpTable st)) (arp_run (b # ifs) arp_init (replicate n (ArpPacket ifx hat (sendArpMessage src dst m))))
        = Some 1)"
proof -
  let ?ev = "ArpPacket ifx hat (sendArpMessage src dst m)"
  let ?e = "neighbour_entry m hat ifx"
  let ?f = "ArpFrame (i_macAddr b) (sender_mac m) (i_interfaceNum b) (reply_message b m)"
  have one: "arp_run (b # ifs) \<lparr>arpTable = [?e]\<rparr> (replicate k ?ev) = Some (\<lparr>arpTable = [?e]\<rparr>, replicate k ?f)"
    if z: "0 \<in> set (sender_mac m)" for k
  proof (induction k)
    case (Suc k)
    have c: "checkEntryExist m [?e] = Some 0" using neighbour_found [OF z] by (simp add: checkEntryExist_def neighbour_entry_def)
    show ?case using request_step [OF assms c, of ifx hat] Suc by (simp del: arp_step.simps)
  qed simp
  have "checkEntryExist m [] = Some (-1)" by (simp add: checkEntryExist_def)
  then have first: "arp_step (b # ifs) arp_init ?ev = Some (\<lparr>arpTable = [?e]\<rparr>, [?f])"
    using request_step [OF assms, of "[]" "-1" ifx hat] by (simp add: arp_init_def ARP_TABLE_SIZE_def)
  have "arp_run (b # ifs) arp_init (replicate n ?ev) = Some (\<lparr>arpTable = [?e]\<rparr>, replicate n ?f)"
    if "0 \<in> set (sender_mac m)" "0 < n"
    using that(2) one [OF that(1), of "n - 1"] first by (cases n) (simp_all del: arp_step.simps)
  moreover have "arp_run (b # ifs) arp_init (replicate n ?ev) = (if n \<le> ARP_TABLE_SIZE
      then Some (\<lparr>arpTable = replicate n ?e\<rparr>, replicate n ?f) else None)"
    if "0 \<notin> set (sender_mac m)" "word_of_int hat \<noteq> sender_ip m ! 0"
    using requests_fill_table [OF assms that, of 0 ifx n] by (simp add: arp_init_def)
  ultimately show ?thesis by auto
qed

definition busy_neighbour :: arp_message where
  "busy_neighbour = initArpMessage\<lparr>msg_op := [0x00, 0xFF], sender_ip := [130, 245, 156, 22], sender_mac := [2, 12, 41, 2, 2, 3],
     target_ip := [130, 245, 156, 21]\<rparr>"

theorem requests_overflow_table_witness:
  "arp_run [node_a] arp_init (replicate 21 (ArpPacket 2 1 (sendArpMessage [2, 12, 41, 2, 2, 3] (replicate 6 0xFF) busy_neighbour))) = None"
proof -
  have e: "wf_arp busy_neighbour" "msg_op busy_neighbour = [0x00, 0xFF]" "checkIsDestNode [node_a] (target_ip busy_neighbour)"
    "0 \<notin> set (sender_mac busy_neighbour)" "word_of_int 1 \<noteq> sender_ip busy_neighbour ! 0"
    by code_simp+
  show ?thesis
    using requests_overflow_table [OF e(1-3), of "[2, 12, 41, 2, 2, 3]" "replicate 6 0xFF" 1 21 2] e(4,5)
    by (simp add: ARP_TABLE_SIZE_def del: replicate.simps)
qed

text \<open>
  Round trip of addresses and messages.  The dotted form of an address fits into its array and is read back
  to the same four bytes by \<^verbatim>\<open>setIPAddr\<close>; a message put into a frame of fifty bytes arrives unchanged.
\<close>

theorem arp_roundtrip:
  assumes "length ip = 4" and "wf_arp m" and "length src = 6" and "length dst = 6" and "rest = [] \<or> hd rest = 0"
  shows "setIPAddr (ip_ntop ip) = Some ip \<and> length (ip_ntop ip) < IPADDR_SIZE \<and> read_ip [map byte_of (ip_ntop ip) @ rest] = Some (ip_ntop ip)
    \<and> recvArpMessage (sendArpMessage src dst m) = Some m \<and> length (sendArpMessage src dst m) = ARP_LEN"
  using setIPAddr_ntop [OF assms(1)] ip_ntop_length read_ip_ntop [OF assms(5)] arp_frame_received [OF assms(2-4)] by simp

theorem arp_roundtrip_witness:
  "setIPAddr (ip_ntop [130, 245, 156, 21]) = Some [130, 245, 156, 21] \<and> ip_ntop [130, 245, 156, 21] = ''130.245.156.21''
   \<and> recvArpMessage (sendArpMessage (replicate 6 1) (replicate 6 255) busy_neighbour) = Some busy_neighbour"
proof -
  have "wf_arp busy_neighbour" "ip_ntop [130, 245, 156, 21] = ''130.245.156.21''" by code_simp+
  then show ?thesis using arp_roundtrip [of "[130, 245, 156, 21]" busy_neighbour "replicate 6 1" "replicate 6 255" "[]"] by simp
qed

end
