(* ===== verification/Ping.thy ===== *)
theory Ping
  imports Arp_Props Tour_Props
begin

text \<open>
  The pings of the tour program (\<^verbatim>\<open>tour_chechung.c\<close>): \<^verbatim>\<open>areq\<close> asks the resolution daemon of the node for a hardware
  address, \<^verbatim>\<open>send_v4\<close> builds the echo request with its two checksums.  The checksum function \<^verbatim>\<open>in_cksum\<close> belongs to the
  library of the programs and is an argument; what the theorems need of it is that it is the Internet checksum
  (RFC 1071) of the memory it is given.  Results of system calls are arguments: the time, and what the
  connection to the daemon delivers within five seconds.
\<close>

section \<open>Addresses\<close>

text \<open>\<^verbatim>\<open>Get_LOCAL_ADDR\<close>: the address of \<^verbatim>\<open>eth0\<close>; the variable starts as zeros.\<close>

fun Get_LOCAL_ADDR :: "hwa_info list \<Rightarrow> mac \<Rightarrow> mac" where
  "Get_LOCAL_ADDR [] local_mac = local_mac"
| "Get_LOCAL_ADDR (h # hs) local_mac = Get_LOCAL_ADDR hs (if if_name h = ''eth0'' then take 6 (if_haddr h) else local_mac)"

text \<open>\<^verbatim>\<open>hostname_to_ip\<close>: without an address the caller goes on with an array that has no value, \<open>None\<close>.\<close>

definition hostname_to_ip :: "tour_config \<Rightarrow> string \<Rightarrow> string option" where
  "hostname_to_ip cfg hostname = map_option ip_ntop (vm_addr cfg hostname)"

text \<open>
  \<^verbatim>\<open>areq\<close>: the twenty bytes written to the daemon, and the address it returns: what was read of its answer, in
  front of what the array held; \<open>None\<close> is the end of the five seconds.
\<close>

definition areq_question :: "tour_config \<Rightarrow> memory \<Rightarrow> int \<Rightarrow> byte list option" where
  "areq_question cfg junk k = map_option (put_str 20 junk) (hostname_to_ip cfg (vm_full k))"

definition areq_mac :: "mac \<Rightarrow> byte list option \<Rightarrow> mac" where
  "areq_mac buf answer = (case answer of None \<Rightarrow> buf | Some bs \<Rightarrow> take 6 bs @ drop (length (take 6 bs)) buf)"

section \<open>The echo request\<close>

definition ETHR_FRAME_LEN :: nat where "ETHR_FRAME_LEN = 1510"
definition datalen :: nat where "datalen = 16"

text \<open>A number of type \<^verbatim>\<open>u_short\<close> in memory.\<close>

definition u_short :: "16 word \<Rightarrow> byte list" where
  "u_short w = le_bytes 2 (uint w)"

text \<open>The message with a given checksum; \<^verbatim>\<open>sizeof(struct icmp)\<close> is 28, so that twenty zeros follow the data.\<close>

definition icmp_echo :: "16 word \<Rightarrow> int \<Rightarrow> int \<times> int \<Rightarrow> byte list" where
  "icmp_echo cksum seq tv = [8, 0] @ u_short cksum @ [0x17, 0x1A] @ le_bytes 2 seq @ le_bytes 8 (fst tv) @ le_bytes 8 (snd tv) @ replicate 20 0"

definition ip_header :: "16 word \<Rightarrow> byte list \<Rightarrow> byte list \<Rightarrow> byte list" where
  "ip_header ip_sum sip dip = [0x45, 0, 0, 0x40, 0x17, 0x1A, 0, 0, 255, 1] @ u_short ip_sum @ sip @ dip"

definition send_v4 :: "tour_config \<Rightarrow> (byte list \<Rightarrow> 16 word) \<Rightarrow> mac \<Rightarrow> mac \<Rightarrow> int \<times> int \<Rightarrow> int \<Rightarrow> tour \<Rightarrow> byte list option" where
  "send_v4 cfg in_cksum local_mac dst_mac tv dst_vmNum st =
     do {
       src_ip \<leftarrow> vm_addr cfg (localHost cfg);
       dst_ip \<leftarrow> vm_addr cfg (vm_full dst_vmNum);
       seq \<leftarrow> load_int (ping_counter_array st) dst_vmNum;
       let icmp = icmp_echo (in_cksum (icmp_echo 0 seq tv)) seq tv;
       let ip = ip_header (in_cksum (ip_header 0 src_ip dst_ip @ icmp)) src_ip dst_ip;
       let buffer = dst_mac @ local_mac @ [0x08, 0x00] @ ip @ icmp;
       Some (buffer @ replicate (ETHR_FRAME_LEN - length buffer) 0)
     }"

section \<open>The Internet checksum\<close>

text \<open>The sum of the 16-bit numbers in memory, the carries folded in, the complement.\<close>

fun sum16 :: "byte list \<Rightarrow> int" where
  "sum16 (a # b # bs) = uint a + 256 * uint b + sum16 bs"
| "sum16 [a] = uint a"
| "sum16 [] = 0"

definition fold_carry :: "int \<Rightarrow> int" where
  "fold_carry s = s div 65536 + s mod 65536"

definition rfc1071 :: "byte list \<Rightarrow> 16 word" where
  "rfc1071 bs = NOT (word_of_int (fold_carry (fold_carry (sum16 bs))))"

lemma sum16_append: "even (length xs) \<Longrightarrow> sum16 (xs @ ys) = sum16 xs + sum16 ys"
  by (induction xs rule: sum16.induct) auto

lemma sum16_range: "0 \<le> sum16 bs \<and> sum16 bs \<le> 65535 * int (length bs)"
proof (induction bs rule: sum16.induct)
  case (1 a b bs)
  have "uint a \<le> 255" "uint b \<le> 255" "0 \<le> uint a" "0 \<le> uint b" using uint_bounded [of a] uint_bounded [of b] by auto
  with 1 show ?case by simp
next
  case (2 a)
  then show ?case using uint_bounded [of a] by auto
qed simp

lemma sum16_zeros: "sum16 (replicate n 0) = 0"
  by (induction n rule: induct_nat_012) auto

lemma sum16_u_short: "sum16 (u_short w) = uint w"
proof -
  have u: "u_short w = [word_of_int (uint w), word_of_int (drop_bit 8 (uint w))]" by (simp add: u_short_def numeral_2_eq_2)
  have "0 \<le> uint w" "uint w < 65536" using uint_bounded [of w] by auto
  then have d: "uint w div 256 mod 256 = uint w div 256" by (intro mod_pos_pos_trivial) (auto simp: pos_imp_zdiv_nonneg_iff)
  have "uint (word_of_int v :: byte) = v mod 256" for v by (simp add: uint_word_of_int)
  from this [of "uint w"] this [of "drop_bit 8 (uint w)"] d
  show ?thesis unfolding u by (simp add: drop_bit_eq_div del: word_of_int_uint)
qed

lemma fold_carry_mod: "fold_carry s mod 65535 = s mod 65535"
proof -
  have "s = (s div 65536) * 65535 + fold_carry s" unfolding fold_carry_def using div_mult_mod_eq [of s 65536] by simp
  then show ?thesis by (metis mod_mult_self3)
qed

lemma fold_carry_twice:
  assumes "0 \<le> s" "s < 2 ^ 32"
  shows "0 \<le> fold_carry (fold_carry s)" "fold_carry (fold_carry s) \<le> 65535" "0 < s \<Longrightarrow> 0 < fold_carry (fold_carry s)"
proof -
  have d: "0 \<le> s div 65536" "s div 65536 \<le> 65535" "0 \<le> s mod 65536" "s mod 65536 \<le> 65535"
    using assms by (auto simp: pos_imp_zdiv_nonneg_iff)
  then have f: "0 \<le> fold_carry s" "fold_carry s \<le> 131070" unfolding fold_carry_def by linarith+
  have "fold_carry s div 65536 \<le> 1" "0 \<le> fold_carry s div 65536" "0 \<le> fold_carry s mod 65536"
    using f by (auto simp: pos_imp_zdiv_nonneg_iff)
  moreover have "fold_carry s = 65536 * (fold_carry s div 65536) + fold_carry s mod 65536" by simp
  ultimately show "0 \<le> fold_carry (fold_carry s)" "fold_carry (fold_carry s) \<le> 65535"
    using f(2) unfolding fold_carry_def [of "fold_carry s"] by linarith+
  have pos: "0 < fold_carry t" if "0 < t" for t :: int
  proof -
    have "t = 65536 * (t div 65536) + t mod 65536" "0 \<le> t mod 65536" "0 \<le> t div 65536"
      using that by (auto simp: pos_imp_zdiv_nonneg_iff)
    then show ?thesis unfolding fold_carry_def using that by linarith
  qed
  show "0 < fold_carry (fold_carry s)" if "0 < s" using pos [OF pos [OF that]] .
qed

lemma rfc1071_uint:
  assumes "sum16 bs < 2 ^ 32"
  shows "uint (rfc1071 bs) = 65535 - fold_carry (fold_carry (sum16 bs))"
proof -
  let ?f = "fold_carry (fold_carry (sum16 bs))"
  have f: "0 \<le> ?f" "?f \<le> 65535" using fold_carry_twice [of "sum16 bs"] sum16_range [of bs] assms by auto
  have u: "uint (word_of_int v :: 16 word) = v mod 65536" for v by (simp add: uint_word_of_int)
  have "NOT (word_of_int ?f :: 16 word) = word_of_int (- ?f - 1)" by (simp add: not_eq_complement)
  moreover have "(- ?f - 1) mod 65536 = 65535 - ?f"
    using f mod_add_self1 [of 65536 "- ?f - 1"] by (simp add: mod_pos_pos_trivial)
  ultimately show ?thesis unfolding rfc1071_def by (simp only: u)
qed

lemma small_sum: "length bs \<le> 2000 \<Longrightarrow> sum16 bs < 2 ^ 32"
  using sum16_range [of bs] by simp

lemma rfc1071_dvd: "length bs \<le> 2000 \<Longrightarrow> 65535 dvd uint (rfc1071 bs) + sum16 bs"
proof -
  assume "length bs \<le> 2000"
  then have u: "uint (rfc1071 bs) = 65535 - fold_carry (fold_carry (sum16 bs))" using rfc1071_uint small_sum by blast
  have "sum16 bs mod 65535 = fold_carry (fold_carry (sum16 bs)) mod 65535" by (simp only: fold_carry_mod)
  then have "65535 dvd sum16 bs - fold_carry (fold_carry (sum16 bs))" by (simp only: mod_eq_dvd_iff)
  then have "65535 dvd 65535 + (sum16 bs - fold_carry (fold_carry (sum16 bs)))" by (intro dvd_add) simp_all
  then show ?thesis unfolding u by (simp add: algebra_simps)
qed

lemma rfc1071_zero:
  assumes "length bs \<le> 2000" "0 < sum16 bs" "65535 dvd sum16 bs"
  shows "rfc1071 bs = 0"
proof -
  let ?f = "fold_carry (fold_carry (sum16 bs))"
  note f = fold_carry_twice [of "sum16 bs"]
  have r: "0 < ?f" "?f \<le> 65535" using f sum16_range [of bs] small_sum [OF assms(1)] assms(2) by auto
  have "?f mod 65535 = sum16 bs mod 65535" by (simp only: fold_carry_mod)
  then have "65535 dvd ?f" using assms(3) by (metis dvd_imp_mod_0 mod_0_imp_dvd)
  then have "?f = 65535" using r zdvd_imp_le by fastforce
  then show ?thesis using rfc1071_uint [OF small_sum [OF assms(1)]] by (simp add: uint_0_iff)
qed

section \<open>The frame\<close>

definition is_cksum :: "(byte list \<Rightarrow> 16 word) \<Rightarrow> bool" where
  "is_cksum in_cksum \<longleftrightarrow> (\<forall>bs. even (length bs) \<and> length bs \<le> 2000 \<longrightarrow> in_cksum bs = rfc1071 bs)"

definition addrs_ok :: "tour_config \<Rightarrow> bool" where
  "addrs_ok cfg \<longleftrightarrow> (\<forall>h ip. vm_addr cfg h = Some ip \<longrightarrow> length ip = 4)"

lemma length_u_short [simp]: "length (u_short w) = 2"
  by (simp add: u_short_def)

lemma length_icmp_echo [simp]: "length (icmp_echo c seq tv) = 44"
  by (simp add: icmp_echo_def)

lemma length_ip_header [simp]: "length sip = 4 \<Longrightarrow> length dip = 4 \<Longrightarrow> length (ip_header c sip dip) = 20"
  by (simp add: ip_header_def)

lemma sum16_icmp: "sum16 (icmp_echo c seq tv) = sum16 (icmp_echo 0 seq tv) + uint c"
  by (simp add: icmp_echo_def sum16_append sum16_u_short)

lemma sum16_header: "length sip = 4 \<Longrightarrow> length dip = 4 \<Longrightarrow> sum16 (ip_header c sip dip) = sum16 (ip_header 0 sip dip) + uint c"
  by (simp add: ip_header_def sum16_append sum16_u_short)

lemma header_positive: "0 < sum16 (ip_header c sip dip)" "0 < sum16 (icmp_echo c seq tv)"
  using sum16_range [of "u_short c @ sip @ dip"] uint_bounded [of c]
    sum16_range [of "u_short c @ [0x17, 0x1A] @ le_bytes 2 seq @ le_bytes 8 (fst tv) @ le_bytes 8 (snd tv) @ replicate 20 0"]
  by (simp_all add: ip_header_def icmp_echo_def)

lemma send_v4_frame:
  assumes "send_v4 cfg in_cksum local_mac dst_mac tv k st = Some frame" "addrs_ok cfg" "length dst_mac = 6" "length local_mac = 6"
  obtains sip dip seq icmp ip where "vm_addr cfg (localHost cfg) = Some sip" "vm_addr cfg (vm_full k) = Some dip" "length sip = 4" "length dip = 4"
    "load_int (ping_counter_array st) k = Some seq" "icmp = icmp_echo (in_cksum (icmp_echo 0 seq tv)) seq tv"
    "ip = ip_header (in_cksum (ip_header 0 sip dip @ icmp)) sip dip"
    "frame = dst_mac @ local_mac @ [0x08, 0x00] @ ip @ icmp @ replicate 1432 0" "length ip = 20" "length icmp = 44"
proof -
  obtain sip dip seq where v: "vm_addr cfg (localHost cfg) = Some sip" "vm_addr cfg (vm_full k) = Some dip" "load_int (ping_counter_array st) k = Some seq"
    using assms(1) by (auto simp: send_v4_def bind_eq_Some_conv)
  have l: "length sip = 4" "length dip = 4" using v assms(2) by (auto simp: addrs_ok_def)
  let ?icmp = "icmp_echo (in_cksum (icmp_echo 0 seq tv)) seq tv"
  let ?ip = "ip_header (in_cksum (ip_header 0 sip dip @ ?icmp)) sip dip"
  have "frame = dst_mac @ local_mac @ [0x08, 0x00] @ ?ip @ ?icmp @ replicate 1432 0"
    using assms(1,3,4) v l by (simp add: send_v4_def Let_def ETHR_FRAME_LEN_def)
  then show thesis using that v l by simp
qed

text \<open>
  What the peer answers (RFC 792): source and destination are exchanged, the type is 0, the rest of the message is the
  one received; the other fields of the header and the checksums are arbitrary.
\<close>

definition echo_reply :: "byte list \<Rightarrow> byte list \<Rightarrow> byte list \<Rightarrow> byte list \<Rightarrow> byte list" where
  "echo_reply h c1 c2 frame =
     (let ip = drop 14 frame
      in [0x45] @ h @ [1] @ c1 @ take 4 (drop 16 ip) @ take 4 (drop 12 ip) @ [0, 0] @ c2 @ drop 24 (take 64 ip))"

lemma frame_parts:
  assumes "frame = dst_mac @ local_mac @ [0x08, 0x00] @ ip @ icmp @ zs" "length dst_mac = 6" "length local_mac = 6"
    "length ip = 20" "length icmp = 44"
  shows "take 6 frame = dst_mac" "take 20 (drop 14 frame) = ip" "take 44 (drop 34 frame) = icmp" "take 64 (drop 14 frame) = ip @ icmp"
  using assms by simp_all

lemma proc_v4_counts:
  assumes "length bs = 20 + length icmp" "bs ! 0 = 0x45" "bs ! 9 = 1" "drop 20 bs = icmp" "8 \<le> length icmp" "icmp ! 0 = 0"
    "icmp ! 4 = 0x17" "icmp ! 5 = 0x1A" "addr_name cfg (take 4 (drop 12 bs)) = Some (vm_full k)" "1 \<le> k" "k \<le> 10"
    "length (ping_counter_array st) = PING_SIZE"
  shows "proc_v4 cfg bs st = Some (st\<lparr>ping_counter_array := (ping_counter_array st)[nat k := ping_counter_array st ! nat k + 1]\<rparr>)"
proof -
  have i: "bs ! (20 + j) = icmp ! j" if "j < length icmp" for j using assms(1,4) that nth_drop [of 20 bs j] by simp
  have ne: "icmp \<noteq> []" using assms(5) by auto
  have b: "bs ! 20 = 0" "bs ! 24 = 0x17" "bs ! 25 = 0x1A" using i [of 0] i [of 4] i [of 5] assms(5-8) ne by auto
  have h: "4 * nat (uint (0x45 :: byte) mod 16) = 20" by simp
  have "length (dec k) \<le> 2" using dec_nat_length [of "nat k" 2] assms(10,11) by (simp add: dec_def)
  then have d: "\<not> length (vm_full k) < 2" "length (vm_full k) < 20" by (simp_all add: vm_full_def)
  have z: "atoi (zeroed (vm_full k)) = k" using zeroed_vm assms(10,11) by simp
  have "nat k < PING_SIZE" using assms(11) by (simp add: PING_SIZE_def)
  then have l: "load_int (ping_counter_array st) k = Some (ping_counter_array st ! nat k)"
    using assms(10,12) by (simp add: load_int_def load_def)
  show ?thesis
    using assms(1,2,3,5,9) b h d l by (simp add: proc_v4_def Let_def z IP_IDENTIFICATION_def)
qed

lemma ping_counts:
  assumes "addrs_ok cfg" and "vm_addr cfg (localHost cfg) = Some sip" and "vm_addr cfg (vm_full k) = Some dip"
    and "addr_name cfg dip = Some (vm_full k)" and "1 \<le> k" and "k \<le> 10" and "length (ping_counter_array st) = PING_SIZE"
    and "indexOfIP (ip_ntop dip) (arpTable ast) = Some i" and "mac = a_macAddr (arpTable ast ! i)" and "length mac = 6"
    and "checkAddressNotEmpty mac" and "length buf = 6" and "length local_mac = 6" and "length h = 8" and "length c1 = 2" and "length c2 = 2"
    and "length (ping_counter_array st2) = PING_SIZE"
  shows "\<exists>q frame. areq_question cfg junk k = Some q
    \<and> arp_client ifs fd [q] ast = Some (ast, [ToClient fd mac, CloseFd fd])
    \<and> send_v4 cfg in_cksum local_mac (areq_mac buf (Some mac)) tv k st = Some frame \<and> take 6 frame = mac
    \<and> proc_v4 cfg (echo_reply h c1 c2 frame) st2
        = Some (st2\<lparr>ping_counter_array := (ping_counter_array st2)[nat k := ping_counter_array st2 ! nat k + 1]\<rparr>)"
proof -
  have m: "areq_mac buf (Some mac) = mac" using assms(10,12) by (simp add: areq_mac_def)
  let ?q = "put_str 20 junk (ip_ntop dip)"
  have q: "areq_question cfg junk k = Some ?q" using assms(3) by (simp add: areq_question_def hostname_to_ip_def)
  have r: "read_ip [?q] = Some (ip_ntop dip)" unfolding put_str_def by (rule read_ip_ntop) simp
  have c: "arp_client ifs fd [?q] ast = Some (ast, [ToClient fd mac, CloseFd fd])"
    using r assms(8,9,11) by (simp add: arp_client_def client_lookup_def)
  have "load_int (ping_counter_array st) k = Some (ping_counter_array st ! nat k)"
    using assms(5-7) by (simp add: load_int_def load_def PING_SIZE_def)
  then obtain frame where fr: "send_v4 cfg in_cksum local_mac mac tv k st = Some frame"
    using assms(2,3) by (simp add: send_v4_def Let_def)
  obtain sip' dip' seq icmp ip where d: "vm_addr cfg (vm_full k) = Some dip'" "length sip' = 4" "length dip' = 4"
    and i: "icmp = icmp_echo (in_cksum (icmp_echo 0 seq tv)) seq tv" and p: "ip = ip_header (in_cksum (ip_header 0 sip' dip' @ icmp)) sip' dip'"
    and f: "frame = mac @ local_mac @ [0x08, 0x00] @ ip @ icmp @ replicate 1432 0" and n: "length ip = 20" "length icmp = 44"
    by (rule send_v4_frame [OF fr assms(1,10,13)])
  let ?icmp = "[0, 0] @ c2 @ drop 4 icmp"
  have e: "echo_reply h c1 c2 frame = [0x45] @ h @ [1] @ c1 @ dip @ take 4 (drop 12 ip) @ ?icmp"
    using frame_parts(4) [OF f assms(10,13) n] f n assms(3,10,13) d by (simp add: echo_reply_def Let_def p ip_header_def)
  have l: "length dip = 4" using d assms(3) by simp
  have "proc_v4 cfg (echo_reply h c1 c2 frame) st2
      = Some (st2\<lparr>ping_counter_array := (ping_counter_array st2)[nat k := ping_counter_array st2 ! nat k + 1]\<rparr>)"
  proof (rule proc_v4_counts [where icmp = ?icmp])
    show "?icmp ! 4 = 0x17" "?icmp ! 5 = 0x1A" using assms(16) by (simp_all add: i icmp_echo_def nth_append)
    show "echo_reply h c1 c2 frame ! 9 = 1" using assms(14) by (simp add: e nth_append)
  qed (use assms l n in \<open>simp_all add: e\<close>)
  then show ?thesis using q c fr frame_parts(1) [OF f assms(10,13) n] m by auto
qed

section \<open>Properties\<close>

text \<open>
  C18 (the checksums of an echo request).  The length passed for the checksum of the Internet header covers the message
  behind it as well, and that of the message twenty bytes behind its data.  Both are right all the same: the
  message is summed first, so that it contributes nothing to the sum of the header, and the twenty bytes are
  zeros inside the packet.  A receiver that checks the header of 20 bytes and the message of 44 bytes, which is
  what the length field says, accepts both.
\<close>

theorem ping_checksums:
  assumes "is_cksum in_cksum" and "addrs_ok cfg" and "length dst_mac = 6" and "length local_mac = 6"
    and "send_v4 cfg in_cksum local_mac dst_mac tv k st = Some frame"
  shows "length frame = ETHR_FRAME_LEN \<and> take 6 frame = dst_mac \<and> take 2 (drop 16 frame) = [0, 64]
    \<and> rfc1071 (take 20 (drop 14 frame)) = 0 \<and> rfc1071 (take 44 (drop 34 frame)) = 0"
proof -
  obtain sip dip seq icmp ip where l: "length sip = 4" "length dip = 4" and i: "icmp = icmp_echo (in_cksum (icmp_echo 0 seq tv)) seq tv"
    and p: "ip = ip_header (in_cksum (ip_header 0 sip dip @ icmp)) sip dip"
    and f: "frame = dst_mac @ local_mac @ [0x08, 0x00] @ ip @ icmp @ replicate 1432 0" and n: "length ip = 20" "length icmp = 44"
    by (rule send_v4_frame [OF assms(5,2-4)])
  have c: "in_cksum bs = rfc1071 bs" if "even (length bs)" "length bs \<le> 2000" for bs using assms(1) that by (simp add: is_cksum_def)
  have "65535 dvd uint (rfc1071 (icmp_echo 0 seq tv)) + sum16 (icmp_echo 0 seq tv)" by (rule rfc1071_dvd) simp
  then have di: "65535 dvd sum16 icmp" using sum16_icmp [of "in_cksum (icmp_echo 0 seq tv)" seq tv] c i by (simp add: add.commute)
  have "65535 dvd uint (rfc1071 (ip_header 0 sip dip @ icmp)) + sum16 (ip_header 0 sip dip @ icmp)"
    using l n(2) by (intro rfc1071_dvd) simp
  then have "65535 dvd sum16 ip + sum16 icmp"
    using sum16_header [OF l, of "in_cksum (ip_header 0 sip dip @ icmp)"] c l n(2) p by (simp add: sum16_append algebra_simps)
  then have "65535 dvd sum16 ip" using di dvd_add_left_iff by blast
  moreover have "0 < sum16 ip" "0 < sum16 icmp" using header_positive by (simp_all only: i p)
  ultimately have "rfc1071 ip = 0" "rfc1071 icmp = 0" using di n by (simp_all add: rfc1071_zero)
  moreover have "take 2 (drop 16 frame) = [0, 64]" using assms(3,4) by (simp add: f p ip_header_def)
  ultimately show ?thesis
    using frame_parts [OF f assms(3,4) n] assms(3,4) n by (simp add: f ETHR_FRAME_LEN_def)
qed

text \<open>Two machines, as the tour program of the first sees them.\<close>

definition two_vms :: tour_config where
  "two_vms = \<lparr>vm_addr = (\<lambda>h. if h = ''vm1'' then Some [130, 245, 156, 21] else if h = ''vm2'' then Some [130, 245, 156, 22] else None),
     addr_name = (\<lambda>a. if a = [130, 245, 156, 22] then Some ''vm2'' else None), localHost = ''vm1''\<rparr>"

lemma two_vms_facts:
  "addrs_ok two_vms" "vm_addr two_vms (localHost two_vms) = Some [130, 245, 156, 21]" "vm_full 2 = ''vm2''"
  "vm_addr two_vms (vm_full 2) = Some [130, 245, 156, 22]" "addr_name two_vms [130, 245, 156, 22] = Some (vm_full 2)"
proof -
  show v: "vm_full 2 = ''vm2''" by code_simp
  show "addrs_ok two_vms" by (simp add: addrs_ok_def two_vms_def)
  show "vm_addr two_vms (localHost two_vms) = Some [130, 245, 156, 21]" by (simp add: two_vms_def)
  show "vm_addr two_vms (vm_full 2) = Some [130, 245, 156, 22]" "addr_name two_vms [130, 245, 156, 22] = Some (vm_full 2)"
    unfolding v by (simp_all add: two_vms_def)
qed

theorem ping_checksums_witness:
  "\<exists>frame. send_v4 two_vms rfc1071 [0, 12, 41, 1, 1, 1] [0, 12, 41, 2, 2, 3] (1000, 5) 2 tour_init = Some frame
    \<and> rfc1071 (take 20 (drop 14 frame)) = 0 \<and> rfc1071 (take 44 (drop 34 frame)) = 0"
proof -
  have "load_int (ping_counter_array tour_init) 2 = Some 0" by code_simp
  then obtain frame where f: "send_v4 two_vms rfc1071 [0, 12, 41, 1, 1, 1] [0, 12, 41, 2, 2, 3] (1000, 5) 2 tour_init = Some frame"
    using two_vms_facts(2,4) by (simp add: send_v4_def Let_def)
  moreover have "is_cksum rfc1071" by (simp add: is_cksum_def)
  ultimately show ?thesis using ping_checksums [OF _ two_vms_facts(1) _ _ f] by auto
qed

text \<open>
  C17 (a ping is resolved, sent and counted).  When the daemon of the node has the address of the pinged node, \<^verbatim>\<open>areq\<close> gets it:
  the daemon reads the twenty bytes, whatever stands behind the text, as the dotted address, and answers at
  once.  The echo request is sent to that address, and the reply of the peer increases the counter of that
  node by one and changes nothing else.
\<close>

theorem ping_counted:
  assumes "addrs_ok cfg" and "vm_addr cfg (localHost cfg) = Some sip" and "vm_addr cfg (vm_full k) = Some dip"
    and "addr_name cfg dip = Some (vm_full k)" and "1 \<le> k" and "k \<le> 10" and "length (ping_counter_array st) = PING_SIZE"
    and "indexOfIP (ip_ntop dip) (arpTable ast) = Some i" and "mac = a_macAddr (arpTable ast ! i)" and "length mac = 6"
    and "checkAddressNotEmpty mac" and "length buf = 6" and "length local_mac = 6" and "length h = 8" and "length c1 = 2" and "length c2 = 2"
  shows "\<exists>q frame. areq_question cfg junk k = Some q
    \<and> arp_client ifs fd [q] ast = Some (ast, [ToClient fd mac, CloseFd fd])
    \<and> send_v4 cfg in_cksum local_mac (areq_mac buf (Some mac)) tv k st = Some frame \<and> take 6 frame = mac
    \<and> proc_v4 cfg (echo_reply h c1 c2 frame) st
        = Some (st\<lparr>ping_counter_array := (ping_counter_array st)[nat k := ping_counter_array st ! nat k + 1]\<rparr>)"
  by (rule ping_counts [OF assms assms(7)])

definition resolved :: arp where
  "resolved = \<lparr>arpTable = [\<lparr>a_ipAddr = ip_ntop [130, 245, 156, 22], a_macAddr = [0, 12, 41, 2, 2, 3], sll_hatype = 1, sll_ifindex = 2, conn_fd = -1\<rparr>]\<rparr>"

theorem ping_counted_witness:
  "\<exists>q frame. areq_question two_vms (\<lambda>i. of_nat i) 2 = Some q
    \<and> arp_client [node_a] 5 [q] resolved = Some (resolved, [ToClient 5 [0, 12, 41, 2, 2, 3], CloseFd 5])
    \<and> send_v4 two_vms rfc1071 [0, 12, 41, 1, 1, 1] (areq_mac (replicate 6 9) (Some [0, 12, 41, 2, 2, 3])) (1000, 5) 2 tour_init = Some frame
    \<and> map_option (\<lambda>st. ping_counter_array st ! 2) (proc_v4 two_vms (echo_reply (replicate 8 0) [1, 1] [2, 2] frame) tour_init) = Some 1"
proof -
  have i: "indexOfIP (ip_ntop [130, 245, 156, 22]) (arpTable resolved) = Some 0" "[0, 12, 41, 2, 2, 3] = a_macAddr (arpTable resolved ! 0)"
    "length (ping_counter_array tour_init) = PING_SIZE" by (simp_all add: resolved_def indexOfIP_def tour_init_def)
  have c: "checkAddressNotEmpty [0, 12, 41, 2, 2, 3]" by code_simp
  have z: "(ping_counter_array tour_init)[nat 2 := ping_counter_array tour_init ! nat 2 + 1] ! 2 = 1" by code_simp
  show ?thesis
    using ping_counted [OF two_vms_facts(1,2,4,5) _ _ i(3,1,2) _ c, of "replicate 6 9" "[0, 12, 41, 1, 1, 1]" "replicate 8 0" "[1, 1]" "[2, 2]"
        "\<lambda>i. of_nat i" "[node_a]" 5 rfc1071 "(1000, 5)"] z by auto
qed

end
