(* ===== verification/Tour_Net.thy ===== *)
theory Tour_Net
  imports Ping "HOL-Library.Multiset"
begin

text \<open>
  A whole tour (\<^verbatim>\<open>tour_chechung.c\<close> on every node, \<^verbatim>\<open>arp_chechung.c\<close> beside it): the packet on its way while the nodes
  already visited ping, the pings of the last node through its resolution daemon, the announcement and the answers
  over the group, and the alarm that ends each process.
\<close>

section \<open>The pings of a second\<close>

text \<open>
  What \<^verbatim>\<open>main\<close> does after a second without input: \<^verbatim>\<open>send_v4\<close> for each node to be pinged, with the question to the daemon and
  its answer.  The record holds what comes from outside: the bytes of the arrays before they are written, the
  descriptor, the time, the bytes of an answer that the peer chooses, and the order in which the answers arrive.
\<close>

record ping_env =
  e_junk :: memory
  e_ifs :: "arp_interface list"
  e_fd :: int
  e_cksum :: "byte list \<Rightarrow> 16 word"
  e_mac :: mac
  e_buf :: mac
  e_time :: "int \<times> int"
  e_peer :: "nat \<Rightarrow> byte list \<times> byte list \<times> byte list"
  e_arrival :: "(nat \<times> byte list) list \<Rightarrow> (nat \<times> byte list) list"

definition daemon_answer :: "arp_effect list \<Rightarrow> byte list option" where
  "daemon_answer fx = (case fx of ToClient _ bs # _ \<Rightarrow> Some bs | _ \<Rightarrow> None)"

definition ping_vm :: "tour_config \<Rightarrow> ping_env \<Rightarrow> tour \<Rightarrow> arp \<Rightarrow> nat \<Rightarrow> (arp \<times> byte list) option" where
  "ping_vm cfg e st ast k =
     do {
       q \<leftarrow> areq_question cfg (e_junk e) (int k);
       (ast', fx) \<leftarrow> arp_client (e_ifs e) (e_fd e) [q] ast;
       frame \<leftarrow> send_v4 cfg (e_cksum e) (e_mac e) (areq_mac (e_buf e) (daemon_answer fx)) (e_time e) (int k) st;
       Some (ast', frame)
     }"

fun send_pings :: "tour_config \<Rightarrow> ping_env \<Rightarrow> tour \<Rightarrow> arp \<Rightarrow> nat list \<Rightarrow> (arp \<times> (nat \<times> byte list) list) option" where
  "send_pings cfg e st ast [] = Some (ast, [])"
| "send_pings cfg e st ast (k # ks) =
     do {
       (ast1, frame) \<leftarrow> ping_vm cfg e st ast k;
       (ast2, frames) \<leftarrow> send_pings cfg e st ast1 ks;
       Some (ast2, (k, frame) # frames)
     }"

definition answer_of :: "ping_env \<Rightarrow> nat \<times> byte list \<Rightarrow> byte list" where
  "answer_of e = (\<lambda>(k, frame). case e_peer e k of (h, c1, c2) \<Rightarrow> echo_reply h c1 c2 frame)"

fun read_pings :: "tour_config \<Rightarrow> byte list list \<Rightarrow> tour \<Rightarrow> tour option" where
  "read_pings cfg [] st = Some st"
| "read_pings cfg (bs # rest) st = do { st' \<leftarrow> proc_v4 cfg bs st; read_pings cfg rest st' }"

definition pinged :: "tour_effect list \<Rightarrow> nat list" where
  "pinged fx = concat (map (\<lambda>f. case f of PingVm k \<Rightarrow> [k] | _ \<Rightarrow> []) fx)"

definition multicasts :: "tour_effect list \<Rightarrow> string list" where
  "multicasts fx = concat (map (\<lambda>f. case f of SendMulticast m \<Rightarrow> [m] | _ \<Rightarrow> []) fx)"

text \<open>A second without input, and the answers to the pings it caused; the seconds until a message is sent to the group.\<close>

definition quiet_second :: "tour_config \<Rightarrow> ping_env \<Rightarrow> arp \<Rightarrow> tour \<Rightarrow> (arp \<times> tour \<times> tour_effect list) option" where
  "quiet_second cfg e ast st =
     do {
       (st1, fx) \<leftarrow> tour_tick cfg st;
       (ast', frames) \<leftarrow> send_pings cfg e st1 ast (pinged fx);
       st2 \<leftarrow> read_pings cfg (map (answer_of e) (e_arrival e frames)) st1;
       Some (ast', st2, fx)
     }"

fun quiet_seconds :: "tour_config \<Rightarrow> (nat \<Rightarrow> ping_env) \<Rightarrow> nat \<Rightarrow> arp \<Rightarrow> tour \<Rightarrow> (tour \<times> string) option" where
  "quiet_seconds cfg es 0 ast st = None"
| "quiet_seconds cfg es (Suc n) ast st =
     do {
       (ast', st', fx) \<leftarrow> quiet_second cfg (es n) ast st;
       case multicasts fx of [] \<Rightarrow> quiet_seconds cfg es n ast' st' | m # _ \<Rightarrow> Some (st', m)
     }"

section \<open>The counters\<close>

definition peers_ok :: "ping_env \<Rightarrow> bool" where
  "peers_ok e \<longleftrightarrow> length (e_mac e) = 6 \<and> length (e_buf e) = 6 \<and> (\<forall>fs. mset (e_arrival e fs) = mset fs)
     \<and> (\<forall>k. case e_peer e k of (h, c1, c2) \<Rightarrow> length h = 8 \<and> length c1 = 2 \<and> length c2 = 2)"

text \<open>The daemon has the hardware address of each node of \<open>H\<close>.\<close>

definition knows :: "tour_config \<Rightarrow> arp \<Rightarrow> int set \<Rightarrow> bool" where
  "knows cfg ast H \<longleftrightarrow> (\<forall>k \<in> H. \<exists>dip i. vm_addr cfg (vm_full k) = Some dip \<and> addr_name cfg dip = Some (vm_full k)
     \<and> indexOfIP (ip_ntop dip) (arpTable ast) = Some i \<and> length (a_macAddr (arpTable ast ! i)) = 6
     \<and> checkAddressNotEmpty (a_macAddr (arpTable ast ! i)))"

definition bump :: "nat \<Rightarrow> tour \<Rightarrow> tour" where
  "bump k st = st\<lparr>ping_counter_array := (ping_counter_array st)[k := ping_counter_array st ! k + 1]\<rparr>"

lemma ping_vm_works:
  assumes "peers_ok e" "knows cfg ast H" "int k \<in> H" "H \<subseteq> {1..10}" "addrs_ok cfg" "vm_addr cfg (localHost cfg) = Some sip" "sane st"
  shows "\<exists>frame. ping_vm cfg e st ast k = Some (ast, frame) \<and> (\<forall>st2. sane st2 \<longrightarrow> proc_v4 cfg (answer_of e (k, frame)) st2 = Some (bump k st2))"
proof -
  obtain dip i where d: "vm_addr cfg (vm_full (int k)) = Some dip" "addr_name cfg dip = Some (vm_full (int k))"
    "indexOfIP (ip_ntop dip) (arpTable ast) = Some i" "length (a_macAddr (arpTable ast ! i)) = 6"
    "checkAddressNotEmpty (a_macAddr (arpTable ast ! i))"
    using assms(2,3) unfolding knows_def by blast
  obtain h c1 c2 where p: "e_peer e k = (h, c1, c2)" by (cases "e_peer e k") auto
  have l: "length (e_mac e) = 6" "length (e_buf e) = 6" "length h = 8" "length c1 = 2" "length c2 = 2"
    using assms(1) p unfolding peers_ok_def by (auto dest: spec [of _ k])
  have k: "1 \<le> int k" "int k \<le> 10" using assms(3,4) by auto
  have c: "length (ping_counter_array st) = PING_SIZE" using assms(7) by (simp add: sane_def)
  note count = ping_counts [OF assms(5,6) d(1,2) k c d(3) refl d(4,5) l(2,1,3-5), where junk = "e_junk e" and ifs = "e_ifs e" and fd = "e_fd e"
      and in_cksum = "e_cksum e" and tv = "e_time e"]
  obtain frame where f: "ping_vm cfg e st ast k = Some (ast, frame)"
    using count [OF c] by (auto simp: ping_vm_def daemon_answer_def)
  have "proc_v4 cfg (answer_of e (k, frame)) st2 = Some (bump k st2)" if "sane st2" for st2
  proof -
    have c2: "length (ping_counter_array st2) = PING_SIZE" using that by (simp add: sane_def)
    show ?thesis using count [OF c2] f p by (auto simp: ping_vm_def daemon_answer_def answer_of_def bump_def)
  qed
  with f show ?thesis by blast
qed

lemma sane_bump [simp]: "sane (bump k st) = sane st"
  by (simp add: sane_def bump_def)

lemma send_pings_works:
  assumes "peers_ok e" "knows cfg ast H" "H \<subseteq> {1..10}" "addrs_ok cfg" "vm_addr cfg (localHost cfg) = Some sip" "sane st"
  shows "\<forall>k \<in> set ks. int k \<in> H \<Longrightarrow> \<exists>frames. send_pings cfg e st ast ks = Some (ast, frames) \<and> map fst frames = ks
    \<and> (\<forall>p \<in> set frames. \<forall>st2. sane st2 \<longrightarrow> proc_v4 cfg (answer_of e p) st2 = Some (bump (fst p) st2))"
proof (induction ks)
  case (Cons k ks)
  from Cons obtain frames where "send_pings cfg e st ast ks = Some (ast, frames)" "map fst frames = ks"
    "\<forall>p \<in> set frames. \<forall>st2. sane st2 \<longrightarrow> proc_v4 cfg (answer_of e p) st2 = Some (bump (fst p) st2)" by auto
  moreover obtain frame where "ping_vm cfg e st ast k = Some (ast, frame)"
    "\<forall>st2. sane st2 \<longrightarrow> proc_v4 cfg (answer_of e (k, frame)) st2 = Some (bump k st2)"
    using ping_vm_works [OF assms(1,2) _ assms(3-6), of k] Cons.prems by auto
  ultimately show ?case by simp
qed simp

lemma read_pings_works:
  "\<forall>p \<in> set fs. \<forall>st2. sane st2 \<longrightarrow> proc_v4 cfg (answer_of e p) st2 = Some (bump (fst p) st2) \<Longrightarrow> sane st \<Longrightarrow>
    read_pings cfg (map (answer_of e) fs) st = Some (fold bump (map fst fs) st)"
  by (induction fs arbitrary: st) simp_all

text \<open>Each node of a set has answered once.\<close>

definition bump_all :: "nat set \<Rightarrow> tour \<Rightarrow> tour" where
  "bump_all K st = st\<lparr>ping_counter_array := map (\<lambda>i. ping_counter_array st ! i + (if i \<in> K then 1 else 0)) [0..<PING_SIZE]\<rparr>"

lemma sane_bump_all [simp]: "sane st \<Longrightarrow> sane (bump_all K st)"
  by (simp add: sane_def bump_all_def)

lemma bump_all_nth: "i < PING_SIZE \<Longrightarrow> ping_counter_array (bump_all K st) ! i = ping_counter_array st ! i + (if i \<in> K then 1 else 0)"
  by (simp add: bump_all_def)

lemma fold_bump:
  "distinct ks \<Longrightarrow> set ks \<subseteq> {..<PING_SIZE} \<Longrightarrow> sane st \<Longrightarrow> fold bump ks st = bump_all (set ks) st"
proof (induction ks arbitrary: st)
  case Nil
  then show ?case by (auto simp: bump_all_def sane_def intro!: tour.equality nth_equalityI)
next
  case (Cons k ks)
  then have "fold bump (k # ks) st = bump_all (set ks) (bump k st)" by simp
  also have "\<dots> = bump_all (set (k # ks)) st"
    using Cons.prems by (auto simp: bump_all_def bump_def sane_def nth_list_update intro!: tour.equality nth_equalityI)
  finally show ?case .
qed

lemma pinged_vms [simp]: "pinged (map PingVm ks) = ks" "multicasts (map PingVm ks) = []"
  by (induction ks) (simp_all add: pinged_def multicasts_def)

definition ping_set :: "tour \<Rightarrow> nat set" where
  "ping_set st = {k. 1 \<le> k \<and> k < PING_SIZE \<and> if_ping st ! k \<noteq> 0}"

text \<open>A second of pings: every node pinged is resolved, answers, and is counted once, in whatever order the answers come.\<close>

lemma quiet_second_pings:
  assumes "peers_ok e" "knows cfg ast H" "H \<subseteq> {1..10}" "addrs_ok cfg" "vm_addr cfg (localHost cfg) = Some sip" "sane st"
    and "\<forall>k \<in> ping_set st. int k \<in> H"
    and "tour_tick cfg st = Some (st, map PingVm (filter (\<lambda>k. if_ping st ! k \<noteq> 0) [1..<PING_SIZE]))" (is "_ = Some (_, map PingVm ?ks)")
  shows "quiet_second cfg e ast st = Some (ast, bump_all (ping_set st) st, map PingVm ?ks)"
proof -
  have ks: "set ?ks = ping_set st" "distinct ?ks" by (auto simp: ping_set_def)
  then obtain frames where f: "send_pings cfg e st ast ?ks = Some (ast, frames)" "map fst frames = ?ks"
    "\<forall>p \<in> set frames. \<forall>st2. sane st2 \<longrightarrow> proc_v4 cfg (answer_of e p) st2 = Some (bump (fst p) st2)"
    using send_pings_works [OF assms(1-6), of ?ks] assms(7) by auto
  let ?fs = "e_arrival e frames"
  have m: "mset ?fs = mset frames" using assms(1) by (simp add: peers_ok_def)
  then have s: "set ?fs = set frames" by (rule mset_eq_setD)
  have "mset (map fst ?fs) = mset ?ks" using m f(2) by (metis mset_map)
  then have d: "distinct (map fst ?fs)" "set (map fst ?fs) = ping_set st" using ks by (metis mset_eq_imp_distinct_iff, metis mset_eq_setD)
  have "read_pings cfg (map (answer_of e) ?fs) st = Some (fold bump (map fst ?fs) st)" using f(3) s assms(6) by (intro read_pings_works) simp_all
  also have "fold bump (map fst ?fs) st = bump_all (ping_set st) st" using fold_bump [OF d(1) _ assms(6)] d(2) by (auto simp: ping_set_def)
  finally show ?thesis using assms(8) f(1) by (simp add: quiet_second_def)
qed

text \<open>
  Before the tour ends: the nodes pinged are among \<open>H\<close>, and as soon as one is, pinging is switched on and the node
  noted last is one of them.
\<close>

definition touring :: "int set \<Rightarrow> tour \<Rightarrow> bool" where
  "touring H st \<longleftrightarrow> sane st \<and> (\<forall>c \<in> set (ping_counter_array st). 0 \<le> c)
     \<and> (\<forall>k \<in> ping_set st. int k \<in> H \<and> ping_switch st = 1 \<and> nat (previous_vmNum_static st) \<in> ping_set st)"

lemma touring_init: "touring H tour_init"
  by (auto simp: touring_def ping_set_def tour_init_def sane_def)

lemma bump_all_keeps [simp]:
  "ping_set (bump_all K st) = ping_set st" "if_last_node (bump_all K st) = if_last_node st" "ping_switch (bump_all K st) = ping_switch st"
  "previous_vmNum_static (bump_all K st) = previous_vmNum_static st"
  by (simp_all add: bump_all_def ping_set_def)

lemma touring_bump_all: "touring H st \<Longrightarrow> touring H (bump_all K st)"
proof -
  assume t: "touring H st"
  then have "\<forall>c \<in> set (ping_counter_array (bump_all K st)). 0 \<le> c" by (auto simp: touring_def sane_def bump_all_def)
  then show ?thesis using t by (simp add: touring_def)
qed

lemma last_second:
  assumes "touring H st" "ping_set st \<noteq> {}" "if_last_node st = 1"
  shows "tour_tick cfg st = Some
      (if ping_counter_array st ! nat (previous_vmNum_static st) \<ge> 5
       then (st\<lparr>ping_switch := -1\<rparr>, [SendMulticast (end_message (localHost cfg))])
       else (st, map PingVm (filter (\<lambda>k. if_ping st ! k \<noteq> 0) [1..<PING_SIZE])))"
proof -
  have p: "nat (previous_vmNum_static st) \<in> ping_set st" "ping_switch st = 1" "sane st" using assms(1,2) by (auto simp: touring_def)
  then have "0 \<le> previous_vmNum_static st" "nat (previous_vmNum_static st) < PING_SIZE" by (auto simp: ping_set_def)
  then have "load_int (ping_counter_array st) (previous_vmNum_static st) = Some (ping_counter_array st ! nat (previous_vmNum_static st))"
    using p(3) by (simp add: load_int_def load_def sane_def)
  then show ?thesis using p(2) assms(3) by (simp add: tour_tick_def)
qed

lemma last_second_ends:
  assumes "peers_ok (es n)" "touring H st" "ping_set st \<noteq> {}" "if_last_node st = 1" "ping_counter_array st ! nat (previous_vmNum_static st) \<ge> 5"
  shows "\<exists>cs. quiet_seconds cfg es (Suc n) ast st = Some (st\<lparr>ping_counter_array := cs, ping_switch := -1\<rparr>, end_message (localHost cfg))"
proof -
  have "mset (e_arrival (es n) []) = mset []" using assms(1) unfolding peers_ok_def by blast
  then have "e_arrival (es n) [] = []" by simp
  then show ?thesis using last_second [OF assms(2-4), of cfg] assms(5)
    by (intro exI [of _ "ping_counter_array st"]) (simp add: quiet_second_def pinged_def multicasts_def)
qed

lemma seconds_to_end:
  assumes "\<forall>n. peers_ok (es n)" "knows cfg ast H" "H \<subseteq> {1..10}" "addrs_ok cfg" "vm_addr cfg (localHost cfg) = Some sip"
  shows "touring H st \<Longrightarrow> ping_set st \<noteq> {} \<Longrightarrow> if_last_node st = 1 \<Longrightarrow> 5 - ping_counter_array st ! nat (previous_vmNum_static st) \<le> int n \<Longrightarrow>
    \<exists>cs. quiet_seconds cfg es (Suc n) ast st = Some (st\<lparr>ping_counter_array := cs, ping_switch := -1\<rparr>, end_message (localHost cfg))"
proof (induction n arbitrary: st)
  case 0
  then show ?case using last_second_ends [of es, OF _ 0(1-3)] assms(1) by simp
next
  case (Suc n)
  let ?c = "ping_counter_array st ! nat (previous_vmNum_static st)"
  have t: "sane st" "\<forall>k \<in> ping_set st. int k \<in> H" "nat (previous_vmNum_static st) \<in> ping_set st"
    using Suc.prems(1,2) by (auto simp: touring_def)
  show ?case
  proof (cases "5 \<le> ?c")
    case True
    then show ?thesis using last_second_ends [of es, OF _ Suc.prems(1-3)] assms(1) by simp
  next
    case False
    let ?st = "bump_all (ping_set st) st"
    have q: "quiet_second cfg (es (Suc n)) ast st = Some (ast, ?st, map PingVm (filter (\<lambda>k. if_ping st ! k \<noteq> 0) [1..<PING_SIZE]))"
      using quiet_second_pings [OF _ assms(2-5) t(1,2), of "es (Suc n)"] assms(1) last_second [OF Suc.prems(1-3), of cfg] False by simp
    have "ping_counter_array ?st ! nat (previous_vmNum_static st) = ?c + 1"
      using t(3) by (subst bump_all_nth) (simp_all add: ping_set_def)
    then have "\<exists>cs. quiet_seconds cfg es (Suc n) ast ?st = Some (?st\<lparr>ping_counter_array := cs, ping_switch := -1\<rparr>, end_message (localHost cfg))"
      using Suc.IH [OF touring_bump_all [OF Suc.prems(1), of "ping_set st"]] Suc.prems(2-4) by (simp del: quiet_seconds.simps)
    then obtain cs where "quiet_seconds cfg es (Suc n) ast ?st = Some (?st\<lparr>ping_counter_array := cs, ping_switch := -1\<rparr>, end_message (localHost cfg))" ..
    moreover have "?st\<lparr>ping_counter_array := cs, ping_switch := -1\<rparr> = st\<lparr>ping_counter_array := cs, ping_switch := -1\<rparr>"
      by (simp add: bump_all_def)
    ultimately show ?thesis using q by (auto simp del: quiet_seconds.simps simp: quiet_seconds.simps(2) [of cfg es "Suc n"])
  qed
qed

section \<open>The way of the packet\<close>

text \<open>
  All nodes share the name service and differ in their own name.  Before each hop the nodes may have pinged and been
  answered: \<open>other\<close>.  The result is the states of the nodes when the packet has stopped, and the node where it has.
\<close>

definition at_node :: "tour_config \<Rightarrow> int \<Rightarrow> tour_config" where
  "at_node cfg h = cfg\<lparr>localHost := vm_full h\<rparr>"

fun tour_run :: "tour_config \<Rightarrow> (byte list \<Rightarrow> int) \<Rightarrow> (nat \<Rightarrow> (int \<Rightarrow> tour) \<Rightarrow> int \<Rightarrow> tour) \<Rightarrow> (nat \<Rightarrow> byte list \<times> memory) \<Rightarrow> nat
    \<Rightarrow> (int \<Rightarrow> tour) \<Rightarrow> byte list \<times> byte list \<Rightarrow> ((int \<Rightarrow> tour) \<times> int) option" where
  "tour_run cfg node_at other env 0 nodes s = None"
| "tour_run cfg node_at other env (Suc fuel) nodes (dst, raw) =
     (let h = node_at dst; nodes1 = other fuel nodes; (old, junk) = env fuel
      in case tour_packet (at_node cfg h) old junk raw (nodes1 h) of
           None \<Rightarrow> None
         | Some (st', fx) \<Rightarrow>
             (case rt_sends fx of
                [] \<Rightarrow> Some (nodes1(h := st'), h)
              | s # _ \<Rightarrow> tour_run cfg node_at other env fuel (nodes1(h := st')) s))"

text \<open>What pings and their answers change at a node.\<close>

definition more_pings :: "tour \<Rightarrow> tour \<Rightarrow> bool" where
  "more_pings st st' \<longleftrightarrow> (\<exists>cs. st' = st\<lparr>ping_counter_array := cs\<rparr> \<and> length cs = length (ping_counter_array st)
     \<and> (\<forall>i < length cs. ping_counter_array st ! i \<le> cs ! i))"

lemma more_pings_refl: "more_pings st st"
  unfolding more_pings_def by (rule exI [of _ "ping_counter_array st"]) simp

lemma steps_ping:
  assumes "tour_step cfg st ev = Some (st', fx)" "ev = Tick \<and> if_last_node st \<noteq> 1 \<or> (\<exists>bs. ev = PingReply bs)"
  shows "more_pings st st'"
proof -
  consider "ev = Tick" "if_last_node st \<noteq> 1" | bs where "ev = PingReply bs" using assms(2) by blast
  then show ?thesis
  proof cases
    case 1
    then have "st' = st" using assms(1) by (auto simp: tour_tick_def bind_eq_Some_conv split: if_splits)
    then show ?thesis by (simp add: more_pings_refl)
  next
    case (2 bs)
    then consider "st' = st" | i c where "st' = st\<lparr>ping_counter_array := (ping_counter_array st)[nat i := c + 1]\<rparr>" "load_int (ping_counter_array st) i = Some c"
      using assms(1) by (auto simp: proc_v4_def bind_eq_Some_conv Let_def split: if_splits)
    then show ?thesis
    proof cases
      case 1
      then show ?thesis by (simp add: more_pings_refl)
    next
      case (2 i c)
      then show ?thesis unfolding more_pings_def
        by (intro exI [of _ "(ping_counter_array st)[nat i := c + 1]"]) (auto simp: load_int_def load_def nth_list_update split: if_splits)
    qed
  qed
qed

lemma touring_more_pings:
  assumes "touring H st" "more_pings st st'"
  shows "touring H st'" "ifVisit st' = ifVisit st" "if_last_node st' = if_last_node st"
proof -
  obtain cs where c: "st' = st\<lparr>ping_counter_array := cs\<rparr>" "length cs = length (ping_counter_array st)"
    "\<forall>i < length cs. ping_counter_array st ! i \<le> cs ! i" using assms(2) unfolding more_pings_def by blast
  have "0 \<le> x" if x: "x \<in> set cs" for x
  proof -
    from x obtain i where i: "i < length cs" "x = cs ! i" unfolding in_set_conv_nth by blast
    then have "ping_counter_array st ! i \<in> set (ping_counter_array st)" using c(2) by simp
    then have "0 \<le> ping_counter_array st ! i" using assms(1) by (simp add: touring_def)
    then show ?thesis using c(3) i by fastforce
  qed
  moreover have "ping_set st' = ping_set st" using c(1) by (simp add: ping_set_def)
  ultimately show "touring H st'" using assms(1) c(1,2) by (simp add: touring_def sane_def)
  show "ifVisit st' = ifVisit st" "if_last_node st' = if_last_node st" using c(1) by simp_all
qed

lemma note_previous_touring:
  assumes "touring H st" "p \<in> H" "H \<subseteq> {1..10}" "note_previous p st = Some st1"
  shows "touring H st1 \<and> nat p \<in> ping_set st1"
proof -
  have "1 \<le> p" "p \<le> 10" using assms(2,3) by auto
  then have p: "1 \<le> nat p" "nat p < PING_SIZE" "int (nat p) \<in> H" "0 \<le> p" using assms(2) by (auto simp: PING_SIZE_def)
  have l: "length (if_ping st) = PING_SIZE" using assms(1) by (simp add: touring_def sane_def)
  show ?thesis
  proof (cases "if_ping st ! nat p = 0")
    case True
    then have st1: "st1 = st\<lparr>ping_switch := 1, if_ping := (if_ping st)[nat p := 1], previous_vmNum_static := p\<rparr>"
      using assms(4) p l by (simp add: note_previous_def load_int_def load_def)
    have "ping_set st1 = insert (nat p) (ping_set st)" using p l by (auto simp: st1 ping_set_def nth_list_update)
    then show ?thesis using assms(1) p(3) by (auto simp: touring_def sane_def st1)
  next
    case False
    then have "st1 = st" using assms(4) p l by (simp add: note_previous_def load_int_def load_def)
    then show ?thesis using assms(1) False p by (simp add: ping_set_def)
  qed
qed

lemma note_previous_keeps: "note_previous p st = Some st1 \<Longrightarrow> ifVisit st1 = ifVisit st \<and> if_last_node st1 = if_last_node st"
  by (auto simp: note_previous_def bind_eq_Some_conv split: if_splits)

lemma touring_flags [simp]: "touring H (st\<lparr>if_last_node := a, ifVisit := b\<rparr>) = touring H st" "touring H (st\<lparr>ifVisit := b\<rparr>) = touring H st"
  "touring H (st\<lparr>if_last_node := a\<rparr>) = touring H st" "ping_set (st\<lparr>if_last_node := a\<rparr>) = ping_set st" "ping_set (st\<lparr>ifVisit := b\<rparr>) = ping_set st"
  "ping_set (st\<lparr>if_last_node := a, ifVisit := b\<rparr>) = ping_set st"
  by (simp_all add: touring_def sane_def ping_set_def)

lemma at_node_packet [simp]:
  "sendRTpacket (at_node cfg h) = sendRTpacket cfg" "receiveRTpacket (at_node cfg h) = receiveRTpacket cfg" "tour_ok (at_node cfg h) = tour_ok cfg"
  "vm_addr (at_node cfg h) = vm_addr cfg" "addr_name (at_node cfg h) = addr_name cfg" "localHost (at_node cfg h) = vm_full h"
  by (simp_all add: at_node_def sendRTpacket_def receiveRTpacket_def tour_ok_def fun_eq_iff)

text \<open>The states while the packet is on its way to the node with index \<open>Suc k\<close>.\<close>

definition on_tour :: "int list \<Rightarrow> nat \<Rightarrow> (int \<Rightarrow> tour) \<Rightarrow> bool" where
  "on_tour hs k nodes \<longleftrightarrow> (\<forall>h. touring (set hs) (nodes h) \<and> if_last_node (nodes h) \<noteq> 1
     \<and> ifVisit (nodes h) = (if h \<in> set (take (Suc k) hs) then 1 else 0))"

definition tour_done :: "int list \<Rightarrow> (int \<Rightarrow> tour) \<Rightarrow> bool" where
  "tour_done hs nodes \<longleftrightarrow> (\<forall>h. touring (set hs) (nodes h) \<and> (if_last_node (nodes h) = 1 \<longleftrightarrow> h = last hs)
     \<and> ifVisit (nodes h) = (if h \<in> set hs then 1 else 0)) \<and> ping_set (nodes (last hs)) \<noteq> {}"

lemma on_tour_pings:
  assumes "on_tour hs k nodes" "\<And>h. more_pings (nodes h) (nodes' h)"
  shows "on_tour hs k nodes'"
  using assms(1) touring_more_pings [OF _ assms(2)] unfolding on_tour_def by metis

lemma node_takes_packet:
  assumes "tour_ok cfg addr hs" "receiveRTpacket cfg old raw = Some p" "tour_payload hs (Suc k) p" "Suc k < length hs" "on_tour hs k nodes"
  shows "\<exists>st' fx. tour_packet (at_node cfg (hs ! Suc k)) old junk raw (nodes (hs ! Suc k)) = Some (st', fx)
    \<and> (Suc (Suc k) < length hs \<longrightarrow> rt_sends fx = [the (sendRTpacket cfg junk p)] \<and> on_tour hs (Suc k) (nodes(hs ! Suc k := st')))
    \<and> (Suc (Suc k) = length hs \<longrightarrow> rt_sends fx = [] \<and> tour_done hs (nodes(hs ! Suc k := st')))"
proof -
  let ?h = "hs ! Suc k" and ?st = "nodes (hs ! Suc k)"
  have t: "touring (set hs) ?st" "if_last_node ?st \<noteq> 1" using assms(5) by (auto simp: on_tour_def)
  have H: "set hs \<subseteq> {1..10}" "hs ! k \<in> set hs" using assms(1,4) by (auto simp: tour_ok_def)
  have tk: "set (take (Suc (Suc k)) hs) = insert ?h (set (take (Suc k) hs))" using assms(4) by (auto simp: take_Suc_conv_app_nth)
  have ok: "tour_ok (at_node cfg ?h) addr hs" "receiveRTpacket (at_node cfg ?h) old raw = Some p" "sane ?st" "0 < Suc k"
    using assms(1,2) t(1) by (simp_all add: touring_def)
  obtain st' fx st1 where f: "tour_packet (at_node cfg ?h) old junk raw ?st = Some (st', fx)"
    "Suc (Suc k) = length hs \<longrightarrow> rt_sends fx = [] \<and> if_last_node st' = 1"
    "Suc (Suc k) < length hs \<longrightarrow> rt_sends fx = [the (sendRTpacket cfg junk p)]"
    and n: "note_previous (hs ! k) ?st = Some st1"
    and st': "st' = st1\<lparr>if_last_node := (if Suc (Suc k) = length hs then 1 else if_last_node st1), ifVisit := (if ifVisit ?st = 0 then 1 else ifVisit st1)\<rparr>"
    using tour_packet_forwards [OF ok(1,2) assms(3) ok(4) assms(4) ok(3), of junk] by auto
  note p = note_previous_touring [OF t(1) H(2,1) n] and q = note_previous_keeps [OF n]
  have v: "ifVisit st' = 1" using st' q assms(5) by (auto simp: on_tour_def)
  have tr: "touring (set hs) st'" "ping_set st' \<noteq> {}" using p unfolding st' by auto
  have "on_tour hs (Suc k) (nodes(?h := st'))" if "Suc (Suc k) < length hs"
    using assms(5) tr(1) v tk st' q t(2) that by (auto simp: on_tour_def)
  moreover have "tour_done hs (nodes(?h := st'))" if l: "Suc (Suc k) = length hs"
  proof -
    have "hs \<noteq> []" "length hs - 1 = Suc k" using l by auto
    then have "last hs = ?h" by (simp add: last_conv_nth)
    moreover have "set hs = insert ?h (set (take (Suc k) hs))" using l tk by simp
    ultimately show ?thesis using assms(5) tr v st' l by (auto simp: on_tour_def tour_done_def)
  qed
  ultimately show ?thesis using f by blast
qed

lemma tour_run_from:
  assumes "tour_ok cfg addr hs" "\<forall>h \<in> set hs. node_at (addr h) = h" "\<forall>i. 20 \<le> length (fst (env i))" "\<forall>i nodes h. more_pings (nodes h) (other i nodes h)"
  shows "tour_payload hs k p \<Longrightarrow> Suc k < length hs \<Longrightarrow> length hs - Suc k \<le> fuel \<Longrightarrow> on_tour hs k nodes \<Longrightarrow>
    \<exists>raw nodes'. sendRTpacket cfg junk p = Some (addr (hs ! Suc k), raw)
      \<and> tour_run cfg node_at other env fuel nodes (addr (hs ! Suc k), raw) = Some (nodes', last hs) \<and> tour_done hs nodes'"
proof (induction fuel arbitrary: k p junk nodes)
  case (Suc fuel)
  obtain old j where e: "env fuel = (old, j)" by (cases "env fuel")
  have ok: "20 \<le> length old" using assms(3) e by (metis fst_conv)
  obtain raw q where s: "sendRTpacket cfg junk p = Some (addr (hs ! Suc k), raw)" and r: "receiveRTpacket cfg old raw = Some q"
    and q: "tour_payload hs (Suc k) q"
    using send_receive [OF assms(1) Suc.prems(1,2) ok] by blast
  let ?h = "hs ! Suc k" and ?nodes = "other fuel nodes"
  have h: "node_at (addr ?h) = ?h" using assms(2) Suc.prems(2) by simp
  have "on_tour hs k ?nodes" by (rule on_tour_pings [OF Suc.prems(4)]) (simp add: assms(4))
  from node_takes_packet [OF assms(1) r q Suc.prems(2) this, of j]
  obtain st' fx where f: "tour_packet (at_node cfg ?h) old j raw (?nodes ?h) = Some (st', fx)"
    "Suc (Suc k) < length hs \<Longrightarrow> rt_sends fx = [the (sendRTpacket cfg j q)] \<and> on_tour hs (Suc k) (?nodes(?h := st'))"
    "Suc (Suc k) = length hs \<Longrightarrow> rt_sends fx = [] \<and> tour_done hs (?nodes(?h := st'))"
    by blast
  show ?case
  proof (cases "Suc (Suc k) = length hs")
    case True
    then have "last hs = ?h" using Suc.prems(2) True by (metis diff_Suc_1 last_conv_nth length_greater_0_conv less_zeroE list.size(3))
    then show ?thesis using s e f(1,3) h True by (simp add: Let_def)
  next
    case False
    then have lt: "Suc (Suc k) < length hs" using Suc.prems(2) by simp
    have "length hs - Suc (Suc k) \<le> fuel" using Suc.prems(3) by linarith
    from Suc.IH [OF q lt this, of "?nodes(?h := st')" j] f(2) [OF lt] obtain raw' nodes' where
      "sendRTpacket cfg j q = Some (addr (hs ! Suc (Suc k)), raw')"
      "tour_run cfg node_at other env fuel (?nodes(?h := st')) (addr (hs ! Suc (Suc k)), raw') = Some (nodes', last hs)" "tour_done hs nodes'"
      by blast
    then show ?thesis using s e f(1) f(2) [OF lt] h by (simp add: Let_def)
  qed
qed simp

section \<open>The group\<close>

text \<open>
  A member waits for messages of the group, with their times, and for its alarm: \<^verbatim>\<open>recvfrom_alarm\<close> ends the process.  The result is
  what it sends to the group and the time it exits.
\<close>

fun alarm_set :: "tour_effect list \<Rightarrow> nat option" where
  "alarm_set [] = None"
| "alarm_set (f # fx) = (case f of SetAlarm n \<Rightarrow> Some n | _ \<Rightarrow> alarm_set fx)"

fun group_wait :: "tour_config \<Rightarrow> nat option \<Rightarrow> (nat \<times> string) list \<Rightarrow> tour \<Rightarrow> (string list \<times> nat option) option" where
  "group_wait cfg deadline [] st = Some ([], deadline)"
| "group_wait cfg deadline ((t, line) # es) st =
     (if (case deadline of None \<Rightarrow> False | Some d \<Rightarrow> d \<le> t) then Some ([], deadline)
      else do {
        (st', fx) \<leftarrow> recv_multicast cfg line st;
        (ms, exit_time) \<leftarrow> group_wait cfg (case alarm_set fx of None \<Rightarrow> deadline | Some n \<Rightarrow> Some (t + n)) es st';
        Some (multicasts fx @ ms, exit_time)
      })"

lemma recv_group:
  assumes "length host < 40" "length (localHost d) < 40"
  shows "recv_multicast d (end_message host) s = Some (s\<lparr>ping_switch := -1\<rparr>, [SendMulticast (member_message (localHost d))])"
    "recv_multicast d (member_message host) s = Some (s\<lparr>ping_switch := -1\<rparr>, [SetAlarm 5])"
proof -
  have "length (end_message host) < 200" "6 \<le> length (end_message host)" "length (member_message host) < 200" "6 \<le> length (member_message host)"
    using assms(1) by (simp_all add: end_message_def member_message_def)
  then show "recv_multicast d (end_message host) s = Some (s\<lparr>ping_switch := -1\<rparr>, [SendMulticast (member_message (localHost d))])"
    "recv_multicast d (member_message host) s = Some (s\<lparr>ping_switch := -1\<rparr>, [SetAlarm 5])"
    using assms(2) by (simp_all add: recv_multicast_def message_chars MAXLINE_def)
qed

lemma members_exit:
  assumes "length (localHost cfg) < 40"
  shows "sorted (map fst as) \<Longrightarrow> \<forall>a \<in> set as. \<exists>host. length host < 40 \<and> snd a = member_message host \<Longrightarrow>
    (case deadline of None \<Rightarrow> as \<noteq> [] | Some d \<Rightarrow> d \<le> bound) \<Longrightarrow> \<forall>a \<in> set as. fst a + 5 \<le> bound \<Longrightarrow>
    \<exists>d. group_wait cfg deadline as st = Some ([], Some d) \<and> d \<le> bound"
proof (induction as arbitrary: deadline st)
  case Nil
  then show ?case by (cases deadline) auto
next
  case (Cons a as)
  obtain t host where a: "a = (t, member_message host)" "length host < 40" using Cons.prems(2) by (cases a) auto
  show ?case
  proof (cases "case deadline of None \<Rightarrow> False | Some d \<Rightarrow> d \<le> t")
    case True
    then show ?thesis using a Cons.prems(3,4) by (cases deadline) auto
  next
    case False
    obtain d where "group_wait cfg (Some (t + 5)) as (st\<lparr>ping_switch := -1\<rparr>) = Some ([], Some d)" "d \<le> bound"
      using Cons.IH [of "Some (t + 5)" "st\<lparr>ping_switch := -1\<rparr>"] Cons.prems(1,2,4) a(1) by auto
    then show ?thesis using a False recv_group(2) [OF a(2) assms] by (simp add: multicasts_def)
  qed
qed

lemma vm_full_short: "1 \<le> h \<Longrightarrow> h \<le> 10 \<Longrightarrow> length (vm_full h) < 40"
proof -
  assume "1 \<le> h" "h \<le> 10"
  then have "0 \<le> h" "nat h < 10 ^ 2" by simp_all
  then have "length (dec h) \<le> 2" using dec_nat_length [of "nat h" 2] by (simp add: dec_def)
  then show ?thesis by (simp add: vm_full_def)
qed

section \<open>Property\<close>

text \<open>
  C15 (a tour comes to its end).  The first node of a tour over at most 66 nodes has the list of its nodes (how \<^verbatim>\<open>main\<close> gets it is undefined
  behaviour, see \<open>tour_start\<close>) and sends the first packet, and the processes of all nodes are new.  Whatever the nodes ping while the packet is on its way, it stops at the last node; then exactly the nodes
  of the tour have joined the group.  If the daemon of the last node has the addresses of the nodes, within five
  seconds of pings and answers, in whatever order these come, and one second more the last node announces the
  end.  Every member then sends its own message and exits at the latest five seconds after the last message of a member.
\<close>

theorem tour_completes:
  assumes "tour_ok cfg addr hs" and "length hs \<le> fuel"
    and "\<forall>h \<in> set hs. node_at (addr h) = h" and "\<forall>i. 20 \<le> length (fst (env i))" and "\<forall>i nodes h. more_pings (nodes h) (other i nodes h)"
    and "addrs_ok cfg" and "\<forall>n. peers_ok (es n)" and "knows cfg ast (set hs)"
    and "as \<noteq> []" and "sorted (map fst as)" and "\<forall>a \<in> set as. \<exists>h \<in> set hs. snd a = member_message (vm_full h)"
  shows "\<exists>dst raw nodes st'. tour_send (at_node cfg (hd hs)) junk (tour_list hs)
        = Started (tour_init\<lparr>ifVisit := 1\<rparr>) [JoinGroup ''234.245.209.121'' ''9821'', SendRT dst raw]
    \<and> tour_run cfg node_at other env fuel ((\<lambda>_. tour_init)(hd hs := tour_init\<lparr>ifVisit := 1\<rparr>)) (dst, raw) = Some (nodes, last hs)
    \<and> (\<forall>h. ifVisit (nodes h) = 1 \<longleftrightarrow> h \<in> set hs)
    \<and> quiet_seconds (at_node cfg (last hs)) es 6 ast (nodes (last hs)) = Some (st', end_message (vm_full (last hs)))
    \<and> (\<forall>h \<in> set hs. \<exists>d. group_wait (at_node cfg h) None ((t, end_message (vm_full (last hs))) # as) ((nodes(last hs := st')) h)
        = Some ([member_message (vm_full h)], Some d) \<and> d \<le> fst (last as) + 5)"
proof -
  let ?new = "(\<lambda>_. tour_init)(hd hs := tour_init\<lparr>ifVisit := 1\<rparr>)" and ?l = "at_node cfg (last hs)"
  have len: "2 \<le> length hs" and H: "set hs \<subseteq> {1..10}" using assms(1) by (auto simp: tour_ok_def)
  then have hs: "hs \<noteq> []" "Suc 0 < length hs" "length hs - Suc 0 \<le> fuel" "last hs \<in> set hs" using assms(2) by (auto intro: last_in_set)
  have "tour_ok (at_node cfg (hd hs)) addr hs" using assms(1) by simp
  from tour_starts [OF this, of junk]
  obtain p where p: "tour_payload hs 0 p" and start: "\<And>dst raw. sendRTpacket cfg junk p = Some (dst, raw) \<Longrightarrow>
      tour_send (at_node cfg (hd hs)) junk (tour_list hs)
      = Started (tour_init\<lparr>ifVisit := 1\<rparr>) [JoinGroup ''234.245.209.121'' ''9821'', SendRT dst raw]" by (auto simp del: split_paired_All split_paired_Ex)
  have "set (take (Suc 0) hs) = {hd hs}" using hs(1) by (cases hs) auto
  moreover have "if_last_node tour_init \<noteq> 1" "ifVisit tour_init = 0" by (simp_all add: tour_init_def)
  ultimately have "on_tour hs 0 ?new" by (auto simp: on_tour_def touring_init)
  from tour_run_from [OF assms(1,3,4,5) p hs(2,3) this, of junk]
  obtain raw nodes where s: "sendRTpacket cfg junk p = Some (addr (hs ! Suc 0), raw)"
    and r: "tour_run cfg node_at other env fuel ?new (addr (hs ! Suc 0), raw) = Some (nodes, last hs)" and d: "tour_done hs nodes" by blast
  let ?st = "nodes (last hs)"
  have t: "touring (set hs) ?st" "ping_set ?st \<noteq> {}" "if_last_node ?st = 1" and v: "\<And>h. ifVisit (nodes h) = 1 \<longleftrightarrow> h \<in> set hs"
    using d by (auto simp: tour_done_def)
  obtain sip where sip: "vm_addr ?l (localHost ?l) = Some sip" using assms(1) hs(4) by (auto simp: tour_ok_def)
  have "nat (previous_vmNum_static ?st) < length (ping_counter_array ?st)" using t(1,2) by (auto simp: touring_def ping_set_def sane_def)
  then have "0 \<le> ping_counter_array ?st ! nat (previous_vmNum_static ?st)" using t(1) by (simp add: touring_def)
  then obtain cs where q: "quiet_seconds ?l es 6 ast ?st = Some (?st\<lparr>ping_counter_array := cs, ping_switch := -1\<rparr>, end_message (vm_full (last hs)))"
    using seconds_to_end [OF assms(7) _ H _ sip t, of ast 5] assms(6,8) by (auto simp: addrs_ok_def knows_def simp del: quiet_seconds.simps)
  have "\<exists>d. group_wait (at_node cfg h) None ((t, end_message (vm_full (last hs))) # as) s
      = Some ([member_message (vm_full h)], Some d) \<and> d \<le> fst (last as) + 5" if h: "h \<in> set hs" for h s
  proof -
    have l: "length (vm_full x) < 40" if "x \<in> set hs" for x using that H by (intro vm_full_short) auto
    have "fst a \<le> fst (last as)" if "a \<in> set as" for a
      using that assms(10) by (cases as rule: rev_cases) (auto simp: sorted_append)
    moreover have "\<forall>a \<in> set as. \<exists>host. length host < 40 \<and> snd a = member_message host" using assms(11) l by blast
    ultimately have "\<exists>d. group_wait (at_node cfg h) None as (s\<lparr>ping_switch := -1\<rparr>) = Some ([], Some d) \<and> d \<le> fst (last as) + 5"
      using members_exit [of "at_node cfg h" as "fst (last as) + 5" None] assms(9,10) l h by simp
    then show ?thesis using recv_group(1) [of "vm_full (last hs)" "at_node cfg h" s] l h hs(4) by (auto simp: multicasts_def)
  qed
  then show ?thesis using start [OF s] r v q by blast
qed

definition lan_arp :: arp where
  "lan_arp = \<lparr>arpTable =
     [\<lparr>a_ipAddr = ip_ntop [130, 245, 156, 22], a_macAddr = [0, 12, 41, 2, 2, 3], sll_hatype = 1, sll_ifindex = 2, conn_fd = -1\<rparr>,
      \<lparr>a_ipAddr = ip_ntop [130, 245, 156, 21], a_macAddr = [0, 12, 41, 1, 1, 1], sll_hatype = 1, sll_ifindex = 2, conn_fd = -1\<rparr>]\<rparr>"

definition lan_pings :: ping_env where
  "lan_pings = \<lparr>e_junk = (\<lambda>i. of_nat i), e_ifs = [], e_fd = 5, e_cksum = rfc1071, e_mac = [0, 12, 41, 1, 1, 1], e_buf = replicate 6 9, e_time = (1000, 5),
     e_peer = (\<lambda>_. (replicate 8 0, [1, 1], [2, 2])), e_arrival = rev\<rparr>"

lemma lan_facts:
  "tour_ok tour_vm1 (\<lambda>h. [130, 245, 156, word_of_int (20 + h)]) [1, 2, 1]" "addrs_ok tour_vm1" "peers_ok lan_pings"
  "knows tour_vm1 lan_arp (set [1, 2, 1])"
proof -
  have v: "vm_full 1 = ''vm1''" "vm_full 2 = ''vm2''" by code_simp+
  have a: "lan_addr ''vm1'' = Some [130, 245, 156, 21]" "lan_addr ''vm2'' = Some [130, 245, 156, 22]" by code_simp+
  show "tour_ok tour_vm1 (\<lambda>h. [130, 245, 156, word_of_int (20 + h)]) [1, 2, 1]" by (simp add: tour_ok_def tour_vm1_def v a)
  show "addrs_ok tour_vm1" by (auto simp: addrs_ok_def tour_vm1_def lan_addr_def split: if_splits)
  show "peers_ok lan_pings" by (simp add: peers_ok_def lan_pings_def)
  have "indexOfIP (ip_ntop [130, 245, 156, 21]) (arpTable lan_arp) = Some 1" "indexOfIP (ip_ntop [130, 245, 156, 22]) (arpTable lan_arp) = Some 0"
    "checkAddressNotEmpty [0, 12, 41, 2, 2, 3]" "checkAddressNotEmpty [0, 12, 41, 1, 1, 1]" by code_simp+
  then show "knows tour_vm1 lan_arp (set [1, 2, 1])"
    by (simp add: knows_def tour_vm1_def v a) (simp add: lan_arp_def)
qed

theorem tour_completes_witness:
  "\<exists>dst raw nodes st'. tour_send (at_node tour_vm1 1) (\<lambda>i. of_nat (i * i)) (tour_list [1, 2, 1])
        = Started (tour_init\<lparr>ifVisit := 1\<rparr>) [JoinGroup ''234.245.209.121'' ''9821'', SendRT dst raw]
    \<and> tour_run tour_vm1 (\<lambda>a. uint (a ! 3) - 20) (\<lambda>_ nodes. nodes) (\<lambda>_. (replicate 1408 9, \<lambda>i. of_nat i)) 3
        ((\<lambda>_. tour_init)(1 := tour_init\<lparr>ifVisit := 1\<rparr>)) (dst, raw) = Some (nodes, 1)
    \<and> (\<forall>h. ifVisit (nodes h) = 1 \<longleftrightarrow> h = 1 \<or> h = 2)
    \<and> quiet_seconds (at_node tour_vm1 1) (\<lambda>_. lan_pings) 6 lan_arp (nodes 1) = Some (st', end_message ''vm1'')
    \<and> (\<exists>d. group_wait (at_node tour_vm1 2) None [(8, end_message ''vm1''), (9, member_message ''vm1''), (9, member_message ''vm2'')] (nodes 2)
        = Some ([member_message ''vm2''], Some d) \<and> d \<le> 14)"
proof -
  have v: "vm_full 1 = ''vm1''" "vm_full 2 = ''vm2''" by code_simp+
  have m: "\<forall>i nodes h. more_pings ((nodes :: int \<Rightarrow> tour) h) ((\<lambda>_ nodes. nodes) (i :: nat) nodes h)"
    by (simp add: more_pings_refl)
  have p: "\<forall>n :: nat. peers_ok ((\<lambda>_. lan_pings) n)" using lan_facts(3) by simp
  show ?thesis
    using tour_completes [OF lan_facts(1) _ _ _ m lan_facts(2) p lan_facts(4),
        where fuel = 3 and node_at = "\<lambda>a. uint (a ! 3) - 20" and env = "\<lambda>_. (replicate 1408 9, \<lambda>i. of_nat i)"
          and as = "[(9, member_message ''vm1''), (9, member_message ''vm2'')]" and junk = "\<lambda>i. of_nat (i * i)" and t = 8]
    by (simp add: v del: quiet_seconds.simps tour_run.simps group_wait.simps) blast
qed

end
