(* ===== verification/Tcp_Echo.thy ===== *)
theory Tcp_Echo
  imports C_String
begin

text \<open>
  The echo and time services over TCP (directory \<^verbatim>\<open>tcp-socket-server\<close>): the two threads of the server, the two child
  programs of the client, and the parent, which learns through a pipe what its child has received and in what
  way it has ended.  The results of the system calls are events.  A buffer of \<^verbatim>\<open>MAXLINE\<close> characters is a list
  of that length; \<open>None\<close> is an access behind its end.
\<close>

section \<open>Server\<close>

datatype read_result = Data string | Eof | Interrupted | Error

datatype thread_end = Running | Pthread_Exit | Process_Exit | Returned

text \<open>
  \<^verbatim>\<open>echoRequest\<close>: what is written back, and how the thread ends.  Each result of \<^verbatim>\<open>read\<close> comes with whether the \<^verbatim>\<open>Writen\<close> of the
  bytes succeeds: if not, \<^verbatim>\<open>err_sys\<close> ends the process (\<^verbatim>\<open>SIGPIPE\<close> is caught), as it does after an error of \<^verbatim>\<open>read\<close>.  At
  the end of the stream it calls \<^verbatim>\<open>pthread_exit\<close>.  The \<^verbatim>\<open>memset\<close> before each read measures the array with \<^verbatim>\<open>strlen\<close>, at first
  with whatever it holds, and \<^verbatim>\<open>printf\<close> prints it: both need a zero in the array, that is, one at the start and reads of less than \<^verbatim>\<open>MAXLINE\<close> bytes.
\<close>

fun echoRequest :: "(read_result \<times> bool) list \<Rightarrow> string list \<times> thread_end" where
  "echoRequest [] = ([], Running)"
| "echoRequest ((Data buf, ok) # rs) =
     (if ok then (let (out, e) = echoRequest rs in (buf # out, e)) else ([], Process_Exit))"
| "echoRequest ((Eof, ok) # rs) = ([], Pthread_Exit)"
| "echoRequest ((Interrupted, ok) # rs) = echoRequest rs"
| "echoRequest ((Error, ok) # rs) = ([], Process_Exit)"

text \<open>\<^verbatim>\<open>timeRequest\<close>: five quiet seconds with the result of the write, or something to read.\<close>

datatype time_event = Quiet string bool | Readable read_result

definition time_line :: "string \<Rightarrow> string" where
  "time_line ctime = take 24 ctime @ [CHR 0x0D, CHR 0x0A]"

fun timeRequest :: "time_event list \<Rightarrow> string list \<times> thread_end" where
  "timeRequest [] = ([], Running)"
| "timeRequest (Quiet ctime ok # es) =
     (if ok then (let (out, e) = timeRequest es in (time_line ctime # out, e)) else ([], Pthread_Exit))"
| "timeRequest (Readable Eof # es) = ([], Pthread_Exit)"
| "timeRequest (Readable r # es) = timeRequest es"

section \<open>Echo child\<close>

definition termInfo :: string where "termInfo = ''server process crash'' @ [CHR 0x0A]"
definition termInfo3 :: string where "termInfo3 = ''user enter ctrl D (EOF)'' @ [CHR 0x0A]"
definition termInfo4 :: string where "termInfo4 = ''cannot connect to server'' @ [CHR 0x0A]"

text \<open>\<^verbatim>\<open>memset(buf, 0, strlen(buf))\<close> and a read into the buffer.\<close>

definition clear_str :: "string \<Rightarrow> string" where
  "clear_str buf = replicate (length (cstr buf)) nul @ drop (length (cstr buf)) buf"

definition fill :: "string \<Rightarrow> string \<Rightarrow> string" where
  "fill bytes buf = bytes @ drop (length bytes) buf"

datatype echo_event = FromSock read_result | FromStdin read_result

datatype echo_effect = ToPipe string | ToSock string | ShutdownWr

datatype child_end = Child_Running | Child_Returned | Child_Quit

text \<open>One descriptor that is readable: the buffer afterwards, what is done, and whether the program goes on.\<close>

fun str_cli_echo :: "string \<Rightarrow> echo_event \<Rightarrow> (string \<times> echo_effect list \<times> child_end) option" where
  "str_cli_echo buf (FromSock (Data bytes)) =
     (let buf1 = fill bytes (clear_str buf)
      in if length bytes < length buf1 then Some (buf1, [ToPipe (take (length bytes + 1) buf1)], Child_Running) else None)"
| "str_cli_echo buf (FromSock Eof) = Some (clear_str buf, [ToPipe (termInfo @ [nul])], Child_Quit)"
| "str_cli_echo buf (FromStdin (Data bytes)) = Some (fill bytes buf, [ToSock bytes], Child_Running)"
| "str_cli_echo buf (FromStdin Eof) = Some (buf, [ToPipe (termInfo3 @ [nul]), ShutdownWr], Child_Returned)"
| "str_cli_echo buf _ = Some (buf, [], Child_Quit)"

text \<open>The time child: a line from the server (\<^verbatim>\<open>Readline\<close>) goes to the pipe with its terminating zero.\<close>

fun str_cli_time1 :: "read_result \<Rightarrow> echo_effect list \<times> child_end" where
  "str_cli_time1 (Data recvline) = ([ToPipe (cstr recvline @ [nul])], Child_Running)"
| "str_cli_time1 Eof = ([ToPipe (termInfo @ [nul])], Child_Quit)"
| "str_cli_time1 _ = ([], Child_Quit)"

section \<open>Parent\<close>

datatype parent_out = Shows string | Crash_Exit | Main_Menu | Child_Gone

text \<open>The loop of the parent for the echo child: one read from the pipe.\<close>

definition parent_read :: "string \<Rightarrow> string \<Rightarrow> string \<times> parent_out" where
  "parent_read buf bytes =
     (if bytes = [] then (buf, Child_Gone)
      else let buf1 = fill bytes buf; text = cstr buf1
           in (buf1, if text = termInfo then Crash_Exit else if text = termInfo4 then Main_Menu else Shows text))"

section \<open>The services together\<close>

text \<open>
  A line that the user types goes through the child to the server, back to the child, and through the pipe to
  the parent; here each write is read as a whole.
\<close>

definition echo_line :: "string \<Rightarrow> string \<Rightarrow> string \<Rightarrow> (string \<times> string \<times> parent_out) option" where
  "echo_line cbuf pbuf line =
     (case str_cli_echo cbuf (FromStdin (Data line)) of
        Some (cbuf1, [ToSock sent], _) \<Rightarrow>
          (case echoRequest [(Data sent, True)] of
             ([back], _) \<Rightarrow>
               (case str_cli_echo cbuf1 (FromSock (Data back)) of
                  Some (cbuf2, [ToPipe msg], _) \<Rightarrow> (case parent_read pbuf msg of (pbuf1, o') \<Rightarrow> Some (cbuf2, pbuf1, o'))
                | _ \<Rightarrow> None)
           | _ \<Rightarrow> None)
      | _ \<Rightarrow> None)"

fun echo_session :: "string \<Rightarrow> string \<Rightarrow> string list \<Rightarrow> parent_out list option" where
  "echo_session cbuf pbuf [] = Some []"
| "echo_session cbuf pbuf (l # ls) =
     (case echo_line cbuf pbuf l of None \<Rightarrow> None
      | Some (cbuf1, pbuf1, Shows t) \<Rightarrow> map_option (Cons (Shows t)) (echo_session cbuf1 pbuf1 ls)
      | Some (cbuf1, pbuf1, o') \<Rightarrow> Some [o'])"

section \<open>Properties\<close>

text \<open>A buffer that holds a string and zeros behind it.\<close>

definition zero_ended :: "string \<Rightarrow> bool" where
  "zero_ended buf \<longleftrightarrow> (\<exists>s k. buf = s @ replicate (Suc k) nul \<and> nul \<notin> set s)"

definition plain_line :: "string \<Rightarrow> bool" where
  "plain_line l \<longleftrightarrow> l \<noteq> [] \<and> nul \<notin> set l \<and> length l < MAXLINE"

lemma cstr_zero: "nul \<notin> set s \<Longrightarrow> cstr (s @ nul # rest) = s"
  by (simp add: cstr_append) (simp add: cstr_def)

lemma zero_ended_clear:
  assumes "zero_ended buf"
  shows "clear_str buf = replicate (length buf) nul"
proof -
  obtain s k where b: "buf = s @ replicate (Suc k) nul" "nul \<notin> set s" using assms by (auto simp: zero_ended_def)
  then have "cstr buf = s" by (simp add: cstr_zero)
  then show ?thesis by (simp add: clear_str_def b(1) replicate_add [symmetric] del: replicate_Suc)
qed

lemma fill_zeros: "length l < n \<Longrightarrow> fill l (replicate n nul) = l @ nul # replicate (n - length l - 1) nul"
  by (cases "n - length l") (simp_all add: fill_def)

lemma zero_ended_fill:
  assumes "zero_ended buf" "nul \<notin> set l" "length l < length buf"
  shows "zero_ended (fill l buf)"
proof -
  obtain s k where b: "buf = s @ replicate (Suc k) nul" "nul \<notin> set s" using assms(1) by (auto simp: zero_ended_def)
  show ?thesis
  proof (cases "length l \<le> length s")
    case True
    then have "fill l buf = (l @ drop (length l) s) @ replicate (Suc k) nul" by (simp add: fill_def b(1))
    moreover have "nul \<notin> set (l @ drop (length l) s)" using assms(2) b(2) by (auto dest: in_set_dropD)
    ultimately show ?thesis unfolding zero_ended_def by blast
  next
    case False
    then obtain m where "Suc k - (length l - length s) = Suc m" using assms(3) b(1) by (cases "Suc k - (length l - length s)") auto
    then have "fill l buf = l @ replicate (Suc m) nul" using False by (simp add: fill_def b(1) del: replicate_Suc)
    then show ?thesis using assms(2) unfolding zero_ended_def by blast
  qed
qed

text \<open>The child, given back the line that it has just sent.\<close>

lemma child_echoes:
  assumes "zero_ended cbuf" "length cbuf = MAXLINE" "plain_line l"
  shows "\<exists>c. zero_ended c \<and> length c = MAXLINE \<and> str_cli_echo (fill l cbuf) (FromSock (Data l)) = Some (c, [ToPipe (l @ [nul])], Child_Running)"
proof -
  have l: "l \<noteq> []" "nul \<notin> set l" "length l < MAXLINE" using assms(3) by (simp_all add: plain_line_def)
  have lf: "length (fill l cbuf) = MAXLINE" using assms(2) l(3) by (simp add: fill_def)
  let ?c = "l @ nul # replicate (MAXLINE - length l - 1) nul"
  have c: "fill l (clear_str (fill l cbuf)) = ?c"
    using zero_ended_clear [OF zero_ended_fill [OF assms(1) l(2)]] fill_zeros [OF l(3)] assms(2) l(3) lf by simp
  have "replicate (Suc (MAXLINE - length l - 1)) nul = nul # replicate (MAXLINE - length l - 1) nul" by simp
  then have "zero_ended ?c" unfolding zero_ended_def using l(2) by metis
  moreover have "str_cli_echo (fill l cbuf) (FromSock (Data l)) = Some (?c, [ToPipe (l @ [nul])], Child_Running)"
    using c l(3) by (simp add: Let_def)
  moreover have "length ?c = MAXLINE" using l(3) by simp
  ultimately show ?thesis by blast
qed

lemma echo_line_out:
  assumes "zero_ended cbuf" "length cbuf = MAXLINE" "length pbuf = MAXLINE" "plain_line l"
  shows "\<exists>cbuf' pbuf'. zero_ended cbuf' \<and> length cbuf' = MAXLINE \<and> length pbuf' = MAXLINE \<and>
    echo_line cbuf pbuf l = Some (cbuf', pbuf', if l = termInfo then Crash_Exit else if l = termInfo4 then Main_Menu else Shows l)"
proof -
  obtain c where c: "zero_ended c" "length c = MAXLINE"
    "str_cli_echo (fill l cbuf) (FromSock (Data l)) = Some (c, [ToPipe (l @ [nul])], Child_Running)"
    using child_echoes [OF assms(1,2,4)] by blast
  let ?p = "fill (l @ [nul]) pbuf"
  have p: "cstr ?p = l" using assms(4) cstr_zero [of l "drop (Suc (length l)) pbuf"] by (simp add: fill_def plain_line_def)
  have "length ?p = MAXLINE" using assms(3,4) by (simp add: fill_def plain_line_def)
  moreover have "echo_line cbuf pbuf l = Some (c, ?p, if l = termInfo then Crash_Exit else if l = termInfo4 then Main_Menu else Shows l)"
    using c(3) p by (simp add: echo_line_def parent_read_def Let_def del: str_cli_echo.simps(1))
  ultimately show ?thesis using c(1,2) by blast
qed

fun shown :: "string list \<Rightarrow> parent_out list" where
  "shown [] = []"
| "shown (l # ls) = (if l = termInfo then [Crash_Exit] else if l = termInfo4 then [Main_Menu] else Shows l # shown ls)"

lemma shown_plain: "termInfo \<notin> set ls \<Longrightarrow> termInfo4 \<notin> set ls \<Longrightarrow> shown ls = map Shows ls"
  by (induction ls) auto

lemma shown_crash: "termInfo4 \<notin> set ls \<Longrightarrow> termInfo \<in> set ls \<Longrightarrow> last (shown ls) = Crash_Exit"
proof (induction ls)
  case (Cons l ls)
  have "shown ls \<noteq> []" if "ls \<noteq> []" using that by (cases ls) simp_all
  moreover have "ls \<noteq> []" "last (shown ls) = Crash_Exit" if "l \<noteq> termInfo" using Cons that by auto
  ultimately show ?case using Cons.prems(1) by (cases "l = termInfo") auto
qed simp

text \<open>
  An echo session.  The parent shows the lines that the user typed, each once and in order, provided each message
  is read as a whole.  The same channel carries the news of the child: a user who types the line that
  announces a crash of the server makes the parent exit, although the server runs.
\<close>

theorem echo_session_shows:
  assumes "zero_ended cbuf" and "length cbuf = MAXLINE" and "length pbuf = MAXLINE" and "\<forall>l \<in> set lines. plain_line l"
    and "termInfo4 \<notin> set lines"
  shows "(termInfo \<notin> set lines \<longrightarrow> echo_session cbuf pbuf lines = Some (map Shows lines))
    \<and> (termInfo \<in> set lines \<longrightarrow> (\<exists>os. echo_session cbuf pbuf lines = Some os \<and> last os = Crash_Exit))"
proof -
  have "echo_session cbuf pbuf lines = Some (shown lines)"
    using assms(1-4)
  proof (induction lines arbitrary: cbuf pbuf)
    case (Cons l ls)
    then obtain cbuf' pbuf' where c: "zero_ended cbuf'" "length cbuf' = MAXLINE" "length pbuf' = MAXLINE"
      "echo_line cbuf pbuf l = Some (cbuf', pbuf', if l = termInfo then Crash_Exit else if l = termInfo4 then Main_Menu else Shows l)"
      using echo_line_out [OF Cons.prems(1-3), of l] by auto
    then show ?case using Cons.IH [OF c(1-3)] Cons.prems(4) by auto
  qed simp
  then show ?thesis using shown_plain [of lines] shown_crash [of lines] assms(5) by auto
qed

theorem echo_session_shows_witness:
  "\<exists>os. echo_session (replicate MAXLINE nul) (replicate MAXLINE nul) [''hello'', termInfo, ''more''] = Some os \<and> last os = Crash_Exit"
proof -
  have "MAXLINE = Suc 4095" by (simp add: MAXLINE_def)
  then have z: "zero_ended (replicate MAXLINE nul)" unfolding zero_ended_def by (metis append_Nil empty_iff list.set(1))
  have p: "\<forall>l \<in> set [''hello'', termInfo, ''more'']. plain_line l" by (simp add: plain_line_def termInfo_def MAXLINE_def nul_def)
  have "termInfo4 \<notin> set [''hello'', termInfo, ''more'']" by (simp add: termInfo_def termInfo4_def)
  then show ?thesis using echo_session_shows [OF z _ _ p, of "replicate MAXLINE nul"] by simp
qed

lemma parent_shows:
  assumes "nul \<notin> set l" "l \<noteq> termInfo" "l \<noteq> termInfo4"
  shows "snd (parent_read pbuf (l @ [nul])) = Shows l"
  using assms cstr_zero [of l "drop (Suc (length l)) pbuf"] by (simp add: parent_read_def Let_def fill_def)

lemma time_line_plain: "nul \<notin> set t \<Longrightarrow> nul \<notin> set (time_line t) \<and> time_line t \<noteq> termInfo \<and> time_line t \<noteq> termInfo4"
proof -
  assume "nul \<notin> set t"
  then have n: "nul \<notin> set (time_line t)" by (auto simp: time_line_def nul_def dest: in_set_takeD)
  have "time_line t ! (length (time_line t) - 2) = CHR 0x0D" by (simp add: time_line_def nth_append)
  then have "time_line t \<noteq> termInfo" "time_line t \<noteq> termInfo4" by (auto simp: termInfo_def termInfo4_def)
  with n show ?thesis by blast
qed

lemma cstr_plain: "nul \<notin> set l \<Longrightarrow> cstr l = l"
  using cstr_append [of l "[]"] by (simp add: cstr_def [of "[]"])

text \<open>
  The time service.  The time thread writes one line for every five quiet seconds, the time child passes each line
  on, and the parent shows them; the echo thread writes back exactly what it read.  At the end of the stream,
  or when a write fails, the threads end by \<^verbatim>\<open>pthread_exit\<close> inside the request function, not by the return after
  which the connection would be closed.
\<close>

theorem time_service:
  assumes "\<forall>t \<in> set ticks. nul \<notin> set t"
  shows "timeRequest (map (\<lambda>t. Quiet t True) ticks @ Readable Eof # es) = (map time_line ticks, Pthread_Exit)
    \<and> timeRequest (map (\<lambda>t. Quiet t True) ticks @ Quiet t False # es) = (map time_line ticks, Pthread_Exit)
    \<and> (\<forall>l \<in> set (map time_line ticks). \<exists>msg. str_cli_time1 (Data l) = ([ToPipe msg], Child_Running)
          \<and> snd (parent_read pbuf msg) = Shows l)
    \<and> echoRequest (map (\<lambda>b. (Data b, True)) bufs @ (Eof, ok) # rs) = (bufs, Pthread_Exit)"
proof (intro conjI ballI)
  show "echoRequest (map (\<lambda>b. (Data b, True)) bufs @ (Eof, ok) # rs) = (bufs, Pthread_Exit)" by (induction bufs) simp_all
  show "timeRequest (map (\<lambda>t. Quiet t True) ticks @ Readable Eof # es) = (map time_line ticks, Pthread_Exit)"
    by (induction ticks) simp_all
  show "timeRequest (map (\<lambda>t. Quiet t True) ticks @ Quiet t False # es) = (map time_line ticks, Pthread_Exit)"
    by (induction ticks) simp_all
  fix l assume "l \<in> set (map time_line ticks)"
  then have n: "nul \<notin> set l" "l \<noteq> termInfo" "l \<noteq> termInfo4" using assms time_line_plain by auto
  then have "snd (parent_read pbuf (cstr l @ [nul])) = Shows l" using parent_shows cstr_plain by simp
  then show "\<exists>msg. str_cli_time1 (Data l) = ([ToPipe msg], Child_Running) \<and> snd (parent_read pbuf msg) = Shows l" by simp
qed

theorem time_service_witness:
  "timeRequest [Quiet ''Wed Jun 30 21:49:08 1993'' True, Readable Eof] = ([''Wed Jun 30 21:49:08 1993'' @ [CHR 0x0D, CHR 0x0A]], Pthread_Exit)"
  using time_service [of "[''Wed Jun 30 21:49:08 1993'']" "[]" "[]"] by (simp add: nul_def time_line_def)

end
