(* ===== verification/Tcp_Main.thy ===== *)
theory Tcp_Main
  imports Tcp_Echo Subnet
begin

text \<open>
  The programs around the echo and time services (directory \<^verbatim>\<open>tcp-socket-server\<close>): how the client finds the address of the
  server, its menu and the loops in which it waits for its child, the two child programs as a whole, and the loop of the
  server that accepts connections for both services.  The resolver is a parameter.
\<close>

section \<open>The address\<close>

text \<open>
  The argument of the client; \<open>byaddr\<close> and \<open>byname\<close> give the addresses of the host entry.  The first branch does not look at
  a failure of \<^verbatim>\<open>gethostbyaddr\<close>; the last address wins, and without one the pointer is unset.
\<close>

datatype target = Address string | Err_Quit | Null_Pointer | Unset_Pointer

definition target_of :: "string list \<Rightarrow> target" where
  "target_of addrs = (if addrs = [] then Unset_Pointer else Address (last addrs))"

definition server_target :: "(byte list \<Rightarrow> string list option) \<Rightarrow> (string \<Rightarrow> string list option) \<Rightarrow> string \<Rightarrow> target" where
  "server_target byaddr byname arg =
     (case inet_pton arg of
        Some inetaddr \<Rightarrow> (case byaddr inetaddr of None \<Rightarrow> Null_Pointer | Some addrs \<Rightarrow> target_of addrs)
      | None \<Rightarrow> (case byname arg of None \<Rightarrow> Err_Quit | Some addrs \<Rightarrow> target_of addrs))"

section \<open>The children\<close>

text \<open>
  \<^verbatim>\<open>main\<close> of \<^verbatim>\<open>echo_cli.c\<close> and \<^verbatim>\<open>time_cli.c\<close>: what goes to the pipe and to the server, and how the program ends; \<open>None\<close> is an
  access behind the buffer.
\<close>

fun echo_child_loop :: "string \<Rightarrow> echo_event list \<Rightarrow> (echo_effect list \<times> child_end) option" where
  "echo_child_loop buf [] = Some ([], Child_Running)"
| "echo_child_loop buf (ev # evs) =
     (case str_cli_echo buf ev of
        None \<Rightarrow> None
      | Some (buf', effs, Child_Running) \<Rightarrow> map_option (\<lambda>(effs', e). (effs @ effs', e)) (echo_child_loop buf' evs)
      | Some (buf', effs, e) \<Rightarrow> Some (effs, e))"

definition echo_child :: "bool \<Rightarrow> string \<Rightarrow> echo_event list \<Rightarrow> (echo_effect list \<times> child_end) option" where
  "echo_child connected buf evs = (if connected then echo_child_loop buf evs else Some ([ToPipe (termInfo4 @ [nul])], Child_Quit))"

fun time_child_loop :: "read_result list \<Rightarrow> echo_effect list \<times> child_end" where
  "time_child_loop [] = ([], Child_Running)"
| "time_child_loop (r # rs) =
     (case str_cli_time1 r of
        (effs, Child_Running) \<Rightarrow> (let (effs', e) = time_child_loop rs in (effs @ effs', e))
      | (effs, e) \<Rightarrow> (effs, e))"

definition time_child :: "bool \<Rightarrow> read_result list \<Rightarrow> echo_effect list \<times> child_end" where
  "time_child connected rs = (if connected then time_child_loop rs else ([ToPipe (termInfo4 @ [nul])], Child_Quit))"

section \<open>The menu\<close>

datatype service = Echo | Time | Quit | No_Service

definition tolower :: "char \<Rightarrow> char" where
  "tolower c = (let n = (of_char c :: nat) in if 65 \<le> n \<and> n \<le> 90 then char_of (n + 32) else c)"

definition strcasecmp_eq :: "string \<Rightarrow> string \<Rightarrow> bool" where
  "strcasecmp_eq s t \<longleftrightarrow> map tolower s = map tolower t"

text \<open>The last character of the line, the newline, is cut off; an empty string would be an access before the array.\<close>

definition choose_service :: "string \<Rightarrow> service option" where
  "choose_service line =
     (let userInput = cstr line
      in if userInput = [] then None
         else let userInput = butlast userInput
              in Some (if strcasecmp_eq userInput ''echo'' then Echo
                       else if strcasecmp_eq userInput ''time'' then Time
                       else if strcasecmp_eq userInput ''quit'' then Quit else No_Service))"

text \<open>
  The parent's two loops, for the results of \<^verbatim>\<open>read\<close> on the pipe: \<open>None\<close> is an error, after which it reads again, and an empty
  text the end of the child.
\<close>

datatype menu_end = At_Menu | Exits | Waits | Loops | Undefined

fun echo_parent :: "string \<Rightarrow> string option list \<Rightarrow> string list \<times> menu_end" where
  "echo_parent buf [] = ([], Waits)"
| "echo_parent buf (None # rs) = echo_parent buf rs"
| "echo_parent buf (Some bytes # rs) =
     (case parent_read buf bytes of
        (buf', Shows t) \<Rightarrow> (let (out, e) = echo_parent buf' rs in (t # out, e))
      | (buf', Crash_Exit) \<Rightarrow> ([termInfo], Exits)
      | (buf', Main_Menu) \<Rightarrow> ([termInfo4], At_Menu)
      | (buf', Child_Gone) \<Rightarrow> ([], At_Menu))"

fun time_parent :: "string \<Rightarrow> string option list \<Rightarrow> string list \<times> menu_end" where
  "time_parent buf [] = ([], Waits)"
| "time_parent buf (None # rs) = time_parent (clear_str buf) rs"
| "time_parent buf (Some bytes # rs) =
     (case parent_read (clear_str buf) bytes of
        (buf', Shows t) \<Rightarrow> (let (out, e) = time_parent buf' rs in (t # out, e))
      | (buf', Crash_Exit) \<Rightarrow> ([termInfo], Exits)
      | (buf', Main_Menu) \<Rightarrow> ([termInfo4], At_Menu)
      | (buf', Child_Gone) \<Rightarrow> ([], At_Menu))"

text \<open>
  The loop of \<^verbatim>\<open>main\<close>, at most \<open>n\<close> passes: each line of the standard input comes with what a child started for it would
  send; \<open>buf\<close> is what the array held.  At the end of the input \<^verbatim>\<open>Fgets\<close> gives \<^verbatim>\<open>NULL\<close> and the loop goes on.
\<close>

fun main_menu :: "nat \<Rightarrow> string \<Rightarrow> (string \<times> string option list) list \<Rightarrow> string list \<times> menu_end" where
  "main_menu 0 buf input = ([], Loops)"
| "main_menu (Suc n) buf [] = main_menu n buf []"
| "main_menu (Suc n) buf ((line, reads) # input) =
     (let continue = (\<lambda>r. case r of (out, At_Menu) \<Rightarrow> (let (out', e) = main_menu n buf input in (out @ out', e)) | r \<Rightarrow> r)
      in case choose_service line of
           None \<Rightarrow> ([], Undefined)
         | Some Echo \<Rightarrow> continue (echo_parent buf reads)
         | Some Time \<Rightarrow> continue (time_parent buf reads)
         | Some Quit \<Rightarrow> ([], Exits)
         | Some No_Service \<Rightarrow> main_menu n buf input)"

section \<open>The server\<close>

text \<open>
  One pass of the loop of the server: the connections waiting at the two sockets, in order.  \<open>ok c\<close> says whether \<^verbatim>\<open>accept\<close>
  succeeds for the connection; when it fails, because the client has gone away, the pass ends there (\<^verbatim>\<open>continue\<close>).  The calls
  of \<^verbatim>\<open>fcntl\<close> succeed.  The result is the threads started.
\<close>

datatype 'c thread = EchoServer 'c | TimeServer 'c

fun accept_time :: "('c \<Rightarrow> bool) \<Rightarrow> 'c list \<Rightarrow> 'c thread list \<times> 'c list" where
  "accept_time ok [] = ([], [])"
| "accept_time ok (c # ts) = (if ok c then ([TimeServer c], ts) else ([], ts))"

fun accept_pass :: "('c \<Rightarrow> bool) \<Rightarrow> 'c list \<times> 'c list \<Rightarrow> 'c thread list \<times> 'c list \<times> 'c list" where
  "accept_pass ok ([], ts) = (let (started, ts') = accept_time ok ts in (started, [], ts'))"
| "accept_pass ok (c # es, ts) =
     (if ok c then (let (started, ts') = accept_time ok ts in (EchoServer c # started, es, ts'))
      else ([], es, ts))"

fun accept_passes :: "nat \<Rightarrow> ('c \<Rightarrow> bool) \<Rightarrow> 'c list \<times> 'c list \<Rightarrow> 'c thread list \<times> 'c list \<times> 'c list" where
  "accept_passes 0 ok q = ([], q)"
| "accept_passes (Suc n) ok q = (let (started, q1) = accept_pass ok q; (started', q2) = accept_passes n ok q1 in (started @ started', q2))"

section \<open>Facts\<close>

definition pipe_of :: "echo_effect list \<Rightarrow> string list" where
  "pipe_of effs = concat (map (\<lambda>e. case e of ToPipe m \<Rightarrow> [m] | _ \<Rightarrow> []) effs)"

definition sock_of :: "echo_effect list \<Rightarrow> string list" where
  "sock_of effs = concat (map (\<lambda>e. case e of ToSock m \<Rightarrow> [m] | _ \<Rightarrow> []) effs)"

text \<open>A user who types lines and then the end of the input, each line answered before the next.\<close>

definition echo_dialogue :: "string list \<Rightarrow> string list \<Rightarrow> echo_event list" where
  "echo_dialogue typed answers = concat (map2 (\<lambda>l r. [FromStdin (Data l), FromSock (Data r)]) typed answers) @ [FromStdin Eof]"

lemma child_line:
  assumes "zero_ended cbuf" "length cbuf = MAXLINE" "plain_line l"
  shows "\<exists>cbuf'. zero_ended cbuf' \<and> length cbuf' = MAXLINE \<and>
    echo_child_loop cbuf (FromStdin (Data l) # FromSock (Data l) # evs)
      = map_option (\<lambda>(effs, e). (ToSock l # ToPipe (l @ [nul]) # effs, e)) (echo_child_loop cbuf' evs)"
proof -
  obtain c where "zero_ended c" "length c = MAXLINE"
    "str_cli_echo (fill l cbuf) (FromSock (Data l)) = Some (c, [ToPipe (l @ [nul])], Child_Running)"
    using child_echoes [OF assms] by blast
  moreover from this(3) have "echo_child_loop cbuf (FromStdin (Data l) # FromSock (Data l) # evs)
      = map_option (\<lambda>(effs, e). (ToSock l # ToPipe (l @ [nul]) # effs, e)) (echo_child_loop c evs)"
    by (simp add: option.map_comp comp_def case_prod_unfold del: str_cli_echo.simps(1))
  ultimately show ?thesis by blast
qed

lemma child_dialogue:
  assumes "zero_ended cbuf" "length cbuf = MAXLINE" "\<forall>l \<in> set ls. plain_line l"
  shows "\<exists>effs. echo_child_loop cbuf (echo_dialogue ls ls) = Some (effs, Child_Returned) \<and> sock_of effs = ls
    \<and> pipe_of effs = map (\<lambda>l. l @ [nul]) (ls @ [termInfo3])"
  using assms
proof (induction ls arbitrary: cbuf)
  case Nil
  then show ?case by (simp add: echo_dialogue_def sock_of_def pipe_of_def)
next
  case (Cons l ls)
  have d: "echo_dialogue (l # ls) (l # ls) = FromStdin (Data l) # FromSock (Data l) # echo_dialogue ls ls"
    by (simp add: echo_dialogue_def)
  obtain cbuf' where "zero_ended cbuf'" "length cbuf' = MAXLINE"
    and s: "echo_child_loop cbuf (echo_dialogue (l # ls) (l # ls))
      = map_option (\<lambda>(effs, e). (ToSock l # ToPipe (l @ [nul]) # effs, e)) (echo_child_loop cbuf' (echo_dialogue ls ls))"
    using child_line [OF Cons.prems(1,2), of l "echo_dialogue ls ls"] Cons.prems(3) unfolding d by auto
  then obtain effs where "echo_child_loop cbuf' (echo_dialogue ls ls) = Some (effs, Child_Returned)" "sock_of effs = ls"
    "pipe_of effs = map (\<lambda>l. l @ [nul]) (ls @ [termInfo3])" using Cons.IH [of cbuf'] Cons.prems(3) by auto
  then show ?case using s by (simp add: sock_of_def pipe_of_def)
qed

definition no_news :: "string \<Rightarrow> bool" where
  "no_news l \<longleftrightarrow> nul \<notin> set l \<and> l \<noteq> termInfo \<and> l \<noteq> termInfo4"

lemma parent_read_shows: "no_news l \<Longrightarrow> \<exists>buf'. parent_read buf (l @ [nul]) = (buf', Shows l)"
  using parent_shows [of l buf] by (cases "parent_read buf (l @ [nul])") (auto simp: no_news_def)

lemma echo_parent_shows:
  "\<forall>l \<in> set ls. no_news l \<Longrightarrow> echo_parent buf (map Some (map (\<lambda>l. l @ [nul]) ls @ [[]])) = (ls, At_Menu)"
proof (induction ls arbitrary: buf)
  case Nil
  then show ?case by (simp add: parent_read_def)
next
  case (Cons l ls)
  obtain buf' where "parent_read buf (l @ [nul]) = (buf', Shows l)" using parent_read_shows [of l buf] Cons.prems by auto
  then show ?case using Cons.IH [of buf'] Cons.prems by simp
qed

lemma termInfo3_news: "no_news termInfo3"
  by (simp add: no_news_def termInfo_def termInfo3_def termInfo4_def nul_def)

lemma chosen:
  assumes "map tolower w = map tolower name" "nul \<notin> set name" "list_all (\<lambda>c. c \<noteq> nul) (map tolower name)"
  shows "choose_service (w @ [CHR 0x0A]) = Some (if strcasecmp_eq name ''echo'' then Echo
    else if strcasecmp_eq name ''time'' then Time else if strcasecmp_eq name ''quit'' then Quit else No_Service)"
proof -
  have "tolower nul = nul" by (simp add: tolower_def nul_def)
  moreover have "tolower ` set w = tolower ` set name" using assms(1) by (metis list.set_map)
  ultimately have "nul \<notin> set w" using assms(3) by (force simp: list_all_iff)
  then have "cstr (w @ [CHR 0x0A]) = w @ [CHR 0x0A]" by (simp add: cstr_append) (simp add: cstr_def nul_def)
  then show ?thesis using assms(1) by (simp add: choose_service_def strcasecmp_eq_def Let_def)
qed

lemma chosen_echo: "map tolower w = ''echo'' \<Longrightarrow> choose_service (w @ [CHR 0x0A]) = Some Echo"
  and chosen_time: "map tolower w = ''time'' \<Longrightarrow> choose_service (w @ [CHR 0x0A]) = Some Time"
  and chosen_quit: "map tolower w = ''quit'' \<Longrightarrow> choose_service (w @ [CHR 0x0A]) = Some Quit"
proof -
  have e: "map tolower ''echo'' = ''echo''" "map tolower ''time'' = ''time''" "map tolower ''quit'' = ''quit''" by code_simp+
  have n: "nul \<notin> set ''echo''" "nul \<notin> set ''time''" "nul \<notin> set ''quit''"
    "list_all (\<lambda>c. c \<noteq> nul) ''echo''" "list_all (\<lambda>c. c \<noteq> nul) ''time''" "list_all (\<lambda>c. c \<noteq> nul) ''quit''" by (simp_all add: nul_def)
  show "map tolower w = ''echo'' \<Longrightarrow> choose_service (w @ [CHR 0x0A]) = Some Echo"
    using chosen [of w "''echo''"] n e by (simp add: strcasecmp_eq_def)
  show "map tolower w = ''time'' \<Longrightarrow> choose_service (w @ [CHR 0x0A]) = Some Time"
    using chosen [of w "''time''"] n e by (simp add: strcasecmp_eq_def)
  show "map tolower w = ''quit'' \<Longrightarrow> choose_service (w @ [CHR 0x0A]) = Some Quit"
    using chosen [of w "''quit''"] n e by (simp add: strcasecmp_eq_def)
qed

lemma echoRequest_data: "fst (echoRequest (map (\<lambda>l. (Data l, True)) ls)) = ls"
  by (induction ls) (simp_all add: Let_def case_prod_unfold)




section \<open>Properties\<close>

text \<open>
  C34 (the echo service from the menu).  A user chooses the echo service, in letters of either case, types lines into the
  child and ends its input.  Each line is a non-empty text without zero bytes, shorter than \<^verbatim>\<open>MAXLINE\<close>, and is not one of the two notices
  that the parent acts on (\<^verbatim>\<open>termInfo\<close>, \<^verbatim>\<open>termInfo4\<close>); each is written back by the server, with no write failing, before the next is typed; the child's
  buffer has \<^verbatim>\<open>MAXLINE\<close> characters and holds a text and zeros behind it; each message in the pipe is read as a whole.  Then the parent shows
  every line once and in order, then the news that the input has ended, and
  is back at the menu, where \<^verbatim>\<open>quit\<close> ends the program; the server has received exactly these lines.
\<close>

theorem echo_from_menu:
  assumes "zero_ended cbuf" "length cbuf = MAXLINE" "\<forall>l \<in> set ls. plain_line l \<and> no_news l"
    and "map tolower w = ''echo''" "map tolower q = ''quit''" "2 \<le> n"
  shows "\<exists>effs. echo_child True cbuf (echo_dialogue ls (fst (echoRequest (map (\<lambda>l. (Data l, True)) ls)))) = Some (effs, Child_Returned)
    \<and> sock_of effs = ls
    \<and> main_menu n pbuf [(w @ [CHR 0x0A], map Some (pipe_of effs @ [[]])), (q @ [CHR 0x0A], [])] = (ls @ [termInfo3], Exits)"
proof -
  obtain effs where e: "echo_child_loop cbuf (echo_dialogue ls ls) = Some (effs, Child_Returned)" "sock_of effs = ls"
    "pipe_of effs = map (\<lambda>l. l @ [nul]) (ls @ [termInfo3])"
    using child_dialogue [OF assms(1,2)] assms(3) by blast
  obtain m where n: "n = Suc (Suc m)" using assms(6) by (metis add_2_eq_Suc le_Suc_ex)
  have "\<forall>l \<in> set (ls @ [termInfo3]). no_news l" using assms(3) termInfo3_news by auto
  from echo_parent_shows [OF this] have "echo_parent pbuf (map Some (pipe_of effs @ [[]])) = (ls @ [termInfo3], At_Menu)"
    unfolding e(3) .
  then show ?thesis
    using e(1,2) chosen_echo [OF assms(4)] chosen_quit [OF assms(5)] by (simp add: echo_child_def echoRequest_data n)
qed

theorem echo_from_menu_witness:
  "\<exists>effs. echo_child True (replicate MAXLINE nul) (echo_dialogue [''hi'', ''there''] (fst (echoRequest (map (\<lambda>l. (Data l, True)) [''hi'', ''there'']))))
      = Some (effs, Child_Returned)
    \<and> sock_of effs = [''hi'', ''there'']
    \<and> main_menu 2 [] [(''Echo'' @ [CHR 0x0A], map Some (pipe_of effs @ [[]])), (''QUIT'' @ [CHR 0x0A], [])]
      = ([''hi'', ''there'', termInfo3], Exits)"
proof -
  have "MAXLINE = Suc 4095" by (simp add: MAXLINE_def)
  then have z: "zero_ended (replicate MAXLINE nul)" unfolding zero_ended_def by (metis append_Nil empty_iff list.set(1))
  have p: "\<forall>l \<in> set [''hi'', ''there'']. plain_line l \<and> no_news l"
    by (simp add: plain_line_def no_news_def termInfo_def termInfo4_def MAXLINE_def nul_def)
  have "map tolower ''Echo'' = ''echo''" "map tolower ''QUIT'' = ''quit''" by code_simp+
  then show ?thesis using echo_from_menu [OF z _ p, of "''Echo''" "''QUIT''" 2 "[]"] by simp
qed



text \<open>
  How the menu ends.  A connection that cannot be made brings the user back to the menu, for both services.  But at the end of the
  standard input the menu never ends: however many passes are made, it is still running; and a last line \<^verbatim>\<open>quit\<close> without
  a newline loses its last letter and is no service.  An address that is written correctly but has no host entry is
  used through a null pointer.
\<close>

theorem menu_end_of_input:
  "main_menu n buf [] = ([], Loops)
   \<and> main_menu n buf [(''quit'', reads)] = ([], Loops)
   \<and> main_menu (Suc n) buf ((''quit'' @ [CHR 0x0A], reads) # input) = ([], Exits)
   \<and> (\<exists>effs. echo_child False cbuf evs = Some (effs, Child_Quit)
        \<and> echo_parent buf (map Some (pipe_of effs @ [[]])) = ([termInfo4], At_Menu))
   \<and> (\<exists>effs. time_child False rs = (effs, Child_Quit)
        \<and> time_parent buf (map Some (pipe_of effs @ [[]])) = ([termInfo4], At_Menu))
   \<and> server_target (\<lambda>_. None) byname ''10.0.0.1'' = Null_Pointer"
proof (intro conjI)
  show l: "main_menu n buf [] = ([], Loops)" for n by (induction n) simp_all
  have "choose_service ''quit'' = Some No_Service" by code_simp
  then show "main_menu n buf [(''quit'', reads)] = ([], Loops)" using l by (cases n) simp_all
  have "map tolower ''quit'' = ''quit''" by code_simp
  from chosen_quit [OF this] show "main_menu (Suc n) buf ((''quit'' @ [CHR 0x0A], reads) # input) = ([], Exits)" by simp
  have "nul \<notin> set termInfo4" "termInfo4 \<noteq> termInfo" by (simp_all add: termInfo_def termInfo4_def nul_def)
  then have "snd (parent_read b (termInfo4 @ [nul])) = Main_Menu" for b
    using cstr_zero [of termInfo4] by (simp add: parent_read_def Let_def fill_def)
  then have r: "\<exists>b'. parent_read b (termInfo4 @ [nul]) = (b', Main_Menu)" for b by (metis prod.collapse)
  show "\<exists>effs. echo_child False cbuf evs = Some (effs, Child_Quit)
      \<and> echo_parent buf (map Some (pipe_of effs @ [[]])) = ([termInfo4], At_Menu)"
    using r [of buf] by (auto simp: echo_child_def pipe_of_def)
  show "\<exists>effs. time_child False rs = (effs, Child_Quit)
      \<and> time_parent buf (map Some (pipe_of effs @ [[]])) = ([termInfo4], At_Menu)"
    using r [of "clear_str buf"] by (auto simp: time_child_def pipe_of_def)
  have "inet_pton ''10.0.0.1'' = Some [10, 0, 0, 1]" by code_simp
  then show "server_target (\<lambda>_. None) byname ''10.0.0.1'' = Null_Pointer" by (simp add: server_target_def)
qed

fun is_echo :: "'c thread \<Rightarrow> bool" where
  "is_echo (EchoServer c) = True"
| "is_echo (TimeServer c) = False"

text \<open>
  C32 (the server starts a thread for every connection).  Whichever connections are given up by their clients before they are accepted, after as many
  passes as there are connections waiting at the two sockets, no connection waits, and the threads started are, for each
  service and in the order of arrival, one for each connection that could be accepted; a failed \<^verbatim>\<open>accept\<close> at the echo
  socket only delays the time service by a pass.
\<close>

theorem every_connection_served:
  assumes "length es + length ts \<le> n"
  shows "\<exists>started. accept_passes n ok (es, ts) = (started, [], [])
    \<and> filter is_echo started = map EchoServer (filter ok es)
    \<and> filter (\<lambda>t. \<not> is_echo t) started = map TimeServer (filter ok ts)"
  using assms
proof (induction n arbitrary: es ts)
  case 0
  then show ?case by simp
next
  case (Suc n)
  show ?case
  proof (cases es)
    case Nil
    then show ?thesis using Suc.IH [of "[]" "tl ts"] Suc.prems by (cases ts) auto
  next
    case (Cons c es')
    then show ?thesis using Suc.IH [of es' "tl ts"] Suc.IH [of es' ts] Suc.prems by (cases ts; cases "ok c") auto
  qed
qed

theorem every_connection_served_witness:
  "\<exists>started. accept_passes 5 even ([2, 3, 4 :: nat], [6, 7]) = (started, [], [])
    \<and> filter is_echo started = [EchoServer 2, EchoServer 4]
    \<and> filter (\<lambda>t. \<not> is_echo t) started = [TimeServer 6]"
  using every_connection_served [of "[2, 3, 4 :: nat]" "[6, 7]" 5 even] by simp

end
