(* ===== verification/Tcp_Threads.thy ===== *)
theory Tcp_Threads
  imports Tcp_Main
begin

text \<open>
  The descriptors of the echo and time server (\<^verbatim>\<open>tcpechotimesrv.c\<close>): the start of \<^verbatim>\<open>main\<close>, the functions \<^verbatim>\<open>echoServer\<close> and \<^verbatim>\<open>timeServer\<close>
  that each thread runs, and the process as a whole: its threads, its open descriptors, and its end, over any sequence of arriving connections
  and of things the threads see.  The kernel gives out the lowest
  descriptor that is free, up to a limit for the process.
\<close>

section \<open>Descriptors\<close>

definition lowest_free :: "nat list \<Rightarrow> nat" where
  "lowest_free fds = hd (filter (\<lambda>n. n \<notin> set fds) [0..<Suc (length fds)])"

definition open_fd :: "nat \<Rightarrow> nat list \<Rightarrow> (nat \<times> nat list) option" where
  "open_fd limit fds = (if lowest_free fds < limit then Some (lowest_free fds, lowest_free fds # fds) else None)"

section \<open>The program\<close>

text \<open>The two listening sockets with their ports, and \<^verbatim>\<open>maxfd\<close>; \<open>None\<close> is \<^verbatim>\<open>err_quit\<close> or the failure of a call.\<close>

record listener =
  listen_fd :: nat
  listen_port :: int
  nonblocking :: bool

definition tcp_start :: "nat \<Rightarrow> nat \<Rightarrow> nat list \<Rightarrow> (listener \<times> listener \<times> nat \<times> nat list) option" where
  "tcp_start limit argc fds =
     (if argc \<noteq> 1 then None
      else case open_fd limit fds of
        None \<Rightarrow> None
      | Some (e, fds1) \<Rightarrow>
          (case open_fd limit fds1 of
             None \<Rightarrow> None
           | Some (t, fds2) \<Rightarrow>
               Some (\<lparr>listen_fd = e, listen_port = 21696, nonblocking = True\<rparr>, \<lparr>listen_fd = t, listen_port = 21697, nonblocking = True\<rparr>,
                     if e > t then e else t, fds2)))"

text \<open>The functions of the threads: only a request function that returns leads to \<^verbatim>\<open>Close\<close>.\<close>

definition echoServer :: "nat \<Rightarrow> (read_result \<times> bool) list \<Rightarrow> nat list \<Rightarrow> string list \<times> thread_end \<times> nat list" where
  "echoServer connfd rs fds =
     (case echoRequest rs of
        (out, Returned) \<Rightarrow> (out, Pthread_Exit, remove1 connfd fds)
      | (out, e) \<Rightarrow> (out, e, fds))"

definition timeServer :: "nat \<Rightarrow> time_event list \<Rightarrow> nat list \<Rightarrow> string list \<times> thread_end \<times> nat list" where
  "timeServer connfd es fds =
     (case timeRequest es of
        (out, Returned) \<Rightarrow> (out, Pthread_Exit, remove1 connfd fds)
      | (out, e) \<Rightarrow> (out, e, fds))"

text \<open>
  A connection to one of the services, with all that its thread has seen so far.
\<close>

datatype connection = ToEcho "(read_result \<times> bool) list" | ToTime "time_event list"

definition run_thread :: "nat \<Rightarrow> connection \<Rightarrow> nat list \<Rightarrow> string list \<times> thread_end \<times> nat list" where
  "run_thread connfd conn fds = (case conn of ToEcho rs \<Rightarrow> echoServer connfd rs fds | ToTime es \<Rightarrow> timeServer connfd es fds)"

text \<open>
  The process: its descriptors and its threads in the order in which they were started, each with the descriptor of its connection.
  It is \<open>Stopped\<close> when a thread has ended it: every thread ends with it, and nothing is accepted any more.
\<close>

record process =
  open_fds :: "nat list"
  threads :: "(nat \<times> connection) list"

datatype server_state = Serving process | Stopped process

text \<open>
  What happens to the process, in any order: a connection at one of the two sockets, and something that the \<open>i\<close>-th thread gets to
  see.  \<^verbatim>\<open>accept\<close> fails when no descriptor is left, and the loop goes on without a thread for the connection.
\<close>

datatype port = Echo_Port | Time_Port

datatype process_event = Connects port | Echo_Sees nat "read_result \<times> bool" | Time_Sees nat time_event

fun new_connection :: "port \<Rightarrow> connection" where
  "new_connection Echo_Port = ToEcho []"
| "new_connection Time_Port = ToTime []"

definition start_thread :: "nat \<Rightarrow> port \<Rightarrow> process \<Rightarrow> process" where
  "start_thread limit q p =
     (case open_fd limit (open_fds p) of
        None \<Rightarrow> p
      | Some (connfd, fds) \<Rightarrow> p\<lparr>open_fds := fds, threads := threads p @ [(connfd, new_connection q)]\<rparr>)"

text \<open>The connection of a thread that is there and has not ended.\<close>

definition running_thread :: "process \<Rightarrow> nat \<Rightarrow> connection option" where
  "running_thread p i =
     (if i < length (threads p) then
        (case threads p ! i of (connfd, conn) \<Rightarrow>
           (case run_thread connfd conn (open_fds p) of (out, e, fds) \<Rightarrow> if e = Running then Some conn else None))
      else None)"

definition thread_goes_on :: "process \<Rightarrow> nat \<Rightarrow> connection \<Rightarrow> server_state" where
  "thread_goes_on p i conn =
     (let connfd = fst (threads p ! i)
      in case run_thread connfd conn (open_fds p) of (out, e, fds) \<Rightarrow>
           let p' = p\<lparr>open_fds := fds, threads := (threads p)[i := (connfd, conn)]\<rparr>
           in if e = Process_Exit then Stopped p' else Serving p')"

fun server_event :: "nat \<Rightarrow> server_state \<Rightarrow> process_event \<Rightarrow> server_state" where
  "server_event limit (Stopped p) ev = Stopped p"
| "server_event limit (Serving p) (Connects q) = Serving (start_thread limit q p)"
| "server_event limit (Serving p) (Echo_Sees i r) =
     (case running_thread p i of Some (ToEcho rs) \<Rightarrow> thread_goes_on p i (ToEcho (rs @ [r])) | _ \<Rightarrow> Serving p)"
| "server_event limit (Serving p) (Time_Sees i ev) =
     (case running_thread p i of Some (ToTime es) \<Rightarrow> thread_goes_on p i (ToTime (es @ [ev])) | _ \<Rightarrow> Serving p)"

definition server_run :: "nat \<Rightarrow> server_state \<Rightarrow> process_event list \<Rightarrow> server_state" where
  "server_run limit = foldl (server_event limit)"

section \<open>Facts\<close>

lemma lowest_free:
  assumes "distinct fds"
  shows "lowest_free fds \<notin> set fds" "lowest_free fds \<le> length fds" "n < lowest_free fds \<Longrightarrow> n \<in> set fds"
proof -
  let ?free = "filter (\<lambda>n. n \<notin> set fds) [0..<Suc (length fds)]"
  have "card {0..<Suc (length fds)} > card (set fds)" using distinct_card [OF assms] by simp
  then have "\<not> {0..<Suc (length fds)} \<subseteq> set fds" by (meson List.finite_set card_mono not_le)
  then obtain m where "m \<in> {0..<Suc (length fds)}" "m \<notin> set fds" by blast
  then have "m \<in> set ?free" by (simp del: upt_Suc)
  then have ne: "?free \<noteq> []" by (metis empty_iff empty_set)
  have h: "lowest_free fds \<in> set ?free" unfolding lowest_free_def by (rule hd_in_set [OF ne])
  then show "lowest_free fds \<notin> set fds" "lowest_free fds \<le> length fds" by (auto simp del: upt_Suc)
  show "n \<in> set fds" if n: "n < lowest_free fds"
  proof (rule ccontr)
    assume "n \<notin> set fds"
    then have "n \<in> set ?free" using n h by (auto simp del: upt_Suc)
    moreover have "sorted ?free" by (intro sorted_wrt_filter sorted_upt)
    ultimately have "hd ?free \<le> n" by (cases ?free) (auto simp del: upt_Suc)
    then show False using n by (simp add: lowest_free_def)
  qed
qed

text \<open>The descriptors in use are \<open>0, \<dots>, n - 1\<close>.\<close>

definition packed :: "nat list \<Rightarrow> bool" where
  "packed fds \<longleftrightarrow> distinct fds \<and> set fds = {..<length fds}"

lemma packed_lowest: "packed fds \<Longrightarrow> lowest_free fds = length fds"
  using lowest_free [of fds] by (metis lessThan_iff nat_less_le packed_def)

lemma packed_open:
  "packed fds \<Longrightarrow> open_fd limit fds = (if length fds < limit then Some (length fds, length fds # fds) else None)"
  "packed fds \<Longrightarrow> packed (length fds # fds)"
proof -
  show "packed fds \<Longrightarrow> open_fd limit fds = (if length fds < limit then Some (length fds, length fds # fds) else None)"
    by (simp add: open_fd_def packed_lowest)
  assume "packed fds"
  then have "distinct fds" "set fds = {..<length fds}" by (simp_all add: packed_def)
  then show "packed (length fds # fds)" unfolding packed_def by (simp only: list.size distinct.simps list.set lessThan_iff) (simp add: lessThan_Suc)
qed

lemma echo_never_returns: "snd (echoRequest rs) \<noteq> Returned"
  by (induction rs rule: echoRequest.induct) (simp_all add: case_prod_unfold Let_def)

lemma time_never_returns: "snd (timeRequest es) \<noteq> Returned"
  by (induction es rule: timeRequest.induct) (simp_all add: case_prod_unfold Let_def)

definition served_as :: "connection \<Rightarrow> string list \<times> thread_end" where
  "served_as conn = (case conn of ToEcho rs \<Rightarrow> echoRequest rs | ToTime es \<Rightarrow> timeRequest es)"

text \<open>A thread leaves the descriptors as they are.\<close>

lemma run_thread_served: "run_thread connfd conn fds = (fst (served_as conn), snd (served_as conn), fds)"
proof (cases conn)
  case (ToEcho rs)
  then show ?thesis using echo_never_returns [of rs]
    by (auto simp: run_thread_def served_as_def echoServer_def split: prod.split thread_end.split)
next
  case (ToTime es)
  then show ?thesis using time_never_returns [of es]
    by (auto simp: run_thread_def served_as_def timeServer_def split: prod.split thread_end.split)
qed

lemma running_thread_eq:
  "running_thread p i = (if i < length (threads p) \<and> snd (served_as (snd (threads p ! i))) = Running then Some (snd (threads p ! i)) else None)"
  by (simp add: running_thread_def run_thread_served case_prod_unfold)

lemma thread_goes_on_eq:
  "thread_goes_on p i conn = (if snd (served_as conn) = Process_Exit then Stopped else Serving)
     (p\<lparr>threads := (threads p)[i := (fst (threads p ! i), conn)]\<rparr>)"
  by (simp add: thread_goes_on_def run_thread_served Let_def)

fun port_of :: "connection \<Rightarrow> port" where
  "port_of (ToEcho rs) = Echo_Port"
| "port_of (ToTime es) = Time_Port"

definition ports :: "process \<Rightarrow> port list" where
  "ports p = map (\<lambda>t. port_of (snd t)) (threads p)"

definition arrivals :: "process_event list \<Rightarrow> port list" where
  "arrivals evs = concat (map (\<lambda>ev. case ev of Connects q \<Rightarrow> [q] | _ \<Rightarrow> []) evs)"

lemma arrivals_snoc: "arrivals (evs @ [ev]) = arrivals evs @ (case ev of Connects q \<Rightarrow> [q] | _ \<Rightarrow> [])"
  by (simp add: arrivals_def)

lemma port_of_new [simp]: "port_of (new_connection q) = q" "snd (served_as (new_connection q)) = Running"
  by (cases q; simp add: served_as_def)+

definition ended_process :: "nat \<times> connection \<Rightarrow> bool" where
  "ended_process t \<longleftrightarrow> snd (served_as (snd t)) = Process_Exit"

text \<open>The process after the events \<open>evs\<close>.\<close>

definition proc_ok :: "nat \<Rightarrow> process_event list \<Rightarrow> process \<Rightarrow> bool" where
  "proc_ok limit evs p \<longleftrightarrow> packed (open_fds p) \<and> length (open_fds p) = 5 + length (threads p)
     \<and> ports p = take (limit - 5) (arrivals evs)"

lemma start_thread_ok:
  assumes "proc_ok limit evs p" "5 \<le> limit"
  shows "proc_ok limit (evs @ [Connects q]) (start_thread limit q p)"
    and "limit - 5 \<le> length (arrivals evs) \<Longrightarrow> start_thread limit q p = p"
    and "set (threads (start_thread limit q p)) \<subseteq> insert (length (open_fds p), new_connection q) (set (threads p))"
proof -
  have p: "packed (open_fds p)" and n: "length (open_fds p) = 5 + length (threads p)"
    and q: "ports p = take (limit - 5) (arrivals evs)" using assms(1) by (simp_all add: proc_ok_def)
  have "length (threads p) = length (ports p)" by (simp add: ports_def)
  then have l: "length (threads p) = min (length (arrivals evs)) (limit - 5)" using q by simp
  have s: "start_thread limit q p = (if length (threads p) < limit - 5
      then p\<lparr>open_fds := length (open_fds p) # open_fds p, threads := threads p @ [(length (open_fds p), new_connection q)]\<rparr> else p)"
    using packed_open(1) [OF p, of limit] n assms(2) by (auto simp: start_thread_def)
  show "proc_ok limit (evs @ [Connects q]) (start_thread limit q p)"
  proof (cases "length (threads p) < limit - 5")
    case True
    then have "length (arrivals evs) < limit - 5" using l by simp
    then show ?thesis using True s p n q packed_open(2) [OF p] by (simp add: proc_ok_def ports_def arrivals_snoc)
  next
    case False
    then have "limit - 5 \<le> length (arrivals evs)" using l by simp
    then show ?thesis using False s assms(1) by (simp add: proc_ok_def arrivals_snoc)
  qed
  show "limit - 5 \<le> length (arrivals evs) \<Longrightarrow> start_thread limit q p = p" using s l by simp
  show "set (threads (start_thread limit q p)) \<subseteq> insert (length (open_fds p), new_connection q) (set (threads p))"
    using s by auto
qed

lemma update_thread_ok:
  assumes "proc_ok limit evs p" "port_of conn = port_of (snd (threads p ! i))" "arrivals evs' = arrivals evs"
  shows "proc_ok limit evs' (p\<lparr>threads := (threads p)[i := (fst (threads p ! i), conn)]\<rparr>)"
proof -
  have "(map (\<lambda>t. port_of (snd t)) (threads p))[i := port_of (snd (threads p ! i))] = map (\<lambda>t. port_of (snd t)) (threads p)"
    by (metis list_update_id map_update)
  then have "ports (p\<lparr>threads := (threads p)[i := (fst (threads p ! i), conn)]\<rparr>) = ports p"
    using assms(2) by (simp add: ports_def map_update)
  then show ?thesis using assms(1,3) by (simp add: proc_ok_def)
qed


text \<open>One event: the process goes on, or a thread has ended it.\<close>

definition goes_on :: "nat \<Rightarrow> process_event list \<Rightarrow> process \<Rightarrow> bool" where
  "goes_on limit evs p \<longleftrightarrow> proc_ok limit evs p \<and> (\<forall>t \<in> set (threads p). \<not> ended_process t)"

definition stops :: "nat \<Rightarrow> process_event list \<Rightarrow> process \<Rightarrow> bool" where
  "stops limit evs p \<longleftrightarrow> proc_ok limit evs p \<and> (\<exists>t \<in> set (threads p). ended_process t)"

lemma thread_goes_on_ok:
  assumes "goes_on limit evs p" "running_thread p i = Some conn0" "port_of conn = port_of conn0" "arrivals evs' = arrivals evs"
  shows "case thread_goes_on p i conn of Serving p' \<Rightarrow> goes_on limit evs' p' | Stopped p' \<Rightarrow> stops limit evs' p'"
proof -
  have i: "i < length (threads p)" "conn0 = snd (threads p ! i)" using assms(2) by (auto simp: running_thread_eq split: if_splits)
  let ?p = "p\<lparr>threads := (threads p)[i := (fst (threads p ! i), conn)]\<rparr>"
  have ok: "proc_ok limit evs' ?p"
    using update_thread_ok [of limit evs p conn i evs'] assms(1,3,4) i(2) by (simp add: goes_on_def)
  have mem: "(fst (threads p ! i), conn) \<in> set (threads ?p)" using i(1) by (simp add: set_update_memI)
  show ?thesis
  proof (cases "snd (served_as conn) = Process_Exit")
    case True
    then have "stops limit evs' ?p" using ok mem unfolding stops_def ended_process_def by force
    then show ?thesis using True by (simp add: thread_goes_on_eq)
  next
    case False
    have "set (threads ?p) \<subseteq> insert (fst (threads p ! i), conn) (set (threads p))" by (simp add: set_update_subset_insert)
    then have "\<forall>t \<in> set (threads ?p). \<not> ended_process t" using False assms(1) by (auto simp: goes_on_def ended_process_def)
    then show ?thesis using False ok by (simp add: thread_goes_on_eq goes_on_def)
  qed
qed

lemma server_event_ok:
  assumes "goes_on limit evs p" "5 \<le> limit"
  shows "case server_event limit (Serving p) ev of Serving p' \<Rightarrow> goes_on limit (evs @ [ev]) p' | Stopped p' \<Rightarrow> stops limit (evs @ [ev]) p'"
proof -
  have stay: "goes_on limit (evs @ [ev]) p" if "arrivals (evs @ [ev]) = arrivals evs"
    using assms(1) that by (simp add: goes_on_def proc_ok_def)
  show ?thesis
  proof (cases ev)
    case (Connects q)
    have ok: "proc_ok limit evs p" using assms(1) by (simp add: goes_on_def)
    have "\<not> ended_process (length (open_fds p), new_connection q)" by (simp add: ended_process_def)
    then have "goes_on limit (evs @ [ev]) (start_thread limit q p)"
      using start_thread_ok(1,3) [OF ok assms(2), of q] assms(1) Connects unfolding goes_on_def by blast
    then show ?thesis using Connects by simp
  next
    case (Echo_Sees i r)
    then have a: "arrivals (evs @ [ev]) = arrivals evs" by (simp add: arrivals_snoc)
    show ?thesis using Echo_Sees stay [OF a] thread_goes_on_ok [OF assms(1) _ _ a, of i]
      by (auto split: option.split connection.split)
  next
    case (Time_Sees i e)
    then have a: "arrivals (evs @ [ev]) = arrivals evs" by (simp add: arrivals_snoc)
    show ?thesis using Time_Sees stay [OF a] thread_goes_on_ok [OF assms(1) _ _ a, of i]
      by (auto split: option.split connection.split)
  qed
qed

lemma server_run_snoc: "server_run limit r (evs @ [ev]) = server_event limit (server_run limit r evs) ev"
  by (simp add: server_run_def)

lemma server_run_Stopped: "server_run limit (Stopped p) evs = Stopped p"
  by (induction evs rule: rev_induct) (simp_all add: server_run_snoc, simp add: server_run_def)

lemma server_run_append: "server_run limit r (evs @ evs') = server_run limit (server_run limit r evs) evs'"
  by (simp add: server_run_def)

text \<open>The process after the start, with its standard descriptors and the two listening sockets.\<close>

lemma server_run_ok:
  assumes "5 \<le> limit" and "packed fds" "length fds = 5" and "r = server_run limit (Serving \<lparr>open_fds = fds, threads = []\<rparr>)"
  shows "case r evs of Serving p \<Rightarrow> goes_on limit evs p
    | Stopped p \<Rightarrow> \<exists>before now after. evs = before @ now # after \<and> (\<exists>p0. r before = Serving p0) \<and> stops limit (before @ [now]) p"
proof (induction evs rule: rev_induct)
  case Nil
  then show ?case using assms by (simp add: server_run_def goes_on_def proc_ok_def ports_def arrivals_def)
next
  case (snoc ev evs)
  have s: "r (evs @ [ev]) = server_event limit (r evs) ev" unfolding assms(4) by (rule server_run_snoc)
  show ?case
  proof (cases "r evs")
    case (Serving p)
    then have g: "goes_on limit evs p" using snoc.IH by simp
    show ?thesis
    proof (cases "server_event limit (Serving p) ev")
      case (Stopped p')
      then have "stops limit (evs @ [ev]) p'" using server_event_ok [OF g assms(1), of ev] by simp
      then show ?thesis using s Serving Stopped by (auto intro!: exI [of _ evs])
    qed (use server_event_ok [OF g assms(1), of ev] s Serving in simp)
  next
    case (Stopped p)
    then obtain before now after where b: "evs = before @ now # after" "\<exists>p0. r before = Serving p0" "stops limit (before @ [now]) p"
      using snoc.IH by auto
    have "r (evs @ [ev]) = Stopped p" using s Stopped by simp
    moreover have "\<exists>before now after. evs @ [ev] = before @ now # after \<and> (\<exists>p0. r before = Serving p0) \<and> stops limit (before @ [now]) p"
      using b by (intro exI [of _ before] exI [of _ now] exI [of _ "after @ [ev]"]) simp
    ultimately show ?thesis by (simp only: server_state.case)
  qed
qed

section \<open>Property\<close>

text \<open>
  C33 (the server runs out of descriptors).  The threads never close their connection: both request functions leave by \<^verbatim>\<open>pthread_exit\<close>, end
  the process or go on, and \<^verbatim>\<open>Close\<close> behind them is not reached.  A server is started with its three standard descriptors and a limit
  of \<open>n\<close>; connections arrive, and the threads read, write and end, in any order.  As long as the process serves, it has started a thread, of the kind
  of the socket, for exactly the first \<open>n - 5\<close> connections, and no further connection gets a thread, even when
  all the clients before have gone.  An echo thread that fails to read or to write ends the process: there is a first such event, the threads are
  those started before it, and nothing that comes after changes anything.
\<close>

theorem descriptors_run_out:
  assumes "5 \<le> limit"
  shows "\<exists>e t fds. tcp_start limit 1 [2, 1, 0] = Some (e, t, 4, fds) \<and> listen_fd e = 3 \<and> listen_fd t = 4 \<and>
    (let r = server_run limit (Serving \<lparr>open_fds = fds, threads = []\<rparr>) in
      (\<forall>p. r evs = Serving p \<longrightarrow> ports p = take (limit - 5) (arrivals evs) \<and> length (open_fds p) = 5 + length (threads p)
        \<and> (\<forall>t \<in> set (threads p). \<not> ended_process t)
        \<and> (limit - 5 \<le> length (arrivals evs) \<longrightarrow> (\<forall>q. server_event limit (Serving p) (Connects q) = Serving p)))
      \<and> (\<forall>p. r evs = Stopped p \<longrightarrow> (\<forall>evs'. r (evs @ evs') = Stopped p) \<and> (\<exists>t \<in> set (threads p). ended_process t)
        \<and> (\<exists>before now after p0. evs = before @ now # after \<and> r before = Serving p0
            \<and> ports p = take (limit - 5) (arrivals (before @ [now])))))"
proof -
  have p: "packed [2, 1, 0]" by (auto simp: packed_def)
  have o: "open_fd limit [2, 1, 0] = Some (3, [3, 2, 1, 0])" "open_fd limit [3, 2, 1, 0] = Some (4, [4, 3, 2, 1, 0])"
    using packed_open(1) [OF p, of limit] packed_open(1) [OF packed_open(2) [OF p], of limit] assms by (simp_all add: eval_nat_numeral)
  have pk: "packed [4, 3, 2, 1, 0]" using packed_open(2) [OF packed_open(2) [OF p]] by (simp add: eval_nat_numeral)
  define r where "r = server_run limit (Serving \<lparr>open_fds = [4, 3, 2, 1, 0], threads = []\<rparr>)"
  have ok: "case r evs of Serving p \<Rightarrow> goes_on limit evs p
    | Stopped p \<Rightarrow> \<exists>before now after. evs = before @ now # after \<and> (\<exists>p0. r before = Serving p0) \<and> stops limit (before @ [now]) p"
    using server_run_ok [OF assms pk _ r_def] by simp
  have serving: "ports p = take (limit - 5) (arrivals evs) \<and> length (open_fds p) = 5 + length (threads p)
        \<and> (\<forall>t \<in> set (threads p). \<not> ended_process t)
        \<and> (limit - 5 \<le> length (arrivals evs) \<longrightarrow> (\<forall>q. server_event limit (Serving p) (Connects q) = Serving p))"
    if "r evs = Serving p" for p
    using ok that start_thread_ok(2) [OF _ assms] by (simp add: goes_on_def proc_ok_def)
  have stopped: "(\<forall>evs'. r (evs @ evs') = Stopped p) \<and> (\<exists>t \<in> set (threads p). ended_process t)
        \<and> (\<exists>before now after p0. evs = before @ now # after \<and> r before = Serving p0
            \<and> ports p = take (limit - 5) (arrivals (before @ [now])))"
    if stp: "r evs = Stopped p" for p
  proof -
    obtain before now after p0 where b: "evs = before @ now # after" "r before = Serving p0" "stops limit (before @ [now]) p"
      using ok stp by auto
    moreover have "r (evs @ evs') = Stopped p" for evs'
      using stp by (simp add: r_def server_run_append server_run_Stopped)
    ultimately show ?thesis unfolding stops_def proc_ok_def by blast
  qed
  show ?thesis using o serving stopped unfolding r_def by (simp add: tcp_start_def Let_def)
qed

text \<open>A limit of seven: the echo client has gone, and still the third connection gets no thread.\<close>

definition short_life :: "process_event list" where
  "short_life = [Connects Echo_Port, Echo_Sees 0 (Data ''hi'', True), Echo_Sees 0 (Eof, True), Connects Time_Port]"

theorem descriptors_run_out_witness:
  "\<exists>e t fds p. tcp_start 7 1 [2, 1, 0] = Some (e, t, 4, fds)
    \<and> server_run 7 (Serving \<lparr>open_fds = fds, threads = []\<rparr>) short_life = Serving p \<and> ports p = [Echo_Port, Time_Port]
    \<and> (\<forall>q. server_event 7 (Serving p) (Connects q) = Serving p)"
proof -
  obtain e t fds where s: "tcp_start 7 1 [2, 1, 0] = Some (e, t, 4, fds)"
    "\<And>p. server_run 7 (Serving \<lparr>open_fds = fds, threads = []\<rparr>) short_life = Serving p \<Longrightarrow> ports p = take (7 - 5) (arrivals short_life)
        \<and> (7 - 5 \<le> length (arrivals short_life) \<longrightarrow> (\<forall>q. server_event 7 (Serving p) (Connects q) = Serving p))"
    using descriptors_run_out [of 7 short_life] by (auto simp: Let_def)
  have "open_fd 7 [2, 1, 0] = Some (3, [3, 2, 1, 0])" "open_fd 7 [3, 2, 1, 0] = Some (4, [4, 3, 2, 1, 0])" by code_simp+
  then have f: "fds = [4, 3, 2, 1, 0]" using s(1) by (simp add: tcp_start_def)
  have "\<exists>p. server_run 7 (Serving \<lparr>open_fds = [4, 3, 2, 1, 0], threads = []\<rparr>) short_life = Serving p"
    by (simp add: short_life_def server_run_def start_thread_def open_fd_def lowest_free_def running_thread_def thread_goes_on_def
        run_thread_def echoServer_def)
  then obtain p where "server_run 7 (Serving \<lparr>open_fds = fds, threads = []\<rparr>) short_life = Serving p" using f by blast
  with s(1) s(2) [OF this] show ?thesis by (auto simp: short_life_def arrivals_def)
qed

text \<open>A failed write: the connection that comes afterwards gets no thread.\<close>

lemma failed_write_ends_the_server:
  "\<exists>p. server_run 7 (Serving \<lparr>open_fds = [4, 3, 2, 1, 0], threads = []\<rparr>)
      [Connects Echo_Port, Connects Time_Port, Echo_Sees 0 (Data ''hi'', False), Connects Echo_Port] = Stopped p
    \<and> ports p = [Echo_Port, Time_Port]"
  by (simp add: server_run_def start_thread_def open_fd_def lowest_free_def running_thread_def thread_goes_on_def run_thread_def
      echoServer_def ports_def)

end
