(* ===== verification/Spec2Isabelle.thy ===== *)
theory Spec2Isabelle
  imports File_Session Client_Start Srv_Listen Dg_Send_Recv Hello_Demo Get_Hw_Addrs Odr_Chain Tour_Net Tcp_Threads
begin

text \<open>
  A verification library for the C programs of the repository \<^verbatim>\<open>socket-programming\<close>.

  \<^bold>\<open>The programs.\<close>  The repository has four groups of C programs, which do not call one another across the
  groups; paths are relative to \<^verbatim>\<open>src/\<close>.

  \<^item> \<^verbatim>\<open>TCP-like-protocal-usingUDPsocket/code\<close>: a file server (\<^verbatim>\<open>udpserv.c\<close>) and a client (\<^verbatim>\<open>udpcli.c\<close>) that transfer
    a file over UDP with sequence numbers, a receiver window, congestion control and a retransmission timer.  The
    client has two threads, one that reads datagrams and one that prints.
  \<^item> \<^verbatim>\<open>On-Demand shortest-hop Routing (ODR) protocol/code\<close>: a routing daemon (\<^verbatim>\<open>odr_chechung.c\<close>) that floods route
    requests, learns routes from requests and replies, and keeps packets until there is a route for them; a client
    and a time server that talk to the daemon of their node through the functions of \<^verbatim>\<open>function.c\<close>.
  \<^item> \<^verbatim>\<open>multicast/code\<close>: an address resolution daemon (\<^verbatim>\<open>arp_chechung.c\<close>) and the tour program (\<^verbatim>\<open>tour_chechung.c\<close>), which
    carries a packet along a list of nodes, pings the preceding nodes and ends with messages to a multicast group.
  \<^item> \<^verbatim>\<open>tcp-socket-server/code\<close>: an echo and a time service over TCP, and a client that starts a child program for each
    session and reads from a pipe what the child reports.

  \<^bold>\<open>The theories.\<close>

  Shared:
  \<^item> \<open>Prelude\<close>: bytes, C's \<^verbatim>\<open>int\<close>, the big-endian codec of 32-bit fields, search loops (\<open>find_index\<close>), checked array
    accesses (\<open>load\<close>, \<open>load_int\<close>), and the collections \<open>arr_simps\<close> and \<open>wire_simps\<close>.
  \<^item> \<open>C_String\<close>: C strings, \<^verbatim>\<open>atoi\<close>, \<^verbatim>\<open>sprintf("%d")\<close>, \<^verbatim>\<open>strtok\<close>, and strings in fixed arrays.
  \<^item> \<open>Hw_Addr\<close>: interface list of \<^verbatim>\<open>hw_addrs.h\<close> and \<^verbatim>\<open>checkAddressNotEmpty\<close>.
  \<^item> \<open>Ifi_Info\<close>: \<^verbatim>\<open>get_ifi_info_plus.c\<close> over the bytes that the kernel puts into the buffer of \<^verbatim>\<open>SIOCGIFCONF\<close>, with the \<^verbatim>\<open>ioctl\<close>
    calls as the record \<open>kernel\<close>, and the client's array of interfaces.  Every interface is listed where a kernel entry
    has 32 bytes, every fourth where it has 40.
  \<^item> \<open>Get_Hw_Addrs\<close>: \<^verbatim>\<open>get_hw_addrs.c\<close> of the daemons, which shares the loop over the buffer but indexes the entries: every
    interface is listed for any length of an entry, and the resolution daemon finds \<^verbatim>\<open>eth0\<close>.
  \<^item> \<open>Wire\<close> with the locale \<open>wire_codec\<close>: a message format of fixed width whose decoder inverts its encoder.  It is
    interpreted by \<open>seg\<close> (segments of the file transfer), \<open>odr\<close> (routing packets) and \<open>arp\<close> (resolution messages).
  \<^item> \<open>Slot_Table\<close> with the locale \<open>slot_table\<close>: a table of fixed size whose search returns the first entry of a key.
    It is interpreted by \<open>ports\<close> (the port map of the routing daemon) and \<open>table\<close> (the resolution table).

  File transfer:
  \<^item> \<open>Segment\<close>: the structure of \<^verbatim>\<open>unpifiplus.h\<close> as a record, its 512 bytes, and the reader; round trip.
  \<^item> \<open>Congestion\<close>: \<^verbatim>\<open>get_cwnd\<close> and the assignments of the timeout branch; they refine the machine \<open>reno_step\<close> of slow
    start, congestion avoidance and fast retransmit.
  \<^item> \<open>Rtt_Timer\<close>: the integer estimator, the back-off and Karn's rule; bounds that exclude overflow, and the place
    where the back-off leaves the range of \<^verbatim>\<open>int\<close>.
  \<^item> \<open>Udp_Server\<close>: one pass of the loop \<^verbatim>\<open>while (sent_complete == 0)\<close> of \<^verbatim>\<open>mydg_echo\<close> is \<open>srv_iter\<close>, with the handler
    \<open>srv_request\<close> and the timeout \<open>srv_timeout\<close>; what a request makes the server send, how the server gives up, and
    where an empty file or one of \<open>2 ^ 31\<close> bytes ends in undefined behaviour.
  \<^item> \<open>Udp_Client\<close>: \<^verbatim>\<open>dg_cli1\<close> and \<^verbatim>\<open>print_data2\<close> as the steps \<open>cl_step\<close> of two threads that share the window.  The locale
    \<open>reorder_buffer\<close> states what the window promises (what is taken out continues the numbers already taken out);
    its interpretation \<open>window\<close> is on \<open>insert_segment\<close> and \<open>consume\<close>.
  \<^item> \<open>File_Transfer\<close>, \<open>Transfer_Liveness\<close>: server and client over a network that loses, repeats, delays and reorders,
    as the step relation \<open>transfer_step\<close>, with its invariant \<open>sys_ok\<close>; the output is always the text of a prefix of the
    file, it is complete when either side believes so, no pass reads outside the file, and a complete run exists for
    every non-empty file; all this for files of fewer than \<open>2 ^ 31\<close> bytes.
  \<^item> \<open>Subnet\<close>: the comparison of addresses as strings of binary digits, and the choice of the interface, against the
    usual test on words.
  \<^item> \<open>Handshake\<close>: the exchange of file name, port and acknowledgement before the transfer.
  \<^item> \<open>Params\<close>: the parameter files \<^verbatim>\<open>client.in\<close> and \<^verbatim>\<open>server.in\<close>, line by line.
  \<^item> \<open>Client_Start\<close>: \<^verbatim>\<open>main\<close> of \<^verbatim>\<open>udpcli.c\<close> up to the first datagram, parameters, interfaces, choice and socket together; where
    a kernel entry has 32 bytes it ends with a bound and connected socket.  Printing and parsing addresses are inverse.
  \<^item> \<open>Srv_Listen\<close>: \<^verbatim>\<open>main\<close> of \<^verbatim>\<open>udpserv.c\<close>, a socket for each interface and the loop that serves them; where a kernel
    entry has 32 bytes every waiting request is served, whatever the uninitialised counter \<^verbatim>\<open>nready\<close> holds.
  \<^item> \<open>File_Session\<close>: parameter files, set-up, the opening of the file in the child process (\<open>open_file\<close>) and the transfer in one
    session, for a file that exists and for one that does not.
  \<^item> \<open>Dg_Send_Recv\<close>: \<^verbatim>\<open>dg_send_recv.c\<close>, a request that is repeated until its reply comes or the timer gives up, and \<^verbatim>\<open>dg_cli2\<close> of
    \<^verbatim>\<open>udpcli.c\<close>, which uses it; the timer library, which is not in the repository, is the record \<open>rtt_lib\<close>.
  \<^item> \<open>Hello_Demo\<close>: the examples \<^verbatim>\<open>client.c\<close> and \<^verbatim>\<open>server.c\<close>.

  Routing:
  \<^item> \<open>Odr_Packet\<close>: \<^verbatim>\<open>SELF_DEFINED_PF_Packet\<close>, its bytes, and the frame.
  \<^item> \<open>Odr\<close>: the tables of the daemon and the two branches of its \<^verbatim>\<open>select\<close> loop, \<open>handle_client\<close> and \<open>handle_packet\<close>
    (with \<open>handle_rreq\<close>, \<open>handle_rrep\<close> and \<open>handle_app\<close>, one for each type of packet).
  \<^item> \<open>Odr_Props\<close>, \<open>Odr_Routes\<close>: sizes of the arrays, flooding at most once, frames and routes a request or a reply causes,
    the release of waiting packets, the port map.
  \<^item> \<open>Odr_Apps\<close>: the texts of \<^verbatim>\<open>function.c\<close>, the client's loop and the time server.
  \<^item> \<open>Odr_Chain\<close>: any number of daemons in a row with a client at one end and the time server at the other.  The locale
    \<open>hop_by_hop\<close> carries a message from node to node when each node passes it on; it is interpreted by \<open>requests\<close>,
    \<open>replies\<close> and \<open>apps\<close>, the three kinds of packets, and the four passages make up a whole conversation.

  Resolution and tour:
  \<^item> \<open>Arp\<close>, \<open>Arp_Props\<close>: \<open>arp_client\<close> and \<open>arp_packet\<close> are the branches of the daemon's loop; a question is resolved over
    two nodes, byte by byte; what becomes of a second client and of requests from one neighbour.
  \<^item> \<open>Tour\<close>, \<open>Tour_Props\<close>: \<open>tour_start\<close> is \<^verbatim>\<open>main\<close> with arguments, \<open>tour_step\<close> the branches of the loop.  A start is
    undefined behaviour, since the list of nodes is read from a local array of a function that has returned; from the list on
    (\<open>tour_send\<close>) the tour visits its nodes in order and ends at the last one.
  \<^item> \<open>Ping\<close>: \<^verbatim>\<open>areq\<close> and \<^verbatim>\<open>send_v4\<close> of the tour program, with the checksum function \<^verbatim>\<open>in_cksum\<close>, which is not in the repository, as
    an argument; the checksums are right, and a ping is resolved by the daemon, sent, answered and counted.
  \<^item> \<open>Tour_Net\<close>: all nodes of a tour together (\<open>tour_run\<close>), the seconds in which the last node pings through its daemon
    (\<open>quiet_seconds\<close>), and the members of the group with their alarm (\<open>group_wait\<close>); a tour comes to its end.

  TCP:
  \<^item> \<open>Tcp_Echo\<close>: \<open>echoRequest\<close> and \<open>timeRequest\<close> of \<^verbatim>\<open>tcpechotimesrv.c\<close>, \<open>str_cli_echo\<close> of \<^verbatim>\<open>echo_cli.c\<close>, \<open>str_cli_time1\<close> of
    \<^verbatim>\<open>time_cli.c\<close>, and the parent's reading of the pipe (\<^verbatim>\<open>tcpechotimecli.c\<close>).
  \<^item> \<open>Tcp_Main\<close>: the \<^verbatim>\<open>main\<close> functions around them: address, menu and waiting loops of the client, the two child programs, the
    loop of the server that accepts connections.  A session goes from the menu through child and server and back, and
    every connection gets its thread.
  \<^item> \<open>Tcp_Threads\<close>: the start of the server and the functions of its threads, with the descriptors of the process, as a run over
    arriving connections and what the threads see, in any order: no descriptor is ever closed, no connection gets a thread
    when they are used up, and a failed read or write of an echo thread ends it.

  \<^bold>\<open>How code becomes definitions.\<close>  A structure is a record and an array a list whose length is an invariant or a
  guard; linked lists are lists.  Handlers take a state and an event and return the new state with the messages they
  send, in order.  \<open>None\<close>, or a constructor of the result type, stands for undefined behaviour (an index outside an
  array, a null pointer, a conversion out of range), for the end of the process by an error wrapper, or for a loop
  that never ends; the text before each definition says which.  Results of system calls are events or arguments:
  clock values, the draws of the simulated loss, alarms, received bytes, names and addresses of hosts
  (\<open>odr_config\<close>, \<open>tour_config\<close>), the list of interfaces.  Memory that the code does not initialise is an argument
  (\<open>old\<close>, \<open>junk\<close>; of type \<open>memory\<close> where it has a byte for each place) and the theorems hold for all its values, or name what they need of it.  Characters are stored as
  on a little-endian machine with 64-bit pointers where the code copies structures as they are.

  \<^bold>\<open>Bounds.\<close>  The sizes are those of the code: 512 bytes for a segment, 1514 for a frame, 100 places of the port map, 20
  of the resolution table, 70 numbers in a tour.  Numbers are unbounded integers with the ranges stated as hypotheses
  or checked (\<open>int32\<close>): the file server's offsets and segment numbers are checked in \<open>build_segment\<close> and \<open>copy_payload\<close>, its wait
  in \<open>trans_time\<close>, its clock wraps (\<open>to_int32\<close>); the sequence numbers and hop counts that travel are cut to 32 bits by the codec.  Not checked
  are the congestion window and its threshold, which grow by at most one for an acknowledgement once they are large, and the hop
  counts and identifiers inside the routing daemon; they leave \<^verbatim>\<open>int\<close> only after some \<open>2 ^ 31\<close> events.  All functions
  are total by structural recursion or a measure, but for \<open>ifconf_loop\<close>, the loop that asks the kernel with a growing
  buffer: it is a partial function, and its theorems say that it returns.  Fuel is that of \<open>tour_trace\<close> in \<open>Tour_Props\<close> and
  \<open>tour_run\<close> in \<open>Tour_Net\<close>, which follow a packet from node to node: the theorems give them one unit for each node of the
  list, which is as often as the packet is sent; and the number of seconds of \<open>quiet_seconds\<close>, for which six are enough, one
  for each of five replies and one for the announcement.  The numbers of passes of \<open>listen_passes\<close>, \<open>accept_passes\<close> and \<open>main_menu\<close>
  count the passes of loops that never end; the theorems say how many are enough.  The server's \<open>srv_run\<close> and the
  daemons' runs recurse over the list of events.

  \<^bold>\<open>Atomicity.\<close>  The threads of the file client interleave in the steps of \<open>cl_step\<close>: a request, a read with its tests, an insertion
  under the mutex, and a round of the consumer are each one step, although the code reads \<^verbatim>\<open>last_seg_acked\<close> without the mutex when it
  makes a request (\<^verbatim>\<open>udpcli.c:617\<close>) and tests a segment.  The interface walk takes the branch with \<^verbatim>\<open>HAVE_STRUCT_IFREQ_IFR_MTU\<close>, as on Linux, and \<open>ifi_walk\<close>
  gives \<open>None\<close> both when the program stops with an error and when an access leaves the buffer.

  \<^bold>\<open>Not modelled.\<close>  The system calls that only create and name sockets; the release of memory; functions that only
  print (\<^verbatim>\<open>prifinfo_plus.c\<close> among them); the conversion of the probability by \<^verbatim>\<open>atof\<close>.  Of the tour program, the copies of
  the resolution functions that \<^verbatim>\<open>main\<close> never calls, and \<^verbatim>\<open>recv_alarm\<close>, which is never installed.  The FTP programs, which are
  in Java.  What could be added: routing over a network that is not a row, and a tour whose last node has to resolve
  the addresses first.
\<close>

end
